(* ===== verification/Prelude.thy ===== *)
theory Prelude
  imports Main "HOL-Library.Word" "HOL-Library.Multiset"
begin

unbundle bit_operations_syntax

text \<open>
  What every component shares: the names of the machine types, the result type of a
  fallible Go function (an error on the left, a value on the right) with its sequencing,
  the calls of a caller-supplied function that may panic, and the big-endian accessors of
  the standard package \<^verbatim>\<open>encoding/binary\<close>, with the lemmas on them that the
  component theories rest on.
\<close>

section \<open>Machine types\<close>

type_synonym byte = "8 word"
type_synonym u16 = "16 word"
type_synonym u32 = "32 word"
type_synonym u64 = "64 word"
type_synonym bytes = "byte list"

text \<open>
  \<open>wire_simps\<close> collects the characterisations of successful field accesses and appends,
  \<open>status_simps\<close> the numeric values of the protocol's constants, \<open>machine_simps\<close> the
  unfolding of the state machine's operations.
\<close>

named_theorems wire_simps
named_theorems status_simps
named_theorems machine_simps

section \<open>Fallible functions\<close>

definition bindE :: "'e + 'a \<Rightarrow> ('a \<Rightarrow> 'e + 'b) \<Rightarrow> 'e + 'b" where
  "bindE m f = (case m of Inl e \<Rightarrow> Inl e | Inr a \<Rightarrow> f a)"

lemma bindE_Inl [simp]: "bindE (Inl e) f = Inl e"
  by (simp add: bindE_def)

lemma bindE_Inr [simp]: "bindE (Inr a) f = f a"
  by (simp add: bindE_def)

lemma bindE_eq_Inr [wire_simps]: "bindE m f = Inr b \<longleftrightarrow> (\<exists>a. m = Inr a \<and> f a = Inr b)"
  by (cases m) simp_all

lemma if_Inl_eq_Inr [wire_simps]: "(if c then Inl e else m) = Inr z \<longleftrightarrow> \<not> c \<and> m = Inr z"
  by simp

lemma bindE_eq_Inl: "bindE m f = Inl e \<longleftrightarrow> m = Inl e \<or> (\<exists>a. m = Inr a \<and> f a = Inl e)"
  by (cases m) simp_all

lemma bindE_assoc: "bindE (bindE m f) g = bindE m (\<lambda>a. bindE (f a) g)"
  by (cases m) simp_all

text \<open>
  A call into code supplied by the caller: it returns, returns an error, or panics (with the
  panic value when it is an error).
\<close>

datatype ('e, 'a) outcome = Returns 'a | Raises 'e | Panics "'e option"

definition returning :: "'e + 'a \<Rightarrow> ('e, 'a) outcome" where
  "returning m = (case m of Inl e \<Rightarrow> Raises e | Inr a \<Rightarrow> Returns a)"

lemma returning_simps [simp]:
  "returning (Inl e) = Raises e"
  "returning (Inr a) = Returns a"
  by (simp_all add: returning_def)

lemma returning_not_Panics [simp]: "returning m \<noteq> Panics e"
  by (cases m) simp_all

section \<open>Slices\<close>

text \<open>The slice expression \<^verbatim>\<open>xs[a:b]\<close>, for bounds within the slice.\<close>

definition go_slice :: "'a list \<Rightarrow> nat \<Rightarrow> nat \<Rightarrow> 'a list" where
  "go_slice xs a b = take (b - a) (drop a xs)"

lemma go_slice_append [simp]: "go_slice (pre @ xs) (length pre + a) (length pre + b) = go_slice xs a b"
  by (simp add: go_slice_def)

lemma go_slice_0 [simp]: "go_slice xs 0 b = take b xs"
  by (simp add: go_slice_def)

lemma length_go_slice [simp]: "length (go_slice xs a b) = min (b - a) (length xs - a)"
  by (simp add: go_slice_def)

section \<open>Big-endian integers\<close>

text \<open>
  \<^verbatim>\<open>binary.BigEndian.Uint16/Uint32\<close> read from the front of a slice,
  \<^verbatim>\<open>PutUint16/PutUint32\<close> give the octets that are written.
\<close>

definition Uint16 :: "bytes \<Rightarrow> u16" where
  "Uint16 b = ucast (b ! 1) OR push_bit 8 (ucast (b ! 0))"

definition Uint32 :: "bytes \<Rightarrow> u32" where
  "Uint32 b = ucast (b ! 3) OR push_bit 8 (ucast (b ! 2)) OR push_bit 16 (ucast (b ! 1))
     OR push_bit 24 (ucast (b ! 0))"

definition be16 :: "u16 \<Rightarrow> bytes" where
  "be16 v = [ucast (drop_bit 8 v), ucast v]"

definition be32 :: "u32 \<Rightarrow> bytes" where
  "be32 v = [ucast (drop_bit 24 v), ucast (drop_bit 16 v), ucast (drop_bit 8 v), ucast v]"

lemma length_be16 [simp]: "length (be16 v) = 2"
  by (simp add: be16_def)

lemma length_be32 [simp]: "length (be32 v) = 4"
  by (simp add: be32_def)

lemma byte_bit_high [simp]:
  "\<not> bit (b :: byte) (8 + n)" "\<not> bit (b :: byte) (16 + n)" "\<not> bit (b :: byte) (24 + n)"
  by (auto dest: bit_imp_le_length)

lemma Uint16_be16 [simp]: "Uint16 (be16 v @ rest) = v"
  unfolding Uint16_def be16_def
  by (rule bit_word_eqI) (auto simp: bit_simps)

lemma Uint32_be32 [simp]: "Uint32 (be32 v @ rest) = v"
  unfolding Uint32_def be32_def
proof (rule bit_word_eqI, goal_cases)
  case (1 n)
  then show ?case
    by (cases "n < 24"; cases "n < 16") (auto simp: bit_simps)
qed

lemma be16_Uint16 [simp]: "be16 (Uint16 (a # b # rest)) = [a, b]"
  unfolding Uint16_def be16_def
  by (auto intro!: bit_word_eqI simp: bit_simps)

lemma be32_Uint32 [simp]: "be32 (Uint32 (a # b # c # d # rest)) = [a, b, c, d]"
  unfolding Uint32_def be32_def
  by (auto intro!: bit_word_eqI simp: bit_simps)

end
