(* ===== verification/Protocol.thy ===== *)
theory Protocol
  imports Prelude
begin

text \<open>
  The package \<^verbatim>\<open>protocol\<close>: the numeric identifiers of commands, statuses and
  optional-parameter tags, interface versions and profiles, the session states, the bodies
  of all PDUs as records with the fields of the Go structs (each field carries a short prefix
  of its struct, because HOL record selectors are global), the structured errors, and the
  capability negotiation. An octet slice is a list: the library never tells a nil slice from an
  empty one except where a definition below says so.
\<close>

section \<open>Identifiers\<close>

type_synonym CommandID = u32
type_synonym CommandStatus = u32
type_synonym SequenceNumber = u32
type_synonym InterfaceVersion = byte
type_synonym TON = byte
type_synonym NPI = byte
type_synonym DataCoding = byte
type_synonym MessageState = byte
type_synonym DestinationFlag = byte
type_synonym CongestionState = byte

text \<open>The constants are abbreviations of their numerals, so simplification decides comparisons.\<close>

abbreviation (input) CommandGenericNACK :: CommandID where "CommandGenericNACK \<equiv> 0x80000000"
abbreviation (input) CommandBindReceiver :: CommandID where "CommandBindReceiver \<equiv> 0x00000001"
abbreviation (input) CommandBindReceiverResp :: CommandID where "CommandBindReceiverResp \<equiv> 0x80000001"
abbreviation (input) CommandBindTransmitter :: CommandID where "CommandBindTransmitter \<equiv> 0x00000002"
abbreviation (input) CommandBindTransmitterResp :: CommandID where "CommandBindTransmitterResp \<equiv> 0x80000002"
abbreviation (input) CommandQuerySM :: CommandID where "CommandQuerySM \<equiv> 0x00000003"
abbreviation (input) CommandQuerySMResp :: CommandID where "CommandQuerySMResp \<equiv> 0x80000003"
abbreviation (input) CommandSubmitSM :: CommandID where "CommandSubmitSM \<equiv> 0x00000004"
abbreviation (input) CommandSubmitSMResp :: CommandID where "CommandSubmitSMResp \<equiv> 0x80000004"
abbreviation (input) CommandDeliverSM :: CommandID where "CommandDeliverSM \<equiv> 0x00000005"
abbreviation (input) CommandDeliverSMResp :: CommandID where "CommandDeliverSMResp \<equiv> 0x80000005"
abbreviation (input) CommandUnbind :: CommandID where "CommandUnbind \<equiv> 0x00000006"
abbreviation (input) CommandUnbindResp :: CommandID where "CommandUnbindResp \<equiv> 0x80000006"
abbreviation (input) CommandReplaceSM :: CommandID where "CommandReplaceSM \<equiv> 0x00000007"
abbreviation (input) CommandReplaceSMResp :: CommandID where "CommandReplaceSMResp \<equiv> 0x80000007"
abbreviation (input) CommandCancelSM :: CommandID where "CommandCancelSM \<equiv> 0x00000008"
abbreviation (input) CommandCancelSMResp :: CommandID where "CommandCancelSMResp \<equiv> 0x80000008"
abbreviation (input) CommandBindTransceiver :: CommandID where "CommandBindTransceiver \<equiv> 0x00000009"
abbreviation (input) CommandBindTransceiverResp :: CommandID where "CommandBindTransceiverResp \<equiv> 0x80000009"
abbreviation (input) CommandOutbind :: CommandID where "CommandOutbind \<equiv> 0x0000000B"
abbreviation (input) CommandEnquireLink :: CommandID where "CommandEnquireLink \<equiv> 0x00000015"
abbreviation (input) CommandEnquireLinkResp :: CommandID where "CommandEnquireLinkResp \<equiv> 0x80000015"
abbreviation (input) CommandSubmitMulti :: CommandID where "CommandSubmitMulti \<equiv> 0x00000021"
abbreviation (input) CommandSubmitMultiResp :: CommandID where "CommandSubmitMultiResp \<equiv> 0x80000021"
abbreviation (input) CommandAlertNotification :: CommandID where "CommandAlertNotification \<equiv> 0x00000102"
abbreviation (input) CommandDataSM :: CommandID where "CommandDataSM \<equiv> 0x00000103"
abbreviation (input) CommandDataSMResp :: CommandID where "CommandDataSMResp \<equiv> 0x80000103"
abbreviation (input) CommandBroadcastSM :: CommandID where "CommandBroadcastSM \<equiv> 0x00000111"
abbreviation (input) CommandBroadcastSMResp :: CommandID where "CommandBroadcastSMResp \<equiv> 0x80000111"
abbreviation (input) CommandQueryBroadcastSM :: CommandID where "CommandQueryBroadcastSM \<equiv> 0x00000112"
abbreviation (input) CommandQueryBroadcastSMResp :: CommandID where "CommandQueryBroadcastSMResp \<equiv> 0x80000112"
abbreviation (input) CommandCancelBroadcastSM :: CommandID where "CommandCancelBroadcastSM \<equiv> 0x00000113"
abbreviation (input) CommandCancelBroadcastSMResp :: CommandID where "CommandCancelBroadcastSMResp \<equiv> 0x80000113"

abbreviation (input) StatusOK :: CommandStatus where "StatusOK \<equiv> 0"
abbreviation (input) StatusInvalidMessageLength :: CommandStatus where "StatusInvalidMessageLength \<equiv> 0x00000001"
abbreviation (input) StatusInvalidCommandLength :: CommandStatus where "StatusInvalidCommandLength \<equiv> 0x00000002"
abbreviation (input) StatusInvalidCommandID :: CommandStatus where "StatusInvalidCommandID \<equiv> 0x00000003"
abbreviation (input) StatusInvalidBindState :: CommandStatus where "StatusInvalidBindState \<equiv> 0x00000004"
abbreviation (input) StatusSystemError :: CommandStatus where "StatusSystemError \<equiv> 0x00000008"
abbreviation (input) StatusBindFailed :: CommandStatus where "StatusBindFailed \<equiv> 0x0000000D"
abbreviation (input) StatusInvalidNumberOfDestinations :: CommandStatus where "StatusInvalidNumberOfDestinations \<equiv> 0x00000033"
abbreviation (input) StatusInvalidParameterLength :: CommandStatus where "StatusInvalidParameterLength \<equiv> 0x000000C2"
abbreviation (input) StatusInvalidOptionalParameterValue :: CommandStatus where "StatusInvalidOptionalParameterValue \<equiv> 0x000000C4"

abbreviation (input) TLVTagDestAddrSubunit :: u16 where "TLVTagDestAddrSubunit \<equiv> 0x0005"
abbreviation (input) TLVTagDestNetworkType :: u16 where "TLVTagDestNetworkType \<equiv> 0x0006"
abbreviation (input) TLVTagDestBearerType :: u16 where "TLVTagDestBearerType \<equiv> 0x0007"
abbreviation (input) TLVTagDestTelematicsID :: u16 where "TLVTagDestTelematicsID \<equiv> 0x0008"
abbreviation (input) TLVTagSourceAddrSubunit :: u16 where "TLVTagSourceAddrSubunit \<equiv> 0x000D"
abbreviation (input) TLVTagSourceNetworkType :: u16 where "TLVTagSourceNetworkType \<equiv> 0x000E"
abbreviation (input) TLVTagSourceBearerType :: u16 where "TLVTagSourceBearerType \<equiv> 0x000F"
abbreviation (input) TLVTagSourceTelematicsID :: u16 where "TLVTagSourceTelematicsID \<equiv> 0x0010"
abbreviation (input) TLVTagQOSTimeToLive :: u16 where "TLVTagQOSTimeToLive \<equiv> 0x0017"
abbreviation (input) TLVTagPayloadType :: u16 where "TLVTagPayloadType \<equiv> 0x0019"
abbreviation (input) TLVTagAdditionalStatusInfoText :: u16 where "TLVTagAdditionalStatusInfoText \<equiv> 0x001D"
abbreviation (input) TLVTagReceiptedMessageID :: u16 where "TLVTagReceiptedMessageID \<equiv> 0x001E"
abbreviation (input) TLVTagMSMsgWaitFacilities :: u16 where "TLVTagMSMsgWaitFacilities \<equiv> 0x0030"
abbreviation (input) TLVTagPrivacyIndicator :: u16 where "TLVTagPrivacyIndicator \<equiv> 0x0201"
abbreviation (input) TLVTagSourceSubaddress :: u16 where "TLVTagSourceSubaddress \<equiv> 0x0202"
abbreviation (input) TLVTagDestSubaddress :: u16 where "TLVTagDestSubaddress \<equiv> 0x0203"
abbreviation (input) TLVTagUserMessageReference :: u16 where "TLVTagUserMessageReference \<equiv> 0x0204"
abbreviation (input) TLVTagUserResponseCode :: u16 where "TLVTagUserResponseCode \<equiv> 0x0205"
abbreviation (input) TLVTagSourcePort :: u16 where "TLVTagSourcePort \<equiv> 0x020A"
abbreviation (input) TLVTagDestinationPort :: u16 where "TLVTagDestinationPort \<equiv> 0x020B"
abbreviation (input) TLVTagSARMsgRefNum :: u16 where "TLVTagSARMsgRefNum \<equiv> 0x020C"
abbreviation (input) TLVTagLanguageIndicator :: u16 where "TLVTagLanguageIndicator \<equiv> 0x020D"
abbreviation (input) TLVTagSARTotalSegments :: u16 where "TLVTagSARTotalSegments \<equiv> 0x020E"
abbreviation (input) TLVTagSARSegmentSeqnum :: u16 where "TLVTagSARSegmentSeqnum \<equiv> 0x020F"
abbreviation (input) TLVTagSCInterfaceVersion :: u16 where "TLVTagSCInterfaceVersion \<equiv> 0x0210"
abbreviation (input) TLVTagCallbackNumPresInd :: u16 where "TLVTagCallbackNumPresInd \<equiv> 0x0302"
abbreviation (input) TLVTagCallbackNumAtag :: u16 where "TLVTagCallbackNumAtag \<equiv> 0x0303"
abbreviation (input) TLVTagNumberOfMessages :: u16 where "TLVTagNumberOfMessages \<equiv> 0x0304"
abbreviation (input) TLVTagCallbackNum :: u16 where "TLVTagCallbackNum \<equiv> 0x0381"
abbreviation (input) TLVTagDPFResult :: u16 where "TLVTagDPFResult \<equiv> 0x0420"
abbreviation (input) TLVTagSetDPF :: u16 where "TLVTagSetDPF \<equiv> 0x0421"
abbreviation (input) TLVTagMSAvailabilityStatus :: u16 where "TLVTagMSAvailabilityStatus \<equiv> 0x0422"
abbreviation (input) TLVTagNetworkErrorCode :: u16 where "TLVTagNetworkErrorCode \<equiv> 0x0423"
abbreviation (input) TLVTagMessagePayload :: u16 where "TLVTagMessagePayload \<equiv> 0x0424"
abbreviation (input) TLVTagDeliveryFailureReason :: u16 where "TLVTagDeliveryFailureReason \<equiv> 0x0425"
abbreviation (input) TLVTagMoreMessagesToSend :: u16 where "TLVTagMoreMessagesToSend \<equiv> 0x0426"
abbreviation (input) TLVTagMessageState :: u16 where "TLVTagMessageState \<equiv> 0x0427"
abbreviation (input) TLVTagCongestionState :: u16 where "TLVTagCongestionState \<equiv> 0x0428"
abbreviation (input) TLVTagUSSDServiceOp :: u16 where "TLVTagUSSDServiceOp \<equiv> 0x0501"
abbreviation (input) TLVTagBroadcastChannelIndicator :: u16 where "TLVTagBroadcastChannelIndicator \<equiv> 0x0600"
abbreviation (input) TLVTagBroadcastContentType :: u16 where "TLVTagBroadcastContentType \<equiv> 0x0601"
abbreviation (input) TLVTagBroadcastContentTypeInfo :: u16 where "TLVTagBroadcastContentTypeInfo \<equiv> 0x0602"
abbreviation (input) TLVTagBroadcastMessageClass :: u16 where "TLVTagBroadcastMessageClass \<equiv> 0x0603"
abbreviation (input) TLVTagBroadcastRepNum :: u16 where "TLVTagBroadcastRepNum \<equiv> 0x0604"
abbreviation (input) TLVTagBroadcastFrequencyInterval :: u16 where "TLVTagBroadcastFrequencyInterval \<equiv> 0x0605"
abbreviation (input) TLVTagBroadcastAreaIdentifier :: u16 where "TLVTagBroadcastAreaIdentifier \<equiv> 0x0606"
abbreviation (input) TLVTagBroadcastErrorStatus :: u16 where "TLVTagBroadcastErrorStatus \<equiv> 0x0607"
abbreviation (input) TLVTagBroadcastAreaSuccess :: u16 where "TLVTagBroadcastAreaSuccess \<equiv> 0x0608"
abbreviation (input) TLVTagBroadcastEndTime :: u16 where "TLVTagBroadcastEndTime \<equiv> 0x0609"
abbreviation (input) TLVTagBroadcastServiceGroup :: u16 where "TLVTagBroadcastServiceGroup \<equiv> 0x060A"
abbreviation (input) TLVTagBillingIdentification :: u16 where "TLVTagBillingIdentification \<equiv> 0x060B"
abbreviation (input) TLVTagSourceNetworkID :: u16 where "TLVTagSourceNetworkID \<equiv> 0x060D"
abbreviation (input) TLVTagDestNetworkID :: u16 where "TLVTagDestNetworkID \<equiv> 0x060E"
abbreviation (input) TLVTagSourceNodeID :: u16 where "TLVTagSourceNodeID \<equiv> 0x060F"
abbreviation (input) TLVTagDestNodeID :: u16 where "TLVTagDestNodeID \<equiv> 0x0610"
abbreviation (input) TLVTagDestAddrNPResolution :: u16 where "TLVTagDestAddrNPResolution \<equiv> 0x0611"
abbreviation (input) TLVTagDestAddrNPInformation :: u16 where "TLVTagDestAddrNPInformation \<equiv> 0x0612"
abbreviation (input) TLVTagDestAddrNPCountry :: u16 where "TLVTagDestAddrNPCountry \<equiv> 0x0613"
abbreviation (input) TLVTagDisplayTime :: u16 where "TLVTagDisplayTime \<equiv> 0x1201"
abbreviation (input) TLVTagSMSSignal :: u16 where "TLVTagSMSSignal \<equiv> 0x1203"
abbreviation (input) TLVTagMSValidity :: u16 where "TLVTagMSValidity \<equiv> 0x1204"
abbreviation (input) TLVTagAlertOnMessageDelivery :: u16 where "TLVTagAlertOnMessageDelivery \<equiv> 0x130C"
abbreviation (input) TLVTagITSReplyType :: u16 where "TLVTagITSReplyType \<equiv> 0x1380"
abbreviation (input) TLVTagITSSessionInfo :: u16 where "TLVTagITSSessionInfo \<equiv> 0x1383"
abbreviation (input) TLVTagFailedBroadcastAreaIdentifier :: u16 where "TLVTagFailedBroadcastAreaIdentifier \<equiv> TLVTagBroadcastAreaIdentifier"


abbreviation (input) DestinationSME :: DestinationFlag where "DestinationSME \<equiv> 0x01"
abbreviation (input) DestinationDistributionList :: DestinationFlag where "DestinationDistributionList \<equiv> 0x02"

abbreviation (input) InterfaceVersion34 :: InterfaceVersion where "InterfaceVersion34 \<equiv> 0x34"
abbreviation (input) InterfaceVersion50 :: InterfaceVersion where "InterfaceVersion50 \<equiv> 0x50"

abbreviation (input) SequenceMin :: SequenceNumber where "SequenceMin \<equiv> 0x00000001"
abbreviation (input) SequenceOutboundMax :: SequenceNumber where "SequenceOutboundMax \<equiv> 0x7FFFFFFF"
abbreviation (input) SequenceInboundMax :: SequenceNumber where "SequenceInboundMax \<equiv> 0xFFFFFFFF"

abbreviation (input) DataCodingSMSCDefault :: DataCoding where "DataCodingSMSCDefault \<equiv> 0"
abbreviation (input) DataCodingUCS2 :: DataCoding where "DataCodingUCS2 \<equiv> 0x08"
abbreviation (input) DataCodingOctetBinary2 :: DataCoding where "DataCodingOctetBinary2 \<equiv> 0x04"

definition responseMask :: CommandID where
  "responseMask = 0x80000000"

definition IsResponse :: "CommandID \<Rightarrow> bool" where
  "IsResponse c = (c AND responseMask \<noteq> 0)"

definition RequestID :: "CommandID \<Rightarrow> CommandID" where
  "RequestID c = c AND NOT responseMask"

definition ResponseID :: "CommandID \<Rightarrow> CommandID" where
  "ResponseID c = c OR responseMask"

definition OK :: "CommandStatus \<Rightarrow> bool" where
  "OK s = (s = StatusOK)"

definition ValidInbound :: "SequenceNumber \<Rightarrow> bool" where
  "ValidInbound s = (s \<ge> SequenceMin \<and> s \<le> SequenceInboundMax)"

definition ValidOutbound :: "SequenceNumber \<Rightarrow> bool" where
  "ValidOutbound s = (s \<ge> SequenceMin \<and> s \<le> SequenceOutboundMax)"

datatype SessionState =
  StateClosed | StateOpen | StateOutbound | StateBoundTX | StateBoundRX | StateBoundTRX | StateUnbound

section \<open>Four-octet integers\<close>

definition PutUint32_protocol :: "bytes \<Rightarrow> u32 \<Rightarrow> bytes \<times> bool" where
  "PutUint32_protocol dst v = (if length dst < 4 then (dst, False) else (be32 v @ drop 4 dst, True))"

definition ReadUint32_protocol :: "bytes \<Rightarrow> u32 \<times> bool" where
  "ReadUint32_protocol src = (if length src < 4 then (0, False) else (Uint32 (take 4 src), True))"

section \<open>Errors\<close>

datatype FatalErrorKind =
  FatalUnknown | FatalInvalidCommandLength | FatalPDUTooLarge | FatalTruncatedFrame
| FatalInvalidFieldLength | FatalInvalidCString | FatalInvalidTLVLength | FatalFrameBoundaryLost

text \<open>
  Go errors: the structured errors of \<^verbatim>\<open>protocol/errors.go\<close> and
  \<^verbatim>\<open>protocol/panic.go\<close> with the cause they unwrap to, an error made by
  \<^verbatim>\<open>errors.New\<close> (identified by its text) and one wrapped by a
  \<^verbatim>\<open>%w\<close> of \<^verbatim>\<open>fmt.Errorf\<close>. The text a wrap or a
  \<^verbatim>\<open>Reason\<close> is formatted with is kept as the format string.
  A \<^verbatim>\<open>PanicError\<close> keeps the panic value only when it is itself an error,
  which is what \<^verbatim>\<open>Unwrap\<close> can see.
\<close>

datatype goerr =
  FatalError FatalErrorKind u32 CommandID SequenceNumber string "goerr option"
| SemanticError CommandStatus CommandID SequenceNumber string "goerr option"
| PanicError string "goerr option"
| Sentinel string
| Wrapped string goerr

definition ErrInvalidCongestionState :: goerr where
  "ErrInvalidCongestionState = Sentinel ''smpp protocol: invalid congestion_state''"

text \<open>\<^verbatim>\<open>errors.As\<close> for the two structured errors: the first of its type along the causes.\<close>

fun asFatal :: "goerr \<Rightarrow> goerr option" where
  "asFatal (FatalError k d c s r cause) = Some (FatalError k d c s r cause)"
| "asFatal (SemanticError st c s r (Some e)) = asFatal e"
| "asFatal (PanicError src (Some e)) = asFatal e"
| "asFatal (Wrapped r e) = asFatal e"
| "asFatal _ = None"

fun asSemantic :: "goerr \<Rightarrow> goerr option" where
  "asSemantic (SemanticError st c s r cause) = Some (SemanticError st c s r cause)"
| "asSemantic (FatalError k d c s r (Some e)) = asSemantic e"
| "asSemantic (PanicError src (Some e)) = asSemantic e"
| "asSemantic (Wrapped r e) = asSemantic e"
| "asSemantic _ = None"

text \<open>\<^verbatim>\<open>errors.Is\<close> against an error made by \<^verbatim>\<open>errors.New\<close>.\<close>

fun errorsIs :: "goerr \<Rightarrow> goerr \<Rightarrow> bool" where
  "errorsIs (FatalError k d c s r cause) t = (case cause of None \<Rightarrow> False | Some e \<Rightarrow> errorsIs e t)"
| "errorsIs (SemanticError st c s r cause) t = (case cause of None \<Rightarrow> False | Some e \<Rightarrow> errorsIs e t)"
| "errorsIs (PanicError src cause) t = (case cause of None \<Rightarrow> False | Some e \<Rightarrow> errorsIs e t)"
| "errorsIs (Wrapped r e) t = (Wrapped r e = t \<or> errorsIs e t)"
| "errorsIs (Sentinel x) t = (Sentinel x = t)"

section \<open>Bodies\<close>

record OptionalParameter =
  op_Tag   :: u16
  op_Value :: bytes

record OptionalResponse =
  or_Optional :: "OptionalParameter list"

record BindRequest =
  br_SystemID         :: bytes
  br_Password         :: bytes
  br_SystemType       :: bytes
  br_InterfaceVersion :: InterfaceVersion
  br_AddressTON       :: TON
  br_AddressNPI       :: NPI
  br_AddressRange     :: bytes

record BindResponse =
  bresp_SystemID :: bytes
  bresp_Optional :: "OptionalParameter list"

record SubmitSM =
  ssm_ServiceType          :: bytes
  ssm_SourceAddrTON        :: TON
  ssm_SourceAddrNPI        :: NPI
  ssm_SourceAddr           :: bytes
  ssm_DestAddrTON          :: TON
  ssm_DestAddrNPI          :: NPI
  ssm_DestinationAddr      :: bytes
  ssm_ESMClass             :: byte
  ssm_ProtocolID           :: byte
  ssm_PriorityFlag         :: byte
  ssm_ScheduleDeliveryTime :: bytes
  ssm_ValidityPeriod       :: bytes
  ssm_RegisteredDelivery   :: byte
  ssm_ReplaceIfPresentFlag :: byte
  ssm_DataCoding           :: DataCoding
  ssm_SMDefaultMsgID       :: byte
  ssm_ShortMessage         :: bytes
  ssm_Optional             :: "OptionalParameter list"

record SubmitSMResp =
  ssmr_MessageID :: bytes
  ssmr_Optional  :: "OptionalParameter list"

record DeliverSM =
  dsm_ServiceType          :: bytes
  dsm_SourceAddrTON        :: TON
  dsm_SourceAddrNPI        :: NPI
  dsm_SourceAddr           :: bytes
  dsm_DestAddrTON          :: TON
  dsm_DestAddrNPI          :: NPI
  dsm_DestinationAddr      :: bytes
  dsm_ESMClass             :: byte
  dsm_ProtocolID           :: byte
  dsm_PriorityFlag         :: byte
  dsm_ScheduleDeliveryTime :: bytes
  dsm_ValidityPeriod       :: bytes
  dsm_RegisteredDelivery   :: byte
  dsm_ReplaceIfPresentFlag :: byte
  dsm_DataCoding           :: DataCoding
  dsm_SMDefaultMsgID       :: byte
  dsm_ShortMessage         :: bytes
  dsm_Optional             :: "OptionalParameter list"

record DeliverSMResp =
  dsmr_MessageID :: bytes
  dsmr_Optional  :: "OptionalParameter list"

record SubmitMultiDestination =
  smd_Flag    :: DestinationFlag
  smd_TON     :: TON
  smd_NPI     :: NPI
  smd_Address :: bytes

record UnsuccessfulSME =
  us_DestAddrTON     :: TON
  us_DestAddrNPI     :: NPI
  us_DestinationAddr :: bytes
  us_ErrorStatusCode :: CommandStatus

record SubmitMulti =
  sm_ServiceType          :: bytes
  sm_SourceAddrTON        :: TON
  sm_SourceAddrNPI        :: NPI
  sm_SourceAddr           :: bytes
  sm_Destinations         :: "SubmitMultiDestination list"
  sm_ESMClass             :: byte
  sm_ProtocolID           :: byte
  sm_PriorityFlag         :: byte
  sm_ScheduleDeliveryTime :: bytes
  sm_ValidityPeriod       :: bytes
  sm_RegisteredDelivery   :: byte
  sm_ReplaceIfPresentFlag :: byte
  sm_DataCoding           :: DataCoding
  sm_SMDefaultMsgID       :: byte
  sm_ShortMessage         :: bytes
  sm_Optional             :: "OptionalParameter list"

record SubmitMultiResp =
  smr_MessageID    :: bytes
  smr_Unsuccessful :: "UnsuccessfulSME list"
  smr_Optional     :: "OptionalParameter list"

record DataSM =
  data_ServiceType        :: bytes
  data_SourceAddrTON      :: TON
  data_SourceAddrNPI      :: NPI
  data_SourceAddr         :: bytes
  data_DestAddrTON        :: TON
  data_DestAddrNPI        :: NPI
  data_DestinationAddr    :: bytes
  data_ESMClass           :: byte
  data_RegisteredDelivery :: byte
  data_DataCoding         :: DataCoding
  data_Optional           :: "OptionalParameter list"

record DataSMResp =
  datar_MessageID :: bytes
  datar_Optional  :: "OptionalParameter list"

record QuerySM =
  q_MessageID     :: bytes
  q_SourceAddrTON :: TON
  q_SourceAddrNPI :: NPI
  q_SourceAddr    :: bytes

record QuerySMResp =
  qr_MessageID    :: bytes
  qr_FinalDate    :: bytes
  qr_MessageState :: MessageState
  qr_ErrorCode    :: byte
  qr_Optional     :: "OptionalParameter list"

record CancelSM =
  c_ServiceType     :: bytes
  c_MessageID       :: bytes
  c_SourceAddrTON   :: TON
  c_SourceAddrNPI   :: NPI
  c_SourceAddr      :: bytes
  c_DestAddrTON     :: TON
  c_DestAddrNPI     :: NPI
  c_DestinationAddr :: bytes

record ReplaceSM =
  r_MessageID            :: bytes
  r_SourceAddrTON        :: TON
  r_SourceAddrNPI        :: NPI
  r_SourceAddr           :: bytes
  r_ScheduleDeliveryTime :: bytes
  r_ValidityPeriod       :: bytes
  r_RegisteredDelivery   :: byte
  r_SMDefaultMsgID       :: byte
  r_ShortMessage         :: bytes

record AlertNotification =
  an_SourceAddrTON :: TON
  an_SourceAddrNPI :: NPI
  an_SourceAddr    :: bytes
  an_ESMEAddrTON   :: TON
  an_ESMEAddrNPI   :: NPI
  an_ESMEAddr      :: bytes
  an_Optional      :: "OptionalParameter list"

record Outbind =
  ob_SystemID :: bytes
  ob_Password :: bytes

record BroadcastSM =
  b_ServiceType          :: bytes
  b_SourceAddrTON        :: TON
  b_SourceAddrNPI        :: NPI
  b_SourceAddr           :: bytes
  b_MessageID            :: bytes
  b_PriorityFlag         :: byte
  b_ScheduleDeliveryTime :: bytes
  b_ValidityPeriod       :: bytes
  b_ReplaceIfPresentFlag :: byte
  b_DataCoding           :: DataCoding
  b_SMDefaultMsgID       :: byte
  b_Optional             :: "OptionalParameter list"

record BroadcastSMResp =
  bcr_MessageID :: bytes
  bcr_Optional  :: "OptionalParameter list"

record QueryBroadcastSM =
  qb_MessageID     :: bytes
  qb_SourceAddrTON :: TON
  qb_SourceAddrNPI :: NPI
  qb_SourceAddr    :: bytes
  qb_Optional      :: "OptionalParameter list"

record QueryBroadcastSMResp =
  qbr_MessageID :: bytes
  qbr_Optional  :: "OptionalParameter list"

record CancelBroadcastSM =
  cb_ServiceType   :: bytes
  cb_MessageID     :: bytes
  cb_SourceAddrTON :: TON
  cb_SourceAddrNPI :: NPI
  cb_SourceAddr    :: bytes
  cb_Optional      :: "OptionalParameter list"

section \<open>Profiles and capability negotiation\<close>

record Profile =
  pf_InterfaceVersion :: InterfaceVersion

definition SMPP34Profile :: Profile where
  "SMPP34Profile = \<lparr>pf_InterfaceVersion = InterfaceVersion34\<rparr>"

definition SMPP50Profile :: Profile where
  "SMPP50Profile = \<lparr>pf_InterfaceVersion = InterfaceVersion50\<rparr>"

definition ProfileValid :: "Profile \<Rightarrow> bool" where
  "ProfileValid p = (pf_InterfaceVersion p = InterfaceVersion34 \<or> pf_InterfaceVersion p = InterfaceVersion50)"

definition SupportsOptionalParameters :: "Profile \<Rightarrow> bool" where
  "SupportsOptionalParameters p = ProfileValid p"

definition IsSMPP50 :: "Profile \<Rightarrow> bool" where
  "IsSMPP50 p = (pf_InterfaceVersion p = InterfaceVersion50)"

record PeerCapabilities =
  PeerVersion       :: InterfaceVersion
  NegotiatedVersion :: InterfaceVersion
  VersionAdvertised :: bool
  SupportsTLV       :: bool
  SupportsSMPP50    :: bool

definition NegotiatePeerCapabilities :: "Profile \<Rightarrow> InterfaceVersion \<Rightarrow> bool \<Rightarrow> PeerCapabilities" where
  "NegotiatePeerCapabilities localp peer advertised =
     (let caps = \<lparr>PeerVersion = peer, NegotiatedVersion = 0, VersionAdvertised = advertised,
                  SupportsTLV = False, SupportsSMPP50 = False\<rparr> in
      if \<not> ProfileValid localp \<or> \<not> advertised then caps
      else if peer = InterfaceVersion34
      then caps\<lparr>NegotiatedVersion := InterfaceVersion34, SupportsTLV := True\<rparr>
      else if peer = InterfaceVersion50
      then (if pf_InterfaceVersion localp = InterfaceVersion50
            then caps\<lparr>SupportsTLV := True, NegotiatedVersion := InterfaceVersion50, SupportsSMPP50 := True\<rparr>
            else caps\<lparr>SupportsTLV := True, NegotiatedVersion := InterfaceVersion34\<rparr>)
      else caps)"

fun SCInterfaceVersion :: "OptionalParameter list \<Rightarrow> InterfaceVersion \<times> bool" where
  "SCInterfaceVersion [] = (0, False)"
| "SCInterfaceVersion (p # ps) =
     (if op_Tag p = TLVTagSCInterfaceVersion \<and> length (op_Value p) = 1
      then (op_Value p ! 0, True) else SCInterfaceVersion ps)"

definition CongestionValid :: "CongestionState \<Rightarrow> bool" where
  "CongestionValid c = (c \<le> 100)"

fun CongestionStateFromOptional :: "OptionalParameter list \<Rightarrow> CongestionState \<times> bool \<times> goerr option" where
  "CongestionStateFromOptional [] = (0, False, None)"
| "CongestionStateFromOptional (p # ps) =
     (if op_Tag p \<noteq> TLVTagCongestionState then CongestionStateFromOptional ps
      else if length (op_Value p) \<noteq> 1 then (0, True, Some ErrInvalidCongestionState)
      else let state = op_Value p ! 0 in
           if \<not> CongestionValid state then (state, True, Some ErrInvalidCongestionState)
           else (state, True, None))"

section \<open>Lemmas\<close>

lemma responseMask_bit: "bit responseMask n \<longleftrightarrow> n = 31"
proof -
  have "responseMask = push_bit 31 1" by (simp add: responseMask_def)
  then have "bit responseMask n = bit (push_bit 31 1 :: u32) n" by (rule arg_cong)
  then show ?thesis by (simp only: bit_simps) auto
qed

lemma IsResponse_bit: "IsResponse c \<longleftrightarrow> bit c 31"
proof -
  have "c AND responseMask \<noteq> 0 \<longleftrightarrow> (\<exists>n. bit (c AND responseMask) n)"
    by (metis bit_0_eq bit_eq_iff bot_apply bot_bool_def)
  then show ?thesis by (auto simp: IsResponse_def bit_and_iff responseMask_bit)
qed

lemma IsResponse_ResponseID [simp]: "IsResponse (ResponseID c)"
  by (simp add: IsResponse_bit ResponseID_def bit_or_iff responseMask_bit)

lemma IsResponse_RequestID [simp]: "\<not> IsResponse (RequestID c)"
  by (simp add: IsResponse_bit RequestID_def bit_and_iff bit_not_iff responseMask_bit)

lemma RequestID_ResponseID [simp]: "RequestID (ResponseID c) = RequestID c"
  by (rule bit_word_eqI) (auto simp: RequestID_def ResponseID_def bit_simps responseMask_bit)

lemma ResponseID_RequestID [simp]: "ResponseID (RequestID c) = ResponseID c"
  by (rule bit_word_eqI) (auto simp: RequestID_def ResponseID_def bit_simps responseMask_bit)

lemma RequestID_id: "\<not> IsResponse c \<Longrightarrow> RequestID c = c"
  by (rule bit_word_eqI) (auto simp: RequestID_def IsResponse_bit bit_simps responseMask_bit)

lemma ResponseID_id: "IsResponse c \<Longrightarrow> ResponseID c = c"
  by (rule bit_word_eqI) (auto simp: ResponseID_def IsResponse_bit bit_simps responseMask_bit)

lemma ValidInbound_iff: "ValidInbound s \<longleftrightarrow> s \<noteq> 0"
proof -
  have "unat s < 2 ^ LENGTH(32)" by (rule unsigned_less)
  then have "s \<le> 0xFFFFFFFF" by (simp add: word_le_nat_alt)
  moreover have "1 \<le> s \<longleftrightarrow> s \<noteq> 0"
    using unsigned_eq_0_iff [of s, where ?'a = nat] by (auto simp: word_le_nat_alt Suc_le_eq)
  ultimately show ?thesis by (simp only: ValidInbound_def) simp
qed

lemma OK_iff [simp]: "OK s \<longleftrightarrow> s = 0"
  by (simp add: OK_def)

end
