(* ===== verification/Wire.thy ===== *)
theory Wire
  imports Protocol
begin

text \<open>
  The primitives of the wire format in the package \<^verbatim>\<open>codec\<close>: fixed-width
  integers, C-Octet strings and octet strings (\<^verbatim>\<open>fields.go\<close>), the 16-octet
  header (\<^verbatim>\<open>header.go\<close>) and the optional-parameter area
  (\<^verbatim>\<open>tlv.go\<close>). A reader returns the value with the number of octets it consumed, or
  an error. Each primitive gets one characterisation of exactly when it succeeds, in terms
  of the octets it reads or writes; the codecs of the bodies rest on these facts only.
\<close>

section \<open>Sentinel errors\<close>

definition ErrShortBuffer :: goerr where
  "ErrShortBuffer = Sentinel ''smpp codec: short buffer''"

definition ErrInvalidCommandLength :: goerr where
  "ErrInvalidCommandLength = Sentinel ''smpp codec: command_length must be at least 16''"

definition ErrInvalidMaxPDUSize :: goerr where
  "ErrInvalidMaxPDUSize = Sentinel ''smpp codec: maximum PDU size must be at least 16''"

definition ErrFieldTooLong :: goerr where
  "ErrFieldTooLong = Sentinel ''smpp codec: field exceeds configured maximum''"

definition ErrEmbeddedNUL :: goerr where
  "ErrEmbeddedNUL = Sentinel ''smpp codec: C-Octet String contains embedded NUL''"

definition ErrTLVValueTooLong :: goerr where
  "ErrTLVValueTooLong = Sentinel ''smpp codec: TLV value exceeds 65535 octets''"

definition ErrNotInitialized :: goerr where
  "ErrNotInitialized = Sentinel ''smpp codec: not initialized; create framers with NewFramer''"

text \<open>A structural error that carries only its kind and reason.\<close>

abbreviation fatal :: "FatalErrorKind \<Rightarrow> string \<Rightarrow> goerr" where
  "fatal kind reason \<equiv> FatalError kind 0 0 0 reason None"

section \<open>Fields\<close>

definition ReadUint8 :: "bytes \<Rightarrow> goerr + byte \<times> nat" where
  "ReadUint8 src =
     (if length src < 1 then Inl (fatal FatalInvalidFieldLength ''missing 1-octet integer'')
      else Inr (src ! 0, 1))"

definition ReadUint16 :: "bytes \<Rightarrow> goerr + u16 \<times> nat" where
  "ReadUint16 src =
     (if length src < 2 then Inl (fatal FatalInvalidFieldLength ''missing 2-octet integer'')
      else Inr (Uint16 (take 2 src), 2))"

definition ReadUint32 :: "bytes \<Rightarrow> goerr + u32 \<times> nat" where
  "ReadUint32 src =
     (if length src < 4 then Inl (fatal FatalInvalidFieldLength ''missing 4-octet integer'')
      else Inr (Uint32 (take 4 src), 4))"

definition PutUint8 :: "bytes \<Rightarrow> byte \<Rightarrow> goerr + bytes" where
  "PutUint8 dst v = (if length dst < 1 then Inl ErrShortBuffer else Inr (dst[0 := v]))"

definition PutUint16 :: "bytes \<Rightarrow> u16 \<Rightarrow> goerr + bytes" where
  "PutUint16 dst v = (if length dst < 2 then Inl ErrShortBuffer else Inr (be16 v @ drop 2 dst))"

definition PutUint32 :: "bytes \<Rightarrow> u32 \<Rightarrow> goerr + bytes" where
  "PutUint32 dst v = (if length dst < 4 then Inl ErrShortBuffer else Inr (be32 v @ drop 4 dst))"

text \<open>\<^verbatim>\<open>bytes.IndexByte\<close>: the first index, \<^const>\<open>None\<close> for -1.\<close>

fun IndexByte :: "bytes \<Rightarrow> byte \<Rightarrow> nat option" where
  "IndexByte [] c = None"
| "IndexByte (b # bs) c = (if b = c then Some 0 else map_option Suc (IndexByte bs c))"

definition ReadCString :: "bytes \<Rightarrow> int \<Rightarrow> goerr + bytes \<times> nat" where
  "ReadCString src maxEncodedLen =
     (let limit = (if maxEncodedLen > 0 \<and> maxEncodedLen < int (length src)
                   then nat maxEncodedLen else length src) in
      if limit = 0
      then Inl (fatal FatalInvalidCString ''C-Octet String has no room for terminator'')
      else case IndexByte (take limit src) 0 of
        None \<Rightarrow> Inl (fatal FatalInvalidCString
                  ''C-Octet String is not NUL-terminated within its allowed boundary'')
      | Some idx \<Rightarrow> Inr (take idx src, idx + 1))"

definition AppendCString :: "bytes \<Rightarrow> bytes \<Rightarrow> int \<Rightarrow> goerr + bytes" where
  "AppendCString dst v maxEncodedLen =
     (if IndexByte v 0 \<noteq> None then Inl ErrEmbeddedNUL
      else if maxEncodedLen > 0 \<and> int (length v) + 1 > maxEncodedLen then Inl ErrFieldTooLong
      else Inr ((dst @ v) @ [0]))"

definition ReadOctets :: "bytes \<Rightarrow> int \<Rightarrow> goerr + bytes \<times> nat" where
  "ReadOctets src n =
     (if n < 0 \<or> n > int (length src)
      then Inl (fatal FatalInvalidFieldLength ''Octet String length exceeds remaining PDU body'')
      else Inr (take (nat n) src, nat n))"

definition AppendOctets :: "bytes \<Rightarrow> bytes \<Rightarrow> bytes" where
  "AppendOctets dst v = dst @ v"

section \<open>The header\<close>

abbreviation (input) HeaderSize :: nat where "HeaderSize \<equiv> 16"

record Header =
  CommandLength  :: u32
  h_CommandID      :: CommandID
  h_CommandStatus  :: CommandStatus
  h_SequenceNumber :: SequenceNumber

definition DecodeHeader :: "bytes \<Rightarrow> goerr + Header" where
  "DecodeHeader src =
     (if length src < HeaderSize
      then Inl (fatal FatalTruncatedFrame ''PDU header shorter than 16 octets'')
      else let h = \<lparr>CommandLength = Uint32 (go_slice src 0 4),
                    h_CommandID = Uint32 (go_slice src 4 8),
                    h_CommandStatus = Uint32 (go_slice src 8 12),
                    h_SequenceNumber = Uint32 (go_slice src 12 16)\<rparr> in
           if CommandLength h < of_nat HeaderSize
           then Inl (FatalError FatalInvalidCommandLength (CommandLength h) (h_CommandID h)
                       (h_SequenceNumber h) ''command_length is smaller than the SMPP header'' None)
           else Inr h)"

definition EncodeHeader :: "bytes \<Rightarrow> Header \<Rightarrow> goerr + bytes" where
  "EncodeHeader dst h =
     (if length dst < HeaderSize then Inl ErrShortBuffer
      else if CommandLength h < of_nat HeaderSize then Inl ErrInvalidCommandLength
      else Inr (be32 (CommandLength h) @ be32 (h_CommandID h) @ be32 (h_CommandStatus h)
                @ be32 (h_SequenceNumber h) @ drop 16 dst))"

section \<open>Optional parameters\<close>

abbreviation (input) TLVHeaderSize :: nat where "TLVHeaderSize \<equiv> 4"

record TLV =
  Tag   :: u16
  Value :: bytes

text \<open>
  The loop of \<^verbatim>\<open>ScanTLVs\<close> from an offset. The visitor is a closure over the caller's
  variables: it takes and returns their values \<open>s\<close>; \<^const>\<open>None\<close> is the nil visitor.
\<close>

function scanTLVsFrom ::
    "bytes \<Rightarrow> nat \<Rightarrow> (TLV \<Rightarrow> 's \<Rightarrow> bool \<times> 's) option \<Rightarrow> 's \<Rightarrow> goerr option \<times> 's" where
  "scanTLVsFrom src offset visit s =
     (if offset < length src then
        let remaining = length src - offset in
        if remaining < TLVHeaderSize
        then (Some (fatal FatalInvalidTLVLength ''truncated TLV header''), s)
        else
          let tag = Uint16 (go_slice src offset (offset + 2));
              len = unat (Uint16 (go_slice src (offset + 2) (offset + 4))) in
          if len > remaining - TLVHeaderSize
          then (Some (fatal FatalInvalidTLVLength ''TLV value length exceeds remaining PDU body''), s)
          else
            let v = go_slice src (offset + TLVHeaderSize) (offset + TLVHeaderSize + len);
                (continue, s') = (case visit of None \<Rightarrow> (True, s)
                                  | Some f \<Rightarrow> f \<lparr>Tag = tag, Value = v\<rparr> s) in
            if \<not> continue then (None, s')
            else scanTLVsFrom src (offset + (TLVHeaderSize + len)) visit s'
      else (None, s))"
  by pat_completeness auto
termination
  by (relation "measure (\<lambda>(src, offset, _). length src - offset)") auto

definition ScanTLVs :: "bytes \<Rightarrow> (TLV \<Rightarrow> 's \<Rightarrow> bool \<times> 's) option \<Rightarrow> 's \<Rightarrow> goerr option \<times> 's" where
  "ScanTLVs src visit s = scanTLVsFrom src 0 visit s"

definition ParseTLVs :: "bytes \<Rightarrow> goerr + TLV list" where
  "ParseTLVs src =
     (case ScanTLVs src (Some (\<lambda>tlv out. (True, out @ [tlv]))) [] of
        (Some err, _) \<Rightarrow> Inl err
      | (None, out) \<Rightarrow> Inr out)"

definition AppendTLV :: "bytes \<Rightarrow> u16 \<Rightarrow> bytes \<Rightarrow> goerr + bytes" where
  "AppendTLV dst tag v =
     (if length v > 65535 then Inl ErrTLVValueTooLong
      else Inr (dst @ (be16 tag @ be16 (of_nat (length v))) @ v))"

declare scanTLVsFrom.simps [simp del]

section \<open>When a field access succeeds\<close>

text \<open>The C-Octet strings a field of \<open>m\<close> octets (no bound when not positive) can hold.\<close>

definition cstr :: "int \<Rightarrow> bytes \<Rightarrow> bool" where
  "cstr m a \<longleftrightarrow> 0 \<notin> set a \<and> (0 < m \<longrightarrow> int (length a) < m)"

lemma IndexByte_None [simp]: "IndexByte bs c = None \<longleftrightarrow> c \<notin> set bs"
  by (induction bs) auto

lemma IndexByte_Some:
  "IndexByte bs c = Some i \<longleftrightarrow> i < length bs \<and> bs ! i = c \<and> c \<notin> set (take i bs)"
proof (induction bs arbitrary: i)
  case (Cons b bs)
  then show ?case by (cases i) auto
qed simp

lemma ReadUint8_Inr [wire_simps]: "ReadUint8 src = Inr (b, n) \<longleftrightarrow> (\<exists>ys. src = b # ys) \<and> n = 1"
  by (cases src) (auto simp: ReadUint8_def)

lemma take_append_drop_eq: "\<lbrakk>n \<le> length xs; take n xs = ys\<rbrakk> \<Longrightarrow> xs = ys @ drop n xs"
  by auto

lemma Uint16_take: "2 \<le> length xs \<Longrightarrow> be16 (Uint16 (take 2 xs)) = take 2 xs"
  by (cases xs; cases "tl xs") (auto simp: numeral_2_eq_2)

lemma Uint32_take: "4 \<le> length xs \<Longrightarrow> be32 (Uint32 (take 4 xs)) = take 4 xs"
  by (cases xs; cases "tl xs"; cases "tl (tl xs)"; cases "tl (tl (tl xs))") (auto simp: eval_nat_numeral)

lemma Uint16_be16' [simp]: "Uint16 (be16 v) = v"
  using Uint16_be16 [of v "[]"] by simp

lemma Uint32_be32' [simp]: "Uint32 (be32 v) = v"
  using Uint32_be32 [of v "[]"] by simp

lemma ReadUint16_Inr [wire_simps]:
  "ReadUint16 src = Inr (v, n) \<longleftrightarrow> (\<exists>ys. src = be16 v @ ys) \<and> n = 2"
proof
  assume "ReadUint16 src = Inr (v, n)"
  then have "2 \<le> length src" "v = Uint16 (take 2 src)" "n = 2"
    by (auto simp: ReadUint16_def split: if_splits)
  then have "take 2 src = be16 v" by (simp add: Uint16_take)
  then show "(\<exists>ys. src = be16 v @ ys) \<and> n = 2"
    using \<open>n = 2\<close> by (metis append_take_drop_id)
qed (auto simp: ReadUint16_def)

lemma ReadUint32_Inr [wire_simps]:
  "ReadUint32 src = Inr (v, n) \<longleftrightarrow> (\<exists>ys. src = be32 v @ ys) \<and> n = 4"
proof
  assume "ReadUint32 src = Inr (v, n)"
  then have "4 \<le> length src" "v = Uint32 (take 4 src)" "n = 4"
    by (auto simp: ReadUint32_def split: if_splits)
  then have "take 4 src = be32 v" by (simp add: Uint32_take)
  then show "(\<exists>ys. src = be32 v @ ys) \<and> n = 4"
    using \<open>n = 4\<close> by (metis append_take_drop_id)
qed (auto simp: ReadUint32_def)

lemma ReadCString_Inr [wire_simps]:
  "ReadCString src m = Inr (a, n) \<longleftrightarrow> (\<exists>ys. src = a @ 0 # ys) \<and> cstr m a \<and> n = length a + 1"
proof -
  define limit where
    "limit = (if m > 0 \<and> m < int (length src) then nat m else length src)"
  have L: "limit \<le> length src" by (auto simp: limit_def)
  have "ReadCString src m = Inr (a, n) \<longleftrightarrow>
      (\<exists>i. IndexByte (take limit src) 0 = Some i \<and> a = take i src \<and> n = i + 1)"
    unfolding ReadCString_def limit_def [symmetric] Let_def
    by (cases "IndexByte (take limit src) 0") (auto simp del: IndexByte_None)
  moreover have "IndexByte (take limit src) 0 = Some i \<longleftrightarrow>
      i < limit \<and> src ! i = 0 \<and> 0 \<notin> set (take i src)" for i
  proof (cases "i < limit")
    case True
    then show ?thesis using L by (simp add: IndexByte_Some min_absorb1)
  qed (use L in \<open>simp add: IndexByte_Some\<close>)
  ultimately have R: "ReadCString src m = Inr (a, n) \<longleftrightarrow>
      (\<exists>i. (i < limit \<and> src ! i = 0 \<and> 0 \<notin> set (take i src)) \<and> a = take i src \<and> n = i + 1)"
    by simp
  show ?thesis
  proof
    assume "ReadCString src m = Inr (a, n)"
    then obtain i where i: "i < limit" "src ! i = 0" "0 \<notin> set (take i src)" "a = take i src" "n = i + 1"
      using R by blast
    then have "src = a @ 0 # drop (Suc i) src" "length a = i"
      using L id_take_nth_drop [of i src] by auto
    then show "(\<exists>ys. src = a @ 0 # ys) \<and> cstr m a \<and> n = length a + 1"
      using i by (auto simp: cstr_def limit_def split: if_splits)
  next
    assume "(\<exists>ys. src = a @ 0 # ys) \<and> cstr m a \<and> n = length a + 1"
    then obtain ys where "src = a @ 0 # ys" "cstr m a" "n = length a + 1" by blast
    then show "ReadCString src m = Inr (a, n)"
      unfolding R by (intro exI [of _ "length a"]) (auto simp: cstr_def limit_def)
  qed
qed

lemma AppendCString_Inr [wire_simps]:
  "AppendCString dst a m = Inr out \<longleftrightarrow> cstr m a \<and> out = dst @ a @ [0]"
  by (auto simp: AppendCString_def cstr_def)

lemma ReadOctets_Inr [wire_simps]:
  "ReadOctets src n = Inr (a, k) \<longleftrightarrow> (\<exists>ys. src = a @ ys) \<and> n = int (length a) \<and> k = length a"
proof
  assume "ReadOctets src n = Inr (a, k)"
  then have "a = take (nat n) src" "k = nat n" "0 \<le> n" "nat n \<le> length src"
    by (auto simp: ReadOctets_def split: if_splits)
  then show "(\<exists>ys. src = a @ ys) \<and> n = int (length a) \<and> k = length a"
    by (metis append_take_drop_id int_nat_eq length_take min.absorb2)
qed (auto simp: ReadOctets_def)

lemma AppendOctets_simp [simp]: "AppendOctets dst v = dst @ v"
  by (simp add: AppendOctets_def)

section \<open>The header on the wire\<close>

definition header_wire :: "Header \<Rightarrow> bytes" where
  "header_wire h = be32 (CommandLength h) @ be32 (h_CommandID h) @ be32 (h_CommandStatus h)
     @ be32 (h_SequenceNumber h)"

lemma length_header_wire [simp]: "length (header_wire h) = 16"
  by (simp add: header_wire_def)

lemma EncodeHeader_Inr [wire_simps]:
  "EncodeHeader dst h = Inr out \<longleftrightarrow>
     16 \<le> length dst \<and> 16 \<le> CommandLength h \<and> out = header_wire h @ drop 16 dst"
  by (auto simp: EncodeHeader_def header_wire_def)

lemma header_wire_slices:
  assumes "src = header_wire h @ rest"
  shows "Uint32 (go_slice src 0 4) = CommandLength h" "Uint32 (go_slice src 4 8) = h_CommandID h"
    "Uint32 (go_slice src 8 12) = h_CommandStatus h" "Uint32 (go_slice src 12 16) = h_SequenceNumber h"
  by (simp_all add: assms header_wire_def go_slice_def)

lemma slices_header_wire:
  assumes "16 \<le> length src"
  shows "header_wire \<lparr>CommandLength = Uint32 (go_slice src 0 4), h_CommandID = Uint32 (go_slice src 4 8),
           h_CommandStatus = Uint32 (go_slice src 8 12), h_SequenceNumber = Uint32 (go_slice src 12 16)\<rparr>
         = take 16 src"
proof -
  have "be32 (Uint32 (go_slice src k (k + 4))) = take 4 (drop k src)" if "k + 4 \<le> length src" for k
    using Uint32_take [of "drop k src"] that by (simp add: go_slice_def)
  from this [of 0] this [of 4] this [of 8] this [of 12]
  have "header_wire \<lparr>CommandLength = Uint32 (go_slice src 0 4), h_CommandID = Uint32 (go_slice src 4 8),
           h_CommandStatus = Uint32 (go_slice src 8 12), h_SequenceNumber = Uint32 (go_slice src 12 16)\<rparr>
        = take 4 src @ take 4 (drop 4 src) @ take 4 (drop 8 src) @ take 4 (drop 12 src)"
    using assms by (simp add: header_wire_def)
  also have "\<dots> = take 16 src"
    using take_add [of 4 4 src] take_add [of 8 4 src] take_add [of 12 4 src] by simp
  finally show ?thesis .
qed

lemma DecodeHeader_Inr [wire_simps]:
  "DecodeHeader src = Inr h \<longleftrightarrow> (\<exists>rest. src = header_wire h @ rest) \<and> 16 \<le> CommandLength h"
proof
  assume *: "DecodeHeader src = Inr h"
  then have "16 \<le> length src" "16 \<le> CommandLength h"
    by (auto simp: DecodeHeader_def Let_def not_less split: if_splits)
  moreover from * have "header_wire h = take 16 src"
    using slices_header_wire [OF \<open>16 \<le> length src\<close>]
    by (auto simp: DecodeHeader_def Let_def split: if_splits)
  ultimately show "(\<exists>rest. src = header_wire h @ rest) \<and> 16 \<le> CommandLength h"
    by (metis append_take_drop_id)
next
  assume "(\<exists>rest. src = header_wire h @ rest) \<and> 16 \<le> CommandLength h"
  then obtain rest where "src = header_wire h @ rest" "16 \<le> CommandLength h" by blast
  then show "DecodeHeader src = Inr h"
    by (simp add: DecodeHeader_def Let_def header_wire_slices not_less del: go_slice_0)
qed

section \<open>The optional-parameter area on the wire\<close>

definition tlv_ok :: "TLV \<Rightarrow> bool" where
  "tlv_ok t \<longleftrightarrow> length (Value t) \<le> 65535"

definition tlv_wire :: "TLV \<Rightarrow> bytes" where
  "tlv_wire t = be16 (Tag t) @ be16 (of_nat (length (Value t))) @ Value t"

definition tlvs_wire :: "TLV list \<Rightarrow> bytes" where
  "tlvs_wire ts = concat (map tlv_wire ts)"

lemma tlvs_wire_simps [simp]:
  "tlvs_wire [] = []"
  "tlvs_wire (t # ts) = tlv_wire t @ tlvs_wire ts"
  "tlvs_wire (ts @ us) = tlvs_wire ts @ tlvs_wire us"
  by (simp_all add: tlvs_wire_def)

lemma length_tlv_wire: "length (tlv_wire t) = 4 + length (Value t)"
  by (simp add: tlv_wire_def)

lemma tlv_wire_not_Nil [simp]: "tlv_wire t \<noteq> []"
  using length_tlv_wire [of t] by auto

lemma tlvs_wire_Nil [simp]: "tlvs_wire ts = [] \<longleftrightarrow> ts = []" "[] = tlvs_wire ts \<longleftrightarrow> ts = []"
  by (cases ts; simp)+

lemma AppendTLV_Inr [wire_simps]:
  "AppendTLV dst tag v = Inr out \<longleftrightarrow>
     tlv_ok \<lparr>Tag = tag, Value = v\<rparr> \<and> out = dst @ tlv_wire \<lparr>Tag = tag, Value = v\<rparr>"
  by (auto simp: AppendTLV_def tlv_ok_def tlv_wire_def)

lemma unat_of_nat_u16: "n \<le> 65535 \<Longrightarrow> unat (of_nat n :: u16) = n"
  by (simp add: unat_of_nat take_bit_nat_eq_self)

lemma tlv_head_split:
  assumes "r = tlv_wire t @ r'" "tlv_ok t"
  shows "Uint16 (take 2 r) = Tag t" "unat (Uint16 (go_slice r 2 4)) = length (Value t)"
    "go_slice r 4 (4 + length (Value t)) = Value t" "drop (4 + length (Value t)) r = r'"
  using assms by (simp_all add: tlv_wire_def go_slice_def tlv_ok_def unat_of_nat_u16)

lemma tlv_head_join:
  assumes "4 \<le> length r" "len = unat (Uint16 (go_slice r 2 4))" "4 + len \<le> length r"
    and "t = \<lparr>Tag = Uint16 (take 2 r), Value = go_slice r 4 (4 + len)\<rparr>"
  shows "r = tlv_wire t @ drop (4 + len) r" "tlv_ok t"
proof -
  have len: "length (Value t) = len" using assms by simp
  have B: "unat (Uint16 (go_slice r 2 4)) < 2 ^ 16"
    using unsigned_less [of "Uint16 (go_slice r 2 4)", where ?'a = nat] by simp
  then show "tlv_ok t" using assms(2) len by (simp add: tlv_ok_def)
  have "be16 (of_nat len) = take 2 (drop 2 r)"
    using Uint16_take [of "drop 2 r"] assms(1,2) by (simp add: go_slice_def)
  then have "tlv_wire t = take 2 r @ take 2 (drop 2 r) @ take len (drop 4 r)"
    using assms len by (simp add: tlv_wire_def Uint16_take go_slice_def)
  also have "\<dots> = take (4 + len) r"
    using take_add [of 2 2 r] take_add [of 4 len r] by simp
  finally show "r = tlv_wire t @ drop (4 + len) r" by simp
qed

text \<open>One turn of the scanning loop, seen on the octets that remain.\<close>

lemma scanTLVsFrom_step:
  "scanTLVsFrom src offset visit s =
     (let r = drop offset src in
      if r = [] then (None, s)
      else if length r < 4 then (Some (fatal FatalInvalidTLVLength ''truncated TLV header''), s)
      else let len = unat (Uint16 (go_slice r 2 4)) in
        if length r < 4 + len
        then (Some (fatal FatalInvalidTLVLength ''TLV value length exceeds remaining PDU body''), s)
        else let (continue, s') = (case visit of None \<Rightarrow> (True, s)
               | Some f \<Rightarrow> f \<lparr>Tag = Uint16 (take 2 r), Value = go_slice r 4 (4 + len)\<rparr> s) in
          if \<not> continue then (None, s') else scanTLVsFrom src (offset + (4 + len)) visit s')"
  by (subst scanTLVsFrom.simps)
    (cases visit; auto simp: Let_def go_slice_def add.commute not_less)

lemma scanTLVsFrom_all:
  "scanTLVsFrom src offset (Some (\<lambda>tlv out. (True, out @ [g tlv]))) acc = (None, out) \<longleftrightarrow>
     (\<exists>ts. out = acc @ map g ts \<and> list_all tlv_ok ts \<and> drop offset src = tlvs_wire ts)"
proof (induction "length src - offset" arbitrary: offset acc rule: less_induct)
  case less
  define r where "r = drop offset src"
  define len where "len = unat (Uint16 (go_slice r 2 4))"
  define t where "t = \<lparr>Tag = Uint16 (take 2 r), Value = go_slice r 4 (4 + len)\<rparr>"
  have head: "ts = t # tl ts \<and> 4 + len \<le> length r \<and> drop (4 + len) r = tlvs_wire (tl ts)"
    if ok: "list_all tlv_ok ts" "r = tlvs_wire ts" "r \<noteq> []" for ts
  proof -
    obtain u us where ts: "ts = u # us" using ok by (cases ts) auto
    have "r = tlv_wire u @ tlvs_wire us" "tlv_ok u" using ok ts by auto
    note tlv_head_split [OF this]
    then have "len = length (Value u)" "t = u" "drop (4 + len) r = tlvs_wire us"
      by (simp_all add: len_def t_def)
    then show ?thesis using ts ok(2) by (simp add: length_tlv_wire)
  qed
  consider "r = []" | "r \<noteq> []" "length r < 4 \<or> length r < 4 + len" | "r \<noteq> []" "4 + len \<le> length r"
    by linarith
  then show ?case
  proof cases
    case 1
    then show ?thesis
      by (subst scanTLVsFrom_step) (auto simp: Let_def r_def [symmetric])
  next
    case 2
    then have "\<not> (list_all tlv_ok ts \<and> r = tlvs_wire ts)" for ts
      using head [of ts] by auto
    then show ?thesis using 2
      by (subst scanTLVsFrom_step) (auto simp: Let_def r_def [symmetric] len_def [symmetric])
  next
    case 3
    have lt: "length src - (offset + (4 + len)) < length src - offset"
      using 3 by (simp add: r_def)
    have D: "drop (offset + (4 + len)) src = drop (4 + len) r"
      by (simp add: r_def add.commute)
    have J: "r = tlv_wire t @ drop (4 + len) r" "tlv_ok t"
      using tlv_head_join [OF _ len_def 3(2) t_def] 3(2) by simp_all
    have "?thesis \<longleftrightarrow>
        ((\<exists>ts. out = (acc @ [g t]) @ map g ts \<and> list_all tlv_ok ts \<and> drop (4 + len) r = tlvs_wire ts) \<longleftrightarrow>
         (\<exists>ts. out = acc @ map g ts \<and> list_all tlv_ok ts \<and> r = tlvs_wire ts))"
      using 3 less(1) [OF lt, of "acc @ [g t]"] unfolding D
      by (subst scanTLVsFrom_step) (simp add: Let_def r_def [symmetric] len_def [symmetric] t_def [symmetric])
    moreover have "(\<exists>ts. out = (acc @ [g t]) @ map g ts \<and> list_all tlv_ok ts \<and> drop (4 + len) r = tlvs_wire ts) \<longleftrightarrow>
         (\<exists>ts. out = acc @ map g ts \<and> list_all tlv_ok ts \<and> r = tlvs_wire ts)" (is "?L \<longleftrightarrow> ?R")
    proof
      assume ?L
      then obtain ts where "out = (acc @ [g t]) @ map g ts" "list_all tlv_ok ts" "drop (4 + len) r = tlvs_wire ts"
        by blast
      then show ?R using J by (intro exI [of _ "t # ts"]) simp
    next
      assume ?R
      then obtain ts where ts: "out = acc @ map g ts" "list_all tlv_ok ts" "r = tlvs_wire ts" by blast
      from head [OF ts(2,3) 3(1)] obtain us where "ts = t # us" "drop (4 + len) r = tlvs_wire us"
        by (metis list.sel(3))
      then show ?L using ts by (intro exI [of _ us]) simp
    qed
    ultimately show ?thesis by blast
  qed
qed

lemma ParseTLVs_Inr [wire_simps]:
  "ParseTLVs src = Inr ts \<longleftrightarrow> list_all tlv_ok ts \<and> src = tlvs_wire ts"
  using scanTLVsFrom_all [of src 0 id "[]" ts]
  by (auto simp: ParseTLVs_def ScanTLVs_def split: prod.splits option.splits)

end
