(* ===== verification/Framer.thy ===== *)
theory Framer
  imports Wire
begin

text \<open>
  The stream framer (\<^verbatim>\<open>codec/framer.go\<close>): it cuts a TCP byte stream, delivered in
  arbitrary pieces, into PDU frames. The consumer of the frames is a callback over a state
  \<open>'s\<close> of its own which may return an error. A nil framer behaves as the zero value, whose
  maximum is 0. The capacity of the reassembly buffer (pre-sizing and shrinking) is not part
  of the model: only its contents are.

  The reference is \<open>splitStream\<close>, which cuts a complete stream; \<open>feedLoop_spec\<close> shows that
  feeding refines it whatever the pieces were.
\<close>

section \<open>The framer\<close>

definition DefaultMaxPDUSize :: u32 where
  "DefaultMaxPDUSize = push_bit 20 1"

record FramerState =
  maxPDUSize :: u32
  pending    :: bytes
  expected   :: u32
  failed     :: "goerr option"

definition NewFramer :: "u32 \<Rightarrow> goerr + FramerState" where
  "NewFramer maxSize =
     (let m = (if maxSize = 0 then DefaultMaxPDUSize else maxSize) in
      if m < of_nat HeaderSize then Inl ErrInvalidMaxPDUSize
      else Inr \<lparr>maxPDUSize = m, pending = [], expected = 0, failed = None\<rparr>)"

definition initialized :: "FramerState \<Rightarrow> bool" where
  "initialized f = (maxPDUSize f \<noteq> 0)"

definition Buffered :: "FramerState \<Rightarrow> nat" where
  "Buffered f = length (pending f)"

definition Failed :: "FramerState \<Rightarrow> bool" where
  "Failed f = (\<not> initialized f \<or> failed f \<noteq> None)"

definition failFramer ::
    "FramerState \<Rightarrow> FatalErrorKind \<Rightarrow> u32 \<Rightarrow> bytes \<Rightarrow> string \<Rightarrow> goerr \<times> FramerState" where
  "failFramer f kind declared prefix reason =
     (let err = FatalError kind declared
                  (if length prefix \<ge> 8 then Uint32 (go_slice prefix 4 8) else 0)
                  (if length prefix \<ge> HeaderSize then Uint32 (go_slice prefix 12 16) else 0)
                  reason None in
      (err, f\<lparr>failed := Some err, pending := [], expected := 0\<rparr>))"

definition validateLength :: "FramerState \<Rightarrow> u32 \<Rightarrow> bytes \<Rightarrow> goerr option \<times> FramerState" where
  "validateLength f len prefix =
     (if len < of_nat HeaderSize
      then map_prod Some id (failFramer f FatalInvalidCommandLength len prefix
             ''command_length is smaller than the 16-octet SMPP header'')
      else if len > maxPDUSize f
      then map_prod Some id (failFramer f FatalPDUTooLarge len prefix
             ''command_length exceeds configured maximum PDU size'')
      else (None, f))"

definition emitFrame ::
    "FramerState \<Rightarrow> bytes \<Rightarrow> (bytes \<Rightarrow> 's \<Rightarrow> goerr option \<times> 's) option \<Rightarrow> 's
       \<Rightarrow> goerr option \<times> FramerState \<times> 's" where
  "emitFrame f frame emit s =
     (case emit of
        None \<Rightarrow> (None, f, s)
      | Some g \<Rightarrow>
          (case g frame s of
             (None, s') \<Rightarrow> (None, f, s')
           | (Some err, s') \<Rightarrow>
               if asFatal err \<noteq> None
               then (Some err, f\<lparr>failed := Some err, pending := [], expected := 0\<rparr>, s')
               else (Some err, f, s')))"

text \<open>
  Lines 80-101 of \<^verbatim>\<open>Feed\<close>: complete the 4-octet length of a buffered PDU. On the left
  the loop returns; on the right it goes on with the framer and the remaining data.
\<close>

definition completeLength ::
    "FramerState \<Rightarrow> bytes \<Rightarrow> (goerr option \<times> FramerState) + (FramerState \<times> bytes)" where
  "completeLength f data =
     (if expected f = 0 then
        let need = min (4 - length (pending f)) (length data);
            f1 = f\<lparr>pending := pending f @ take need data\<rparr>;
            data1 = drop need data in
        if length (pending f1) < 4 then Inl (None, f1)
        else let len = Uint32 (take 4 (pending f1)) in
          case validateLength f1 len (pending f1) of
            (Some err, f2) \<Rightarrow> Inl (Some err, f2)
          | (None, f2) \<Rightarrow> Inr (f2\<lparr>expected := len\<rparr>, data1)
      else Inr (f, data))"

text \<open>Lines 103-111: append what the buffered PDU still misses; a negative need is a need of 0.\<close>

definition fillPending :: "FramerState \<Rightarrow> bytes \<Rightarrow> FramerState \<times> bytes" where
  "fillPending f data =
     (let need = unat (expected f) - length (pending f) in
      if need > 0
      then let n = min need (length data) in
           (f\<lparr>pending := pending f @ take n data\<rparr>, drop n data)
      else (f, data))"

lemma validateLength_None:
  "validateLength f len prefix = (None, f') \<longleftrightarrow> 16 \<le> len \<and> len \<le> maxPDUSize f \<and> f' = f"
  by (auto simp: validateLength_def failFramer_def Let_def not_less)

lemma emitFrame_None: "emitFrame f frame emit s = (None, f', s') \<Longrightarrow> f' = f"
  by (auto simp: emitFrame_def split: option.splits prod.splits if_splits)

lemma completeLength_data: "completeLength f data = Inr (f', data') \<Longrightarrow> length data' \<le> length data"
  by (auto simp: completeLength_def Let_def split: if_splits prod.splits option.splits)

lemma fillPending_data: "fillPending f data = (f', data') \<Longrightarrow> length data' \<le> length data"
  by (auto simp: fillPending_def Let_def split: if_splits)

function feedLoop ::
    "FramerState \<Rightarrow> bytes \<Rightarrow> (bytes \<Rightarrow> 's \<Rightarrow> goerr option \<times> 's) option \<Rightarrow> 's
       \<Rightarrow> goerr option \<times> FramerState \<times> 's" where
  "feedLoop f data emit s =
     (if data = [] then (None, f, s)
      else if pending f \<noteq> [] then
        (case completeLength f data of
           Inl (err, f1) \<Rightarrow> (err, f1, s)
         | Inr (f1, data1) \<Rightarrow>
            (case fillPending f1 data1 of (f2, data2) \<Rightarrow>
               if length (pending f2) < unat (expected f2) then (None, f2, s)
               else
                 (case emitFrame f2 (take (unat (expected f2)) (pending f2)) emit s of
                    (Some err, f3, s') \<Rightarrow> (Some err, f3, s')
                  | (None, f3, s') \<Rightarrow> feedLoop (f3\<lparr>pending := [], expected := 0\<rparr>) data2 emit s')))
      else if length data < 4 then (None, f\<lparr>pending := data\<rparr>, s)
      else
        (let len = Uint32 (take 4 data) in
         case validateLength f len data of
           (Some err, f1) \<Rightarrow> (Some err, f1, s)
         | (None, f1) \<Rightarrow>
             if length data < unat len then (None, f1\<lparr>expected := len, pending := data\<rparr>, s)
             else
               (case emitFrame f1 (take (unat len) data) emit s of
                  (Some err, f2, s') \<Rightarrow> (Some err, f2, s')
                | (None, f2, s') \<Rightarrow> feedLoop f2 (drop (unat len) data) emit s')))"
  by pat_completeness auto
termination
proof (relation "measure (\<lambda>(f, data, _). 2 * length data + (if pending f = [] then 0 else 1))", goal_cases)
  case 3
  then show ?case
    by (auto simp: validateLength_None word_le_nat_alt dest!: emitFrame_None
        dest!: sym [of "(None, _)" "validateLength _ _ _"] sym [of "(None, _)" "emitFrame _ _ _ _"])
qed (auto dest!: completeLength_data fillPending_data sym [of "(_, _)" "fillPending _ _"] simp: less_Suc_eq_le)

declare feedLoop.simps [simp del]

definition Feed ::
    "FramerState \<Rightarrow> bytes \<Rightarrow> (bytes \<Rightarrow> 's \<Rightarrow> goerr option \<times> 's) option \<Rightarrow> 's
       \<Rightarrow> goerr option \<times> FramerState \<times> 's" where
  "Feed f data emit s =
     (if \<not> initialized f then (Some ErrNotInitialized, f, s)
      else if failed f \<noteq> None then (failed f, f, s)
      else feedLoop f data emit s)"

definition Finalize :: "FramerState \<Rightarrow> goerr option \<times> FramerState" where
  "Finalize f =
     (if \<not> initialized f then (Some ErrNotInitialized, f)
      else if failed f \<noteq> None then (failed f, f)
      else if length (pending f) = 0 then (None, f)
      else let declared = (if length (pending f) \<ge> 4 then Uint32 (take 4 (pending f)) else 0) in
        map_prod Some id (failFramer f FatalTruncatedFrame declared (pending f)
          ''TCP stream ended with a partial SMPP PDU''))"

section \<open>The reference\<close>

text \<open>Whether a declared length is refused, and the error that says so.\<close>

definition lengthError :: "u32 \<Rightarrow> u32 \<Rightarrow> CommandID \<Rightarrow> SequenceNumber \<Rightarrow> goerr option" where
  "lengthError m len c q =
     (if len < 16 then Some (FatalError FatalInvalidCommandLength len c q
        ''command_length is smaller than the 16-octet SMPP header'' None)
      else if len > m then Some (FatalError FatalPDUTooLarge len c q
        ''command_length exceeds configured maximum PDU size'' None)
      else None)"

text \<open>
  Cutting a whole stream: the complete frames, then either the refused length the cutting
  stopped at or the incomplete rest.
\<close>

function splitStream :: "u32 \<Rightarrow> bytes \<Rightarrow> bytes list \<times> (u32 + bytes)" where
  "splitStream m bs =
     (if length bs < 4 then ([], Inr bs)
      else let len = Uint32 (take 4 bs) in
        if len < 16 \<or> len > m then ([], Inl len)
        else if length bs < unat len then ([], Inr bs)
        else apfst (Cons (take (unat len) bs)) (splitStream m (drop (unat len) bs)))"
  by pat_completeness auto
termination
  by (relation "measure (\<lambda>(m, bs). length bs)") (auto simp: word_less_nat_alt)

declare splitStream.simps [simp del]

text \<open>Passing frames to the consumer, up to its first error.\<close>

fun runEmit :: "(bytes \<Rightarrow> 's \<Rightarrow> goerr option \<times> 's) option \<Rightarrow> bytes list \<Rightarrow> 's \<Rightarrow> goerr option \<times> 's" where
  "runEmit emit [] s = (None, s)"
| "runEmit emit (fr # frs) s =
     (case (case emit of None \<Rightarrow> (None, s) | Some g \<Rightarrow> g fr s) of
        (Some e, s') \<Rightarrow> (Some e, s')
      | (None, s') \<Rightarrow> runEmit emit frs s')"

section \<open>The invariant\<close>

text \<open>
  An incomplete PDU is buffered: fewer than 4 octets and no expectation yet, or an accepted
  declared length that the buffer has not reached. A failed framer buffers nothing.
\<close>

definition partial_ok :: "u32 \<Rightarrow> u32 \<Rightarrow> bytes \<Rightarrow> bool" where
  "partial_ok m e p \<longleftrightarrow>
     (if length p < 4 then e = 0
      else e = Uint32 (take 4 p) \<and> 16 \<le> e \<and> e \<le> m \<and> length p < unat e)"

definition framer_inv :: "FramerState \<Rightarrow> bool" where
  "framer_inv f \<longleftrightarrow> 16 \<le> maxPDUSize f \<and> partial_ok (maxPDUSize f) (expected f) (pending f)
     \<and> (failed f \<noteq> None \<longrightarrow> pending f = [])"

lemma NewFramer_inv: "NewFramer m = Inr f \<Longrightarrow> framer_inv f \<and> failed f = None \<and> pending f = []"
  by (auto simp: NewFramer_def framer_inv_def partial_ok_def Let_def DefaultMaxPDUSize_def not_less
      split: if_splits)

lemma framer_inv_initialized: "framer_inv f \<Longrightarrow> initialized f"
  by (auto simp: framer_inv_def initialized_def)

definition declaredOf :: "bytes \<Rightarrow> u32" where
  "declaredOf p = (if length p < 4 then 0 else Uint32 (take 4 p))"

definition frame_ok :: "u32 \<Rightarrow> bytes \<Rightarrow> bool" where
  "frame_ok m fr \<longleftrightarrow> 16 \<le> length fr \<and> length fr \<le> unat m \<and> unat (Uint32 (take 4 fr)) = length fr"

definition refused :: "u32 \<Rightarrow> bytes \<Rightarrow> bool" where
  "refused m bs \<longleftrightarrow> 4 \<le> length bs \<and> (Uint32 (take 4 bs) < 16 \<or> Uint32 (take 4 bs) > m)"

lemma stream_cases:
  obtains (partial) "partial_ok m (declaredOf bs) bs"
  | (refused) "refused m bs"
  | (frame) fr rest where "bs = fr @ rest" "frame_ok m fr"
proof (cases "length bs < 4 \<or> refused m bs \<or> length bs < unat (Uint32 (take 4 bs))")
  case True
  then have "partial_ok m (declaredOf bs) bs \<or> refused m bs"
    by (auto simp: partial_ok_def declaredOf_def refused_def)
  then show ?thesis using partial refused by blast
next
  case False
  let ?n = "unat (Uint32 (take 4 bs))"
  have "16 \<le> ?n" "?n \<le> unat m" "?n \<le> length bs"
    using False by (auto simp: refused_def not_less word_le_nat_alt)
  then show ?thesis
    by (intro frame [of "take ?n bs" "drop ?n bs"]) (auto simp: frame_ok_def min_def)
qed

lemma stream_induct [case_names partial refused frame]:
  assumes "\<And>bs. partial_ok m (declaredOf bs) bs \<Longrightarrow> P bs"
    and "\<And>bs. refused m bs \<Longrightarrow> P bs"
    and "\<And>fr bs. \<lbrakk>frame_ok m fr; P bs\<rbrakk> \<Longrightarrow> P (fr @ bs)"
  shows "P bs"
proof (induction "length bs" arbitrary: bs rule: less_induct)
  case less
  show ?case
  proof (cases m bs rule: stream_cases)
    case (frame fr rest)
    then have "length rest < length bs" by (auto simp: frame_ok_def)
    then show ?thesis using assms(3) frame less by blast
  qed (use assms in blast)+
qed

lemma splitStream_partial: "partial_ok m e p \<Longrightarrow> splitStream m p = ([], Inr p)"
  by (subst splitStream.simps) (auto simp: partial_ok_def Let_def not_less split: if_splits)

lemma splitStream_refused: "refused m bs \<Longrightarrow> splitStream m bs = ([], Inl (Uint32 (take 4 bs)))"
  by (subst splitStream.simps) (auto simp: refused_def Let_def)

lemma splitStream_frame: "frame_ok m fr \<Longrightarrow> splitStream m (fr @ bs) = apfst (Cons fr) (splitStream m bs)"
  by (subst splitStream.simps) (auto simp: frame_ok_def Let_def word_le_nat_alt word_less_nat_alt)

lemmas splitStream_rules = splitStream_partial splitStream_refused splitStream_frame

lemma splitStream_concat:
  "case splitStream m bs of (frs, tail) \<Rightarrow> list_all (frame_ok m) frs \<and>
     (case tail of Inr rest \<Rightarrow> bs = concat frs @ rest \<and> partial_ok m (declaredOf rest) rest
      | Inl len \<Rightarrow> \<exists>rest. bs = concat frs @ rest \<and> refused m rest \<and> len = Uint32 (take 4 rest))"
proof (induction bs rule: stream_induct [of m])
  case (frame fr bs)
  then show ?case
    by (cases "splitStream m bs") (auto simp: splitStream_frame split: sum.splits)
qed (auto simp: splitStream_partial splitStream_refused)

text \<open>Cutting a stream in two steps: the incomplete rest of the first joins the second.\<close>

lemma splitStream_append:
  "splitStream m xs = (frs, Inr rest) \<Longrightarrow> splitStream m (xs @ ys) = apfst ((@) frs) (splitStream m (rest @ ys))"
proof (induction xs arbitrary: frs rule: stream_induct [of m])
  case (frame fr bs)
  then show ?case
    by (cases "splitStream m bs"; cases "splitStream m (rest @ ys)") (auto simp: splitStream_frame)
qed (auto simp: splitStream_partial splitStream_refused apfst_def map_prod_def split: prod.splits)

lemma splitStream_refused_append:
  "splitStream m xs = (frs, Inl len) \<Longrightarrow> splitStream m (xs @ ys) = (frs, Inl len)"
proof (induction xs arbitrary: frs rule: stream_induct [of m])
  case (refused bs)
  then have "refused m (bs @ ys)" "take 4 (bs @ ys) = take 4 bs" by (auto simp: refused_def)
  then show ?case using refused by (auto simp: splitStream_refused)
next
  case (frame fr bs)
  then show ?case by (cases "splitStream m bs") (auto simp: splitStream_frame)
qed (auto simp: splitStream_partial)

section \<open>Feeding refines the reference\<close>

text \<open>
  What a call of the loop must have done with the stream \<open>bs\<close> (buffered octets and new
  data): the consumer saw the frames in order; its first error ends the call, and poisons the
  framer when it is structural; otherwise the incomplete rest is buffered, or the refused
  length poisons the framer.
\<close>

definition feed_post ::
    "FramerState \<Rightarrow> bytes \<Rightarrow> (bytes \<Rightarrow> 's \<Rightarrow> goerr option \<times> 's) option \<Rightarrow> 's
       \<Rightarrow> goerr option \<times> FramerState \<times> 's \<Rightarrow> bool" where
  "feed_post f bs emit s res \<longleftrightarrow>
     (case splitStream (maxPDUSize f) bs of (frs, tail) \<Rightarrow>
      case res of (err, f', s') \<Rightarrow>
      case runEmit emit frs s of
        (Some e, s1) \<Rightarrow> err = Some e \<and> s' = s1 \<and>
          (asFatal e \<noteq> None \<longrightarrow> f' = f\<lparr>failed := Some e, pending := [], expected := 0\<rparr>)
      | (None, s1) \<Rightarrow> s' = s1 \<and>
          (case tail of
             Inr rest \<Rightarrow> err = None \<and> f' = f\<lparr>pending := rest, expected := declaredOf rest\<rparr>
           | Inl len \<Rightarrow> (\<exists>c q. err = lengthError (maxPDUSize f) len c q) \<and>
               f' = f\<lparr>failed := err, pending := [], expected := 0\<rparr>))"

lemma validateLength_eq:
  "\<exists>c q. validateLength f len prefix =
     (case lengthError (maxPDUSize f) len c q of None \<Rightarrow> (None, f)
      | Some e \<Rightarrow> (Some e, f\<lparr>failed := Some e, pending := [], expected := 0\<rparr>))"
  unfolding validateLength_def failFramer_def lengthError_def Let_def
  by (simp add: map_prod_def)

lemma validateLength_refused:
  assumes "refused (maxPDUSize f) bs"
  obtains c q e where "Some e = lengthError (maxPDUSize f) (Uint32 (take 4 bs)) c q"
    "validateLength f (Uint32 (take 4 bs)) prefix = (Some e, f\<lparr>failed := Some e, pending := [], expected := 0\<rparr>)"
proof -
  obtain c q where *: "validateLength f (Uint32 (take 4 bs)) prefix =
     (case lengthError (maxPDUSize f) (Uint32 (take 4 bs)) c q of None \<Rightarrow> (None, f)
      | Some e \<Rightarrow> (Some e, f\<lparr>failed := Some e, pending := [], expected := 0\<rparr>))"
    using validateLength_eq by blast
  moreover have "lengthError (maxPDUSize f) (Uint32 (take 4 bs)) c q \<noteq> None"
    using assms by (auto simp: refused_def lengthError_def)
  ultimately show ?thesis using that [of _ c q] by auto
qed

lemma validateLength_accepted:
  "frame_ok (maxPDUSize f) fr \<Longrightarrow> validateLength f (Uint32 (take 4 (fr @ bs))) prefix = (None, f)"
  by (auto simp: validateLength_None frame_ok_def word_le_nat_alt)

lemma feedLoop_empty:
  assumes "pending f = []" "expected f = 0"
  shows "feed_post f data emit s (feedLoop f data emit s)"
  using assms
proof (induction data arbitrary: s rule: stream_induct [of "maxPDUSize f"])
  case (partial data)
  then show ?case
    by (subst feedLoop.simps)
      (auto simp: feed_post_def splitStream_partial partial_ok_def declaredOf_def Let_def
        validateLength_None validateLength_def not_less split: if_splits)
next
  case (refused data)
  obtain c q e where *: "Some e = lengthError (maxPDUSize f) (Uint32 (take 4 data)) c q"
    "validateLength f (Uint32 (take 4 data)) data = (Some e, f\<lparr>failed := Some e, pending := [], expected := 0\<rparr>)"
    using validateLength_refused [OF refused(1)] by metis
  have "feedLoop f data emit s = (Some e, f\<lparr>failed := Some e, pending := [], expected := 0\<rparr>, s)"
    using refused *(2) by (subst feedLoop.simps) (auto simp: refused_def Let_def)
  then show ?case
    using *(1) by (auto simp: feed_post_def splitStream_refused [OF refused(1)])
next
  case (frame fr data)
  have len: "unat (Uint32 (take 4 (fr @ data))) = length fr" "16 \<le> length fr"
    using frame(1) by (auto simp: frame_ok_def)
  have step: "feedLoop f (fr @ data) emit s =
      (case emitFrame f fr emit s of
         (Some err, f2, s') \<Rightarrow> (Some err, f2, s')
       | (None, f2, s') \<Rightarrow> feedLoop f2 data emit s')"
  proof -
    have ne: "fr @ data \<noteq> []" "\<not> length (fr @ data) < 4" "\<not> length (fr @ data) < length fr"
      and cut: "take (length fr) (fr @ data) = fr" "drop (length fr) (fr @ data) = data"
      using len(2) by auto
    show ?thesis
      by (subst feedLoop.simps, unfold Let_def len(1) cut validateLength_accepted [OF frame(1)])
        (simp only: ne frame(3) not_False_eq_True if_True if_False prod.case option.case simp_thms)
  qed
  obtain r s1 where g: "(case emit of None \<Rightarrow> (None, s) | Some g \<Rightarrow> g fr s) = (r, s1)"
    by (metis surj_pair)
  show ?case
  proof (cases r)
    case None
    then have "feedLoop f (fr @ data) emit s = feedLoop f data emit s1"
      using g unfolding step by (auto simp: emitFrame_def split: option.splits)
    then show ?thesis
      using frame(2) [OF frame(3,4), of s1] None g
      by (cases "splitStream (maxPDUSize f) data")
        (simp add: feed_post_def splitStream_frame [OF frame(1)])
  next
    case (Some e)
    then show ?thesis
      using g unfolding step
      by (cases "splitStream (maxPDUSize f) data")
        (auto simp: feed_post_def splitStream_frame [OF frame(1)] emitFrame_def split: option.splits)
  qed
qed

text \<open>The two lemmas on a buffered PDU: its length field, then its remaining octets.\<close>

lemma completeLength_partial:
  assumes "partial_ok (maxPDUSize f) (expected f) (pending f)" "pending f \<noteq> []"
    and "bs = pending f @ data" "\<not> refused (maxPDUSize f) bs"
  shows "if length bs < 4 then completeLength f data = Inl (None, f\<lparr>pending := bs\<rparr>)
         else \<exists>p d. completeLength f data = Inr (f\<lparr>pending := p, expected := Uint32 (take 4 bs)\<rparr>, d)
                \<and> p @ d = bs \<and> length p < unat (Uint32 (take 4 bs))"
proof (cases "length (pending f) < 4")
  case True
  then have e: "expected f = 0" using assms(1) by (simp add: partial_ok_def)
  let ?k = "4 - length (pending f)"
  show ?thesis
  proof (cases "length bs < 4")
    case True
    then show ?thesis using e assms(3) by (simp add: completeLength_def Let_def)
  next
    case False
    then have k: "min ?k (length data) = ?k" "pending f @ take ?k data = take 4 bs"
      "length (take 4 bs) = 4"
      using \<open>length (pending f) < 4\<close> assms(3) by auto
    have "16 \<le> Uint32 (take 4 bs)" "Uint32 (take 4 bs) \<le> maxPDUSize f"
      using assms(4) False by (auto simp: refused_def not_less)
    then have "completeLength f data =
        Inr (f\<lparr>pending := take 4 bs, expected := Uint32 (take 4 bs)\<rparr>, drop ?k data)"
      unfolding completeLength_def Let_def k(1)
      using e False by (simp add: k(2) validateLength_None [THEN iffD2])
    moreover have "take 4 bs @ drop ?k data = bs"
      using k(2) assms(3) by (metis append.assoc append_take_drop_id)
    moreover have "4 < unat (Uint32 (take 4 bs))"
      using \<open>16 \<le> _\<close> by (simp add: word_le_nat_alt)
    ultimately show ?thesis using False by auto
  qed
next
  case False
  then have "expected f = Uint32 (take 4 bs)" "expected f \<noteq> 0" "length (pending f) < unat (expected f)"
    using assms by (auto simp: partial_ok_def)
  then show ?thesis
    using False assms(3) by (auto simp: completeLength_def intro!: exI [of _ "pending f"])
qed

lemma fillPending_append:
  assumes "p @ d = bs" "length p \<le> unat (expected f)" "pending f = p"
  shows "fillPending f d = (f\<lparr>pending := take (unat (expected f)) bs\<rparr>, drop (unat (expected f)) bs)"
  using assms by (auto simp: fillPending_def Let_def min_def)

lemma completeLength_refused:
  assumes "partial_ok (maxPDUSize f) (expected f) (pending f)"
    and "bs = pending f @ data" "refused (maxPDUSize f) bs"
  obtains c q e where "Some e = lengthError (maxPDUSize f) (Uint32 (take 4 bs)) c q"
    "completeLength f data = Inl (Some e, f\<lparr>failed := Some e, pending := [], expected := 0\<rparr>)"
proof -
  have short: "length (pending f) < 4" and e: "expected f = 0"
    using assms by (auto simp: partial_ok_def refused_def split: if_splits)
  let ?k = "4 - length (pending f)" and ?f = "f\<lparr>pending := take 4 bs\<rparr>"
  have k: "min ?k (length data) = ?k" "pending f @ take ?k data = take 4 bs" "length (take 4 bs) = 4"
    using short assms(2,3) by (auto simp: refused_def)
  have "refused (maxPDUSize ?f) bs" using assms(3) by simp
  from validateLength_refused [OF this, of "take 4 bs"]
  obtain c q e where v: "Some e = lengthError (maxPDUSize ?f) (Uint32 (take 4 bs)) c q"
    "validateLength ?f (Uint32 (take 4 bs)) (take 4 bs) = (Some e, ?f\<lparr>failed := Some e, pending := [], expected := 0\<rparr>)"
    by blast
  have "completeLength f data = Inl (Some e, f\<lparr>failed := Some e, pending := [], expected := 0\<rparr>)"
    using e k(3) v(2) unfolding completeLength_def Let_def k(1) by (simp add: k(2))
  then show ?thesis using that [of e c q] v(1) by simp
qed

lemma feed_post_frame:
  assumes "frame_ok (maxPDUSize f) fr"
    and "(case emit of None \<Rightarrow> (None, s) | Some g \<Rightarrow> g fr s) = (None, s1)"
  shows "feed_post f (fr @ bs) emit s res \<longleftrightarrow> feed_post f bs emit s1 res"
  using assms(2)
  by (cases "splitStream (maxPDUSize f) bs") (simp add: feed_post_def splitStream_frame [OF assms(1)])

lemma feed_post_same:
  "\<lbrakk>maxPDUSize g = maxPDUSize f; failed g = failed f\<rbrakk> \<Longrightarrow> feed_post g bs emit s res = feed_post f bs emit s res"
  unfolding feed_post_def
  by (cases f; cases g) (auto split: prod.splits option.splits sum.splits)

theorem feedLoop_spec:
  assumes "partial_ok (maxPDUSize f) (expected f) (pending f)" "failed f = None"
  shows "feed_post f (pending f @ data) emit s (feedLoop f data emit s)"
proof (cases "pending f = [] \<or> data = []")
  case True
  then show ?thesis
  proof (elim disjE)
    assume "pending f = []"
    then show ?thesis using feedLoop_empty [of f data emit s] assms by (simp add: partial_ok_def)
  next
    assume "data = []"
    then have "feedLoop f data emit s = (None, f, s)" by (subst feedLoop.simps) simp
    then show ?thesis
      using assms \<open>data = []\<close>
      by (auto simp: feed_post_def splitStream_partial partial_ok_def declaredOf_def split: if_splits)
  qed
next
  case False
  let ?m = "maxPDUSize f" and ?bs = "pending f @ data"
  show ?thesis
  proof (cases ?m ?bs rule: stream_cases)
    case refused
    obtain c q e where *: "Some e = lengthError ?m (Uint32 (take 4 ?bs)) c q"
      "completeLength f data = Inl (Some e, f\<lparr>failed := Some e, pending := [], expected := 0\<rparr>)"
      using completeLength_refused [OF assms(1) refl refused] by metis
    then have "feedLoop f data emit s = (Some e, f\<lparr>failed := Some e, pending := [], expected := 0\<rparr>, s)"
      using False by (subst feedLoop.simps) simp
    then show ?thesis
      using *(1) by (auto simp: feed_post_def splitStream_refused [OF refused])
  next
    case partial
    then have nr: "\<not> refused ?m ?bs" by (auto simp: partial_ok_def refused_def split: if_splits)
    note C = completeLength_partial [OF assms(1) _ refl nr]
    have "feedLoop f data emit s = (None, f\<lparr>pending := ?bs, expected := declaredOf ?bs\<rparr>, s)"
    proof (cases "length ?bs < 4")
      case True
      then have "completeLength f data = Inl (None, f\<lparr>pending := ?bs\<rparr>)" "expected f = 0"
        using C False assms(1) by (auto simp: partial_ok_def split: if_splits)
      then show ?thesis
        using False True by (subst feedLoop.simps) (auto simp: declaredOf_def)
    next
      case long: False
      then obtain p d where pd: "completeLength f data = Inr (f\<lparr>pending := p, expected := Uint32 (take 4 ?bs)\<rparr>, d)"
          "p @ d = ?bs" "length p < unat (Uint32 (take 4 ?bs))"
        using C False by (auto simp del: take_append)
      have "length ?bs < unat (Uint32 (take 4 ?bs))"
        using partial long by (auto simp: partial_ok_def declaredOf_def simp del: take_append length_append)
      then show ?thesis
        using False long pd(1) fillPending_append [of p d ?bs "f\<lparr>pending := p, expected := Uint32 (take 4 ?bs)\<rparr>"] pd(2,3)
        by (subst feedLoop.simps) (simp add: declaredOf_def del: take_append length_append)
    qed
    then show ?thesis by (simp add: feed_post_def splitStream_partial [OF partial])
  next
    case (frame fr rest)
    let ?e = "Uint32 (take 4 ?bs)"
    have e: "unat ?e = length fr" "\<not> length ?bs < 4" "\<not> refused ?m ?bs"
      using frame by (auto simp: frame_ok_def refused_def word_less_nat_alt)
    obtain p d where pd: "completeLength f data = Inr (f\<lparr>pending := p, expected := ?e\<rparr>, d)"
        "p @ d = ?bs" "length p < unat ?e"
      using completeLength_partial [OF assms(1) _ refl e(3)] False e(2) by (auto simp del: take_append)
    let ?f2 = "f\<lparr>pending := fr, expected := ?e\<rparr>"
    have fill: "fillPending (f\<lparr>pending := p, expected := ?e\<rparr>) d = (?f2, rest)"
      using fillPending_append [of p d ?bs "f\<lparr>pending := p, expected := ?e\<rparr>"] pd(2,3) e(1) frame(1) by simp
    have step: "feedLoop f data emit s =
       (case emitFrame ?f2 fr emit s of
          (Some err, f3, s') \<Rightarrow> (Some err, f3, s')
        | (None, f3, s') \<Rightarrow> feedLoop (f3\<lparr>pending := [], expected := 0\<rparr>) rest emit s')"
      using False pd(1) fill e(1) by (subst feedLoop.simps) simp
    obtain r s1 where g: "(case emit of None \<Rightarrow> (None, s) | Some g \<Rightarrow> g fr s) = (r, s1)"
      by (metis surj_pair)
    show ?thesis
    proof (cases r)
      case None
      let ?f3 = "f\<lparr>pending := [], expected := 0\<rparr>"
      have "feedLoop f data emit s = feedLoop ?f3 rest emit s1"
        using g None unfolding step by (auto simp: emitFrame_def split: option.splits)
      then show ?thesis
        using feedLoop_empty [of ?f3 rest emit s1] feed_post_same [of ?f3 f rest emit s1]
        unfolding frame(1) feed_post_frame [OF frame(2) g [unfolded None]] by simp
    next
      case (Some e)
      then show ?thesis
        using g frame(1) unfolding step
        by (cases "splitStream ?m rest")
          (auto simp: feed_post_def splitStream_frame [OF frame(2)] emitFrame_def split: option.splits)
    qed
  qed
qed

section \<open>Pieces of a stream\<close>

text \<open>
  The contract of a reader that is fed a stream piece by piece: a postcondition \<open>post\<close> on the
  whole stream that one call establishes, and that composes over consecutive calls.
\<close>

locale piecewise_reader =
  fixes feed :: "'f \<Rightarrow> 'b list \<Rightarrow> 's \<Rightarrow> 'e option \<times> 'f \<times> 's"
    and good :: "'f \<Rightarrow> bool"
    and post :: "'f \<Rightarrow> 'b list \<Rightarrow> 's \<Rightarrow> 'e option \<times> 'f \<times> 's \<Rightarrow> bool"
  assumes good_feed: "\<lbrakk>good f; feed f xs s = (None, f', s')\<rbrakk> \<Longrightarrow> good f'"
    and post_Nil: "good f \<Longrightarrow> post f [] s (None, f, s)"
    and post_go_on: "\<lbrakk>good f; feed f xs s = (None, f', s'); post f' ys s' res\<rbrakk> \<Longrightarrow> post f (xs @ ys) s res"
    and post_stop: "\<lbrakk>good f; feed f xs s = (Some e, f', s')\<rbrakk> \<Longrightarrow> post f (xs @ ys) s (Some e, f', s')"

text \<open>The read loop over the pieces a connection delivers: it ends at the first error.\<close>

fun readPieces :: "('f \<Rightarrow> 'b list \<Rightarrow> 's \<Rightarrow> 'e option \<times> 'f \<times> 's) \<Rightarrow> 'f \<Rightarrow> 'b list list \<Rightarrow> 's
    \<Rightarrow> 'e option \<times> 'f \<times> 's" where
  "readPieces feed f [] s = (None, f, s)"
| "readPieces feed f (c # cs) s =
     (case feed f c s of
        (Some e, f', s') \<Rightarrow> (Some e, f', s')
      | (None, f', s') \<Rightarrow> readPieces feed f' cs s')"

context piecewise_reader
begin

lemma readPieces_post: "good f \<Longrightarrow> post f (concat cs) s (readPieces feed f cs s)"
proof (induction cs arbitrary: f s)
  case (Cons c cs)
  obtain r f' s' where c: "feed f c s = (r, f', s')" by (metis prod_cases3)
  then show ?case
    using Cons post_stop [of f c s _ f' s' "concat cs"] post_go_on [of f c s f' s' "concat cs"]
      good_feed [of f c s f' s'] by (cases r) auto
qed (simp add: post_Nil)

lemma readPieces_good: "\<lbrakk>good f; readPieces feed f cs s = (None, f', s')\<rbrakk> \<Longrightarrow> good f'"
  by (induction cs arbitrary: f s) (auto split: prod.splits option.splits dest: good_feed)

end

lemma runEmit_append:
  "runEmit emit (xs @ ys) s =
     (case runEmit emit xs s of (Some e, s') \<Rightarrow> (Some e, s') | (None, s') \<Rightarrow> runEmit emit ys s')"
  by (induction xs arbitrary: s) (auto split: prod.splits option.splits)

definition framer_good :: "FramerState \<Rightarrow> bool" where
  "framer_good f \<longleftrightarrow> framer_inv f \<and> failed f = None"

lemma Feed_good: "framer_good f \<Longrightarrow> Feed f data emit s = feedLoop f data emit s"
  by (auto simp: Feed_def framer_good_def dest: framer_inv_initialized)

lemma Feed_post: "framer_good f \<Longrightarrow> feed_post f (pending f @ data) emit s (Feed f data emit s)"
  unfolding Feed_good by (rule feedLoop_spec) (auto simp: framer_good_def framer_inv_def)

lemma splitStream_Inl_error:
  "splitStream m bs = (frs, Inl len) \<Longrightarrow> lengthError m len c q \<noteq> None"
  using splitStream_concat [of m bs] by (auto simp: lengthError_def refused_def)

lemma Feed_None:
  assumes "framer_good f" "Feed f xs emit s = (None, f', s')"
  obtains frs rest where "splitStream (maxPDUSize f) (pending f @ xs) = (frs, Inr rest)"
    "runEmit emit frs s = (None, s')" "f' = f\<lparr>pending := rest, expected := declaredOf rest\<rparr>"
proof -
  obtain frs tail where sp: "splitStream (maxPDUSize f) (pending f @ xs) = (frs, tail)" by fastforce
  obtain r s1 where run: "runEmit emit frs s = (r, s1)" by fastforce
  have P: "feed_post f (pending f @ xs) emit s (None, f', s')"
    using Feed_post [OF assms(1), of xs emit s] assms(2) by simp
  then have r: "r = None" using sp run by (cases r) (simp_all add: feed_post_def)
  show ?thesis
  proof (cases tail)
    case (Inl len)
    then have "\<exists>c q. None = lengthError (maxPDUSize f) len c q"
      using P sp run r by (auto simp: feed_post_def)
    then show ?thesis using splitStream_Inl_error sp Inl by metis
  next
    case (Inr rest)
    then show ?thesis using that [of frs rest] P sp run r by (simp add: feed_post_def)
  qed
qed

lemma Feed_keeps_good:
  assumes "framer_good f" "Feed f xs emit s = (None, f', s')"
  shows "framer_good f'"
  using assms(1) Feed_None [OF assms] splitStream_concat [of "maxPDUSize f" "pending f @ xs"]
  by (fastforce simp: framer_good_def framer_inv_def)

lemma feed_post_go_on:
  assumes "framer_good f" "Feed f xs emit s = (None, f', s')" "feed_post f' (pending f' @ ys) emit s' res"
  shows "feed_post f (pending f @ xs @ ys) emit s res"
proof -
  obtain frs rest where *: "splitStream (maxPDUSize f) (pending f @ xs) = (frs, Inr rest)"
    "runEmit emit frs s = (None, s')" "f' = f\<lparr>pending := rest, expected := declaredOf rest\<rparr>"
    using Feed_None [OF assms(1,2)] by blast
  then have "feed_post f (rest @ ys) emit s' res"
    using assms(3) feed_post_same [of f' f "rest @ ys" emit s' res] by simp
  then show ?thesis
    using splitStream_append [OF *(1), of ys] *(2)
    by (cases "splitStream (maxPDUSize f) (rest @ ys)") (simp add: feed_post_def runEmit_append)
qed

lemma feed_post_stop:
  assumes "framer_good f" "Feed f xs emit s = (Some e, f', s')"
  shows "feed_post f (pending f @ xs @ ys) emit s (Some e, f', s')"
proof -
  obtain frs tail where sp: "splitStream (maxPDUSize f) (pending f @ xs) = (frs, tail)" by fastforce
  have P: "feed_post f (pending f @ xs) emit s (Some e, f', s')"
    using Feed_post [OF assms(1), of xs emit s] assms(2) by simp
  show ?thesis
  proof (cases tail)
    case (Inl len)
    then show ?thesis
      using P splitStream_refused_append [of "maxPDUSize f" "pending f @ xs" frs len ys] sp
      by (simp add: feed_post_def)
  next
    case (Inr rest)
    then have "splitStream (maxPDUSize f) ((pending f @ xs) @ ys) = apfst ((@) frs) (splitStream (maxPDUSize f) (rest @ ys))"
      using sp splitStream_append by blast
    then show ?thesis
      using P sp Inr by (cases "runEmit emit frs s"; cases "splitStream (maxPDUSize f) (rest @ ys)")
        (auto simp: feed_post_def runEmit_append split: option.splits)
  qed
qed

interpretation framer: piecewise_reader
  "\<lambda>f data s. Feed f data emit s" framer_good "\<lambda>f data s res. feed_post f (pending f @ data) emit s res"
  for emit :: "(bytes \<Rightarrow> 's \<Rightarrow> goerr option \<times> 's) option"
proof
  show "feed_post f (pending f @ []) emit s (None, f, s)" if "framer_good f" for f and s :: 's
    using Feed_post [OF that, of "[]" emit s] Feed_good [OF that, of "[]" emit s]
    by (subst (asm) feedLoop.simps) simp
qed (auto intro: Feed_keeps_good feed_post_go_on feed_post_stop)

section \<open>Properties\<close>

definition collect :: "(bytes \<Rightarrow> bytes list \<Rightarrow> goerr option \<times> bytes list) option" where
  "collect = Some (\<lambda>frame out. (None, out @ [frame]))"

lemma runEmit_collect: "runEmit collect frs out = (None, out @ frs)"
  by (induction frs arbitrary: out) (auto simp: collect_def)

lemma feed_post_collect:
  assumes "feed_post f bs collect [] (None, f', out)"
  shows "concat out @ pending f' = bs \<and> list_all (frame_ok (maxPDUSize f)) out
    \<and> partial_ok (maxPDUSize f') (expected f') (pending f') \<and> maxPDUSize f' = maxPDUSize f \<and> failed f' = failed f"
proof -
  obtain frs tail where sp: "splitStream (maxPDUSize f) bs = (frs, tail)" by fastforce
  have "tail \<noteq> Inl len" for len
  proof
    assume "tail = Inl len"
    then have "\<exists>c q. None = lengthError (maxPDUSize f) len c q"
      using assms sp by (simp add: feed_post_def runEmit_collect)
    then show False using splitStream_Inl_error sp \<open>tail = Inl len\<close> by metis
  qed
  then obtain rest where "tail = Inr rest" by (cases tail) auto
  then show ?thesis
    using assms sp splitStream_concat [of "maxPDUSize f" bs] by (auto simp: feed_post_def runEmit_collect)
qed

lemma NewFramer_good: "NewFramer m = Inr f \<Longrightarrow> framer_good f \<and> pending f = []"
  using NewFramer_inv by (auto simp: framer_good_def)

lemma partial_ok_bound: "\<lbrakk>partial_ok m e p; 16 \<le> m\<rbrakk> \<Longrightarrow> length p < unat m"
  by (auto simp: partial_ok_def word_le_nat_alt split: if_splits)

text \<open>C3: A new framer, fed a byte stream in whatever pieces the connection delivers, behaves as
  the reference on the whole stream: the consumer gets exactly the frames of the stream in order,
  its first error ends the reading (a structural one poisons the framer), a refused
  command_length poisons the framer with that error, and otherwise the incomplete rest stays
  buffered. The result does not depend on how the stream was cut.\<close>

theorem framer_refines_splitStream:
  assumes "NewFramer m = Inr f"
  shows "feed_post f (concat pieces) emit s (readPieces (\<lambda>f data s. Feed f data emit s) f pieces s)"
  using framer.readPieces_post [where f = f and emit = emit and cs = pieces and s = s] NewFramer_good [OF assms] by simp

theorem framer_refines_splitStream_witness:
  "\<exists>f. NewFramer 64 = Inr f \<and>
     feed_post f (concat [[0, 0], [0, 16, 0]]) collect [] (readPieces (\<lambda>f data s. Feed f data collect s) f [[0, 0], [0, 16, 0]] [])"
proof -
  have "NewFramer 64 = Inr \<lparr>maxPDUSize = 64, pending = [], expected = 0, failed = None\<rparr>"
    by (simp add: NewFramer_def)
  from this framer_refines_splitStream [OF this] show ?thesis by (intro exI conjI)
qed

text \<open>C5: No octet is lost or invented: as long as feeding reports no error, the frames delivered so
  far followed by the buffered rest are the stream; every frame is as long as its command_length
  field says, at least 16 octets and at most the configured maximum; less than one maximal PDU is
  buffered; and ending the stream is accepted exactly when it ends on a frame boundary.\<close>

theorem framer_no_loss:
  assumes "NewFramer m = Inr f"
    and "readPieces (\<lambda>f data s. Feed f data collect s) f pieces [] = (None, f', out)"
  shows "concat out @ pending f' = concat pieces \<and> list_all (frame_ok (maxPDUSize f)) out
    \<and> Buffered f' < unat (maxPDUSize f) \<and> (fst (Finalize f') = None \<longleftrightarrow> concat out = concat pieces)"
proof -
  have *: "concat out @ pending f' = concat pieces \<and> list_all (frame_ok (maxPDUSize f)) out
    \<and> partial_ok (maxPDUSize f') (expected f') (pending f') \<and> maxPDUSize f' = maxPDUSize f \<and> failed f' = failed f"
    using framer.readPieces_post [where f = f and emit = collect and cs = pieces and s = "[]"] NewFramer_good [OF assms(1)] assms(2)
    by (intro feed_post_collect) simp
  moreover have "16 \<le> maxPDUSize f" "failed f = None"
    using NewFramer_good [OF assms(1)] by (auto simp: framer_good_def framer_inv_def)
  moreover from this have "initialized f'" using * by (auto simp: initialized_def)
  ultimately have "fst (Finalize f') = None \<longleftrightarrow> pending f' = []"
    by (simp add: Finalize_def failFramer_def Let_def)
  moreover have "pending f' = [] \<longleftrightarrow> concat out = concat pieces"
    using * by (metis append_self_conv)
  moreover have "length (pending f') < unat (maxPDUSize f)"
    using partial_ok_bound [of "maxPDUSize f'" "expected f'" "pending f'"] * \<open>16 \<le> maxPDUSize f\<close> by auto
  ultimately show ?thesis using * by (simp add: Buffered_def)
qed

lemma feedLoop_Nil [simp]: "feedLoop f [] emit s = (None, f, s)"
  by (subst feedLoop.simps) simp

lemma feedLoop_short: "\<lbrakk>pending f = []; data \<noteq> []; length data < 4\<rbrakk> \<Longrightarrow> feedLoop f data emit s = (None, f\<lparr>pending := data\<rparr>, s)"
  by (subst feedLoop.simps) simp

theorem framer_no_loss_witness:
  "\<exists>f f'. NewFramer 64 = Inr f
     \<and> readPieces (\<lambda>f data s. Feed f data collect s) f [[0, 0]] [] = (None, f', [])
     \<and> concat [] @ pending f' = concat [[0, 0]] \<and> Buffered f' < unat (maxPDUSize f) \<and> fst (Finalize f') \<noteq> None"
proof -
  let ?f = "\<lparr>maxPDUSize = 64, pending = [], expected = 0, failed = None\<rparr>"
  let ?g = "?f\<lparr>pending := [0, 0]\<rparr>"
  have "NewFramer 64 = Inr ?f" by (simp add: NewFramer_def)
  moreover have "readPieces (\<lambda>f data s. Feed f data collect s) ?f [[0, 0]] [] = (None, ?g, [])"
    by (simp add: Feed_def initialized_def feedLoop_short)
  ultimately show ?thesis using framer_no_loss [of 64 ?f "[[0, 0]]" ?g "[]"]
    by (intro exI [of _ ?f] exI [of _ ?g]) simp
qed

text \<open>C6: A structural error is final: once feeding a healthy framer returned a fatal error, whatever
  is fed later is rejected with that same error, the consumer sees none of it, and the framer does
  not change. Every refused command_length is such an error.\<close>

theorem framer_poisoned:
  assumes "framer_good f" "Feed f data emit s = (Some e, f', s')" "asFatal e \<noteq> None"
  shows "Feed f' later emit2 t = (Some e, f', t) \<and> fst (Finalize f') = Some e \<and> Buffered f' = 0"
proof -
  have "f' = f\<lparr>failed := Some e, pending := [], expected := 0\<rparr>"
    using Feed_post [OF assms(1), of data emit s] assms(2,3)
    by (auto simp: feed_post_def split: prod.splits option.splits sum.splits)
  moreover have "initialized f" using assms(1) by (simp add: framer_good_def framer_inv_initialized)
  ultimately show ?thesis by (auto simp: Feed_def Finalize_def Buffered_def initialized_def)
qed

theorem framer_poisoned_witness:
  "\<exists>f f' e. framer_good f \<and> Feed f [0, 0, 0, 8] collect [] = (Some e, f', []) \<and> asFatal e \<noteq> None
     \<and> Feed f' [1] collect [] = (Some e, f', [])"
proof -
  let ?f = "\<lparr>maxPDUSize = 64, pending = [], expected = 0, failed = None\<rparr>"
  have g: "framer_good ?f" by (simp add: framer_good_def framer_inv_def partial_ok_def)
  have "Uint32 [0, 0, 0, 8] = 8" by (simp add: Uint32_def)
  then have "\<exists>e. Feed ?f [0, 0, 0, 8] collect [] = (Some e, ?f\<lparr>failed := Some e\<rparr>, []) \<and> asFatal e \<noteq> None"
    by (subst Feed_good [OF g], subst feedLoop.simps)
      (auto simp: validateLength_def failFramer_def Let_def)
  then obtain e where "Feed ?f [0, 0, 0, 8] collect [] = (Some e, ?f\<lparr>failed := Some e\<rparr>, [])" "asFatal e \<noteq> None"
    by blast
  with framer_poisoned [OF g this, of "[1]" collect "[]"] g show ?thesis
    by (intro exI [of _ ?f] exI [of _ "?f\<lparr>failed := Some e\<rparr>"] exI [of _ e] conjI) simp_all
qed

end
