(* ===== verification/StateMachine.thy ===== *)
theory StateMachine
  imports Protocol
begin

text \<open>
  The session state machine (\<^verbatim>\<open>session/state.go\<close>, \<^verbatim>\<open>session/state_cancel.go\<close>) and the errors of the
  session package (\<^verbatim>\<open>session/errors.go\<close>). Every method of the machine holds its mutex for its whole
  body, so a method is one step; \<open>sm_step\<close> is the relation of all of them, in any order, and
  \<open>sm_reachable\<close> what they reach from a new machine. Nil receivers are not modelled.
\<close>

section \<open>Roles and errors\<close>

type_synonym Role = byte
type_synonym Duration = int

abbreviation (input) RoleESME :: Role where "RoleESME \<equiv> 1"
abbreviation (input) RoleSMSC :: Role where "RoleSMSC \<equiv> 2"

definition roleValid :: "Role \<Rightarrow> bool" where
  "roleValid r \<longleftrightarrow> r = RoleESME \<or> r = RoleSMSC"

definition peer :: "Role \<Rightarrow> Role" where
  "peer r = (if r = RoleESME then RoleSMSC else if r = RoleSMSC then RoleESME else 0)"

datatype BindMode = BindNone | BindTX | BindRX | BindTRX

datatype TimeoutKind = TimeoutResponse | TimeoutSessionInit | TimeoutEnquireLink | TimeoutInactivity

text \<open>
  The errors an operation of the session returns: the sentinels and error types of the package, an
  error of the codec, the error of the caller's context and an error of the connection.
\<close>

datatype session_error =
    ErrSessionClosed
  | ErrInvalidConfig
  | ErrPendingLimit
  | ErrWindowFull
  | ErrSequenceInUse
  | ErrSequenceExhausted
  | ErrBindInProgress
  | ErrUnexpectedPDU
  | ErrUnsupportedCapability
  | ErrSessionNotInitialized
  | ErrDeferredResponseLimit
  | ErrDeferredResponseUnknown
  | ErrDeferredResponseBusy
  | ErrInvalidResponseAction
  | TimeoutError TimeoutKind CommandID SequenceNumber Duration
  | StateError SessionState CommandID Role
  | ResponseError CommandID CommandStatus SequenceNumber
  | LossError "session_error option"
  | CodecError goerr
  | ContextError string
  | ConnError string

text \<open>\<^verbatim>\<open>errors.Is(err, target)\<close> for a sentinel of the package: only \<^verbatim>\<open>LossError\<close> unwraps.\<close>

fun sessionIs :: "session_error \<Rightarrow> session_error \<Rightarrow> bool" where
  "sessionIs (LossError (Some e)) target \<longleftrightarrow> sessionIs e target"
| "sessionIs (LossError None) target \<longleftrightarrow> False"
| "sessionIs e target \<longleftrightarrow> e = target"

section \<open>The operation rules\<close>

record operationRule =
  actor  :: Role
  states :: "SessionState list"

definition allows :: "operationRule \<Rightarrow> SessionState \<Rightarrow> Role \<Rightarrow> bool" where
  "allows r state role =
     (if actor r \<noteq> 0 \<and> role \<noteq> actor r then False else list_ex (\<lambda>s. s = state) (states r))"

definition openOnly :: "SessionState list" where
  "openOnly = [StateOpen]"

definition openOrOutbound :: "SessionState list" where
  "openOrOutbound = [StateOpen, StateOutbound]"

definition boundStates :: "SessionState list" where
  "boundStates = [StateBoundTX, StateBoundRX, StateBoundTRX]"

definition boundOrUnbound :: "SessionState list" where
  "boundOrUnbound = [StateBoundTX, StateBoundRX, StateBoundTRX, StateUnbound]"

definition boundTXOrTRX :: "SessionState list" where
  "boundTXOrTRX = [StateBoundTX, StateBoundTRX]"

definition boundRXOrTRX :: "SessionState list" where
  "boundRXOrTRX = [StateBoundRX, StateBoundTRX]"

definition boundTXOnly :: "SessionState list" where
  "boundTXOnly = [StateBoundTX]"

definition standardTable :: "(CommandID \<times> operationRule) list" where
  "standardTable = [
     (CommandBindTransmitter,       \<lparr>actor = RoleESME, states = openOnly\<rparr>),
     (CommandBindTransceiver,       \<lparr>actor = RoleESME, states = openOnly\<rparr>),
     (CommandBindReceiver,          \<lparr>actor = RoleESME, states = openOrOutbound\<rparr>),
     (CommandBindTransmitterResp,   \<lparr>actor = RoleSMSC, states = openOnly\<rparr>),
     (CommandBindTransceiverResp,   \<lparr>actor = RoleSMSC, states = openOnly\<rparr>),
     (CommandBindReceiverResp,      \<lparr>actor = RoleSMSC, states = openOrOutbound\<rparr>),
     (CommandOutbind,               \<lparr>actor = RoleSMSC, states = openOnly\<rparr>),
     (CommandUnbind,                \<lparr>actor = 0, states = boundStates\<rparr>),
     (CommandUnbindResp,            \<lparr>actor = 0, states = boundOrUnbound\<rparr>),
     (CommandEnquireLink,           \<lparr>actor = 0, states = boundStates\<rparr>),
     (CommandEnquireLinkResp,       \<lparr>actor = 0, states = boundStates\<rparr>),
     (CommandSubmitSM,              \<lparr>actor = RoleESME, states = boundTXOrTRX\<rparr>),
     (CommandSubmitMulti,           \<lparr>actor = RoleESME, states = boundTXOrTRX\<rparr>),
     (CommandQuerySM,               \<lparr>actor = RoleESME, states = boundTXOrTRX\<rparr>),
     (CommandCancelSM,              \<lparr>actor = RoleESME, states = boundTXOrTRX\<rparr>),
     (CommandBroadcastSM,           \<lparr>actor = RoleESME, states = boundTXOrTRX\<rparr>),
     (CommandQueryBroadcastSM,      \<lparr>actor = RoleESME, states = boundTXOrTRX\<rparr>),
     (CommandCancelBroadcastSM,     \<lparr>actor = RoleESME, states = boundTXOrTRX\<rparr>),
     (CommandReplaceSM,             \<lparr>actor = RoleESME, states = boundTXOnly\<rparr>),
     (CommandSubmitSMResp,          \<lparr>actor = RoleSMSC, states = boundTXOrTRX\<rparr>),
     (CommandSubmitMultiResp,       \<lparr>actor = RoleSMSC, states = boundTXOrTRX\<rparr>),
     (CommandQuerySMResp,           \<lparr>actor = RoleSMSC, states = boundTXOrTRX\<rparr>),
     (CommandCancelSMResp,          \<lparr>actor = RoleSMSC, states = boundTXOrTRX\<rparr>),
     (CommandBroadcastSMResp,       \<lparr>actor = RoleSMSC, states = boundTXOrTRX\<rparr>),
     (CommandQueryBroadcastSMResp,  \<lparr>actor = RoleSMSC, states = boundTXOrTRX\<rparr>),
     (CommandCancelBroadcastSMResp, \<lparr>actor = RoleSMSC, states = boundTXOrTRX\<rparr>),
     (CommandReplaceSMResp,         \<lparr>actor = RoleSMSC, states = boundTXOnly\<rparr>),
     (CommandDeliverSM,             \<lparr>actor = RoleSMSC, states = boundRXOrTRX\<rparr>),
     (CommandDeliverSMResp,         \<lparr>actor = RoleESME, states = boundRXOrTRX\<rparr>),
     (CommandDataSM,                \<lparr>actor = 0, states = boundStates\<rparr>),
     (CommandDataSMResp,            \<lparr>actor = 0, states = boundStates\<rparr>),
     (CommandAlertNotification,     \<lparr>actor = RoleSMSC, states = boundRXOrTRX\<rparr>)]"

definition standardRules :: "CommandID \<rightharpoonup> operationRule" where
  "standardRules = map_of standardTable"

definition CanIssue :: "SessionState \<Rightarrow> Role \<Rightarrow> CommandID \<Rightarrow> bool" where
  "CanIssue state role command =
     (if \<not> roleValid role \<or> state = StateClosed then False
      else if command = CommandGenericNACK then True
      else case standardRules command of None \<Rightarrow> False | Some rule \<Rightarrow> allows rule state role)"

definition IsStandardCommand :: "CommandID \<Rightarrow> bool" where
  "IsStandardCommand command = (if command = CommandGenericNACK then True else standardRules command \<noteq> None)"

section \<open>The machine\<close>

record StateMachine =
  sm_role          :: Role
  sm_state         :: SessionState
  pendingLocalBind :: CommandID
  pendingPeerBind  :: CommandID
  localUnbindFrom  :: SessionState
  peerUnbindFrom   :: SessionState

definition NewStateMachine :: "Role \<Rightarrow> session_error + StateMachine" where
  "NewStateMachine role =
     (if \<not> roleValid role then Inl ErrInvalidConfig
      else Inr \<lparr>sm_role = role, sm_state = StateClosed, pendingLocalBind = 0, pendingPeerBind = 0,
                localUnbindFrom = StateClosed, peerUnbindFrom = StateClosed\<rparr>)"

definition bindModeOf :: "StateMachine \<Rightarrow> BindMode" where
  "bindModeOf m =
     (case sm_state m of StateBoundTX \<Rightarrow> BindTX | StateBoundRX \<Rightarrow> BindRX | StateBoundTRX \<Rightarrow> BindTRX | _ \<Rightarrow> BindNone)"

definition isBindRequest :: "CommandID \<Rightarrow> bool" where
  "isBindRequest c \<longleftrightarrow> c = CommandBindTransmitter \<or> c = CommandBindReceiver \<or> c = CommandBindTransceiver"

definition boundStateForBind :: "CommandID \<Rightarrow> SessionState" where
  "boundStateForBind c =
     (if c = CommandBindTransmitter then StateBoundTX
      else if c = CommandBindReceiver then StateBoundRX
      else if c = CommandBindTransceiver then StateBoundTRX
      else StateOpen)"

definition openMachine :: "StateMachine \<Rightarrow> session_error option \<times> StateMachine" where
  "openMachine m =
     (if sm_state m \<noteq> StateClosed then (Some (StateError (sm_state m) 0 (sm_role m)), m)
      else (None, m\<lparr>sm_state := StateOpen\<rparr>))"

definition MarkOutbound :: "StateMachine \<Rightarrow> session_error option \<times> StateMachine" where
  "MarkOutbound m =
     (if sm_state m \<noteq> StateOpen then (Some (StateError (sm_state m) CommandOutbind (sm_role m)), m)
      else (None, m\<lparr>sm_state := StateOutbound\<rparr>))"

definition BeginOutbound :: "StateMachine \<Rightarrow> CommandID \<Rightarrow> session_error option \<times> StateMachine" where
  "BeginOutbound m c =
     (let state = sm_state m in
      if \<not> CanIssue state (sm_role m) c then (Some (StateError state c (sm_role m)), m)
      else if isBindRequest c \<and> pendingLocalBind m \<noteq> 0 then (Some ErrBindInProgress, m)
      else
        let m = (if isBindRequest c then m\<lparr>pendingLocalBind := c\<rparr> else m);
            m = (if c = CommandUnbind then m\<lparr>localUnbindFrom := state, sm_state := StateUnbound\<rparr> else m);
            m = (if c = CommandOutbind then m\<lparr>sm_state := StateOutbound\<rparr> else m)
        in (None, m))"

definition CancelOutbound :: "StateMachine \<Rightarrow> CommandID \<Rightarrow> StateMachine" where
  "CancelOutbound m c =
     (let m = (if isBindRequest c \<and> pendingLocalBind m = c then m\<lparr>pendingLocalBind := 0\<rparr> else m);
          m = (if c = CommandUnbind \<and> sm_state m = StateUnbound \<and> localUnbindFrom m \<noteq> StateClosed
               then m\<lparr>sm_state := localUnbindFrom m, localUnbindFrom := StateClosed\<rparr> else m)
      in if c = CommandOutbind \<and> sm_state m = StateOutbound then m\<lparr>sm_state := StateOpen\<rparr> else m)"

definition CompleteOutbound :: "StateMachine \<Rightarrow> CommandID \<Rightarrow> CommandStatus \<Rightarrow> StateMachine" where
  "CompleteOutbound m c status =
     (if isBindRequest c then
        if pendingLocalBind m \<noteq> c then m
        else let m = m\<lparr>pendingLocalBind := 0\<rparr> in
          if OK status then m\<lparr>sm_state := boundStateForBind c\<rparr> else m
      else if c = CommandUnbind \<and> sm_state m = StateUnbound then
        let m = (if OK status then m\<lparr>sm_state := StateClosed\<rparr>
                 else if localUnbindFrom m \<noteq> StateClosed then m\<lparr>sm_state := localUnbindFrom m\<rparr> else m)
        in m\<lparr>localUnbindFrom := StateClosed\<rparr>
      else m)"

definition BeginInbound :: "StateMachine \<Rightarrow> CommandID \<Rightarrow> session_error option \<times> StateMachine" where
  "BeginInbound m c =
     (let state = sm_state m; peerRole = peer (sm_role m) in
      if \<not> CanIssue state peerRole c then (Some (StateError state c peerRole), m)
      else if isBindRequest c \<and> pendingPeerBind m \<noteq> 0 then (Some ErrBindInProgress, m)
      else
        let m = (if isBindRequest c then m\<lparr>pendingPeerBind := c\<rparr> else m);
            m = (if c = CommandUnbind then m\<lparr>peerUnbindFrom := state, sm_state := StateUnbound\<rparr> else m);
            m = (if c = CommandOutbind then m\<lparr>sm_state := StateOutbound\<rparr> else m)
        in (None, m))"

definition CompleteInbound :: "StateMachine \<Rightarrow> CommandID \<Rightarrow> CommandStatus \<Rightarrow> StateMachine" where
  "CompleteInbound m c status =
     (if isBindRequest c then
        if pendingPeerBind m \<noteq> c then m
        else let m = m\<lparr>pendingPeerBind := 0\<rparr> in
          if OK status then m\<lparr>sm_state := boundStateForBind c\<rparr> else m
      else if c = CommandUnbind \<and> sm_state m = StateUnbound then
        let m = (if OK status then m\<lparr>sm_state := StateClosed\<rparr>
                 else if peerUnbindFrom m \<noteq> StateClosed then m\<lparr>sm_state := peerUnbindFrom m\<rparr> else m)
        in m\<lparr>peerUnbindFrom := StateClosed\<rparr>
      else m)"

definition CancelInbound :: "StateMachine \<Rightarrow> CommandID \<Rightarrow> StateMachine" where
  "CancelInbound m c =
     (let m = (if isBindRequest c \<and> pendingPeerBind m = c then m\<lparr>pendingPeerBind := 0\<rparr> else m)
      in if c = CommandUnbind \<and> sm_state m = StateUnbound \<and> peerUnbindFrom m \<noteq> StateClosed
         then m\<lparr>sm_state := peerUnbindFrom m, peerUnbindFrom := StateClosed\<rparr> else m)"

definition closeMachine :: "StateMachine \<Rightarrow> StateMachine" where
  "closeMachine m = m\<lparr>pendingLocalBind := 0, pendingPeerBind := 0, localUnbindFrom := StateClosed,
     peerUnbindFrom := StateClosed, sm_state := StateClosed\<rparr>"

section \<open>Runs of the machine\<close>

datatype sm_op =
    OpOpen | OpMarkOutbound
  | OpBeginOutbound CommandID | OpCancelOutbound CommandID | OpCompleteOutbound CommandID CommandStatus
  | OpBeginInbound CommandID | OpCancelInbound CommandID | OpCompleteInbound CommandID CommandStatus
  | OpClose

fun applyOp :: "sm_op \<Rightarrow> StateMachine \<Rightarrow> StateMachine" where
  "applyOp OpOpen m = snd (openMachine m)"
| "applyOp OpMarkOutbound m = snd (MarkOutbound m)"
| "applyOp (OpBeginOutbound c) m = snd (BeginOutbound m c)"
| "applyOp (OpCancelOutbound c) m = CancelOutbound m c"
| "applyOp (OpCompleteOutbound c status) m = CompleteOutbound m c status"
| "applyOp (OpBeginInbound c) m = snd (BeginInbound m c)"
| "applyOp (OpCancelInbound c) m = CancelInbound m c"
| "applyOp (OpCompleteInbound c status) m = CompleteInbound m c status"
| "applyOp OpClose m = closeMachine m"

inductive sm_reachable :: "Role \<Rightarrow> StateMachine \<Rightarrow> bool" for role where
  new: "NewStateMachine role = Inr m \<Longrightarrow> sm_reachable role m"
| op: "sm_reachable role m \<Longrightarrow> sm_reachable role (applyOp op m)"

section \<open>The rules\<close>

lemma rule_list_simps [simp]:
  "list_ex (\<lambda>s. s = state) openOnly \<longleftrightarrow> state = StateOpen"
  "list_ex (\<lambda>s. s = state) openOrOutbound \<longleftrightarrow> state = StateOpen \<or> state = StateOutbound"
  "list_ex (\<lambda>s. s = state) boundStates \<longleftrightarrow> state \<in> set boundStates"
  "list_ex (\<lambda>s. s = state) boundOrUnbound \<longleftrightarrow> state \<in> set boundStates \<or> state = StateUnbound"
  "list_ex (\<lambda>s. s = state) boundTXOrTRX \<longleftrightarrow> state = StateBoundTX \<or> state = StateBoundTRX"
  "list_ex (\<lambda>s. s = state) boundRXOrTRX \<longleftrightarrow> state = StateBoundRX \<or> state = StateBoundTRX"
  "list_ex (\<lambda>s. s = state) boundTXOnly \<longleftrightarrow> state = StateBoundTX"
  by (auto simp: openOnly_def openOrOutbound_def boundStates_def boundOrUnbound_def boundTXOrTRX_def
      boundRXOrTRX_def boundTXOnly_def)

lemma lifecycle_rules:
  "standardRules CommandBindTransmitter = Some \<lparr>actor = RoleESME, states = openOnly\<rparr>"
  "standardRules CommandBindTransceiver = Some \<lparr>actor = RoleESME, states = openOnly\<rparr>"
  "standardRules CommandBindReceiver = Some \<lparr>actor = RoleESME, states = openOrOutbound\<rparr>"
  "standardRules CommandOutbind = Some \<lparr>actor = RoleSMSC, states = openOnly\<rparr>"
  "standardRules CommandUnbind = Some \<lparr>actor = 0, states = boundStates\<rparr>"
  by (simp_all add: standardRules_def standardTable_def)

lemma CanIssue_bind:
  assumes "isBindRequest c"
  shows "CanIssue state role c \<longleftrightarrow>
     role = RoleESME \<and> (state = StateOpen \<or> c = CommandBindReceiver \<and> state = StateOutbound)"
  using assms unfolding isBindRequest_def
  by (elim disjE) (auto simp: CanIssue_def lifecycle_rules allows_def roleValid_def)

lemma CanIssue_unbind:
  "CanIssue state role CommandUnbind \<longleftrightarrow> roleValid role \<and> state \<in> set boundStates"
  by (auto simp: CanIssue_def lifecycle_rules allows_def boundStates_def)

lemma CanIssue_outbind:
  "CanIssue state role CommandOutbind \<longleftrightarrow> role = RoleSMSC \<and> state = StateOpen"
  by (auto simp: CanIssue_def lifecycle_rules allows_def roleValid_def)

lemma peer_simps [simp]:
  "peer r = RoleESME \<longleftrightarrow> r = RoleSMSC" "peer r = RoleSMSC \<longleftrightarrow> r = RoleESME"
  "roleValid (peer r) \<longleftrightarrow> roleValid r" "roleValid r \<Longrightarrow> peer (peer r) = r"
  by (auto simp: peer_def roleValid_def)

lemma isBindRequest_simps [simp]:
  "isBindRequest c \<Longrightarrow> c \<noteq> 0" "\<not> isBindRequest CommandUnbind" "\<not> isBindRequest CommandOutbind" "\<not> isBindRequest 0"
  by (auto simp: isBindRequest_def)

lemma boundStateForBind_bound: "isBindRequest c \<Longrightarrow> boundStateForBind c \<in> set boundStates"
  by (auto simp: isBindRequest_def boundStateForBind_def boundStates_def)

lemma boundStates_distinct [simp]:
  "StateClosed \<notin> set boundStates" "StateOpen \<notin> set boundStates" "StateOutbound \<notin> set boundStates"
  "StateUnbound \<notin> set boundStates"
  by (simp_all add: boundStates_def)

section \<open>The invariant\<close>

definition sm_wf :: "StateMachine \<Rightarrow> bool" where
  "sm_wf m \<longleftrightarrow> roleValid (sm_role m) \<and>
     (pendingLocalBind m \<noteq> 0 \<longrightarrow> isBindRequest (pendingLocalBind m) \<and> sm_role m = RoleESME \<and> sm_state m \<in> {StateOpen, StateOutbound}) \<and>
     (pendingPeerBind m \<noteq> 0 \<longrightarrow> isBindRequest (pendingPeerBind m) \<and> sm_role m = RoleSMSC \<and> sm_state m \<in> {StateOpen, StateOutbound}) \<and>
     localUnbindFrom m \<in> insert StateClosed (set boundStates) \<and>
     peerUnbindFrom m \<in> insert StateClosed (set boundStates) \<and>
     (sm_state m = StateUnbound \<longrightarrow> localUnbindFrom m \<noteq> StateClosed \<or> peerUnbindFrom m \<noteq> StateClosed)"

named_theorems machine_defs \<open>the operations of the machine\<close>

lemmas [machine_defs] = openMachine_def MarkOutbound_def BeginOutbound_def CancelOutbound_def
  CompleteOutbound_def BeginInbound_def CancelInbound_def CompleteInbound_def closeMachine_def Let_def

lemma sm_wf_new: "NewStateMachine role = Inr m \<Longrightarrow> sm_wf m"
  by (auto simp: NewStateMachine_def sm_wf_def split: if_splits)

lemma sm_wf_open: "sm_wf m \<Longrightarrow> sm_wf (snd (openMachine m))" "sm_wf m \<Longrightarrow> sm_wf (snd (MarkOutbound m))"
  "sm_wf m \<Longrightarrow> sm_wf (closeMachine m)"
  by (auto simp: sm_wf_def machine_defs)

lemma BeginOutbound_forms:
  obtains (refused) e where "BeginOutbound m c = (Some e, m)"
  | (bind) "isBindRequest c" "sm_role m = RoleESME" "sm_state m \<in> {StateOpen, StateOutbound}" "pendingLocalBind m = 0"
      "BeginOutbound m c = (None, m\<lparr>pendingLocalBind := c\<rparr>)"
  | (unbind) "c = CommandUnbind" "sm_state m \<in> set boundStates"
      "BeginOutbound m c = (None, m\<lparr>localUnbindFrom := sm_state m, sm_state := StateUnbound\<rparr>)"
  | (outbind) "c = CommandOutbind" "sm_state m = StateOpen" "BeginOutbound m c = (None, m\<lparr>sm_state := StateOutbound\<rparr>)"
  | (other) "\<not> isBindRequest c" "c \<noteq> CommandUnbind" "c \<noteq> CommandOutbind" "BeginOutbound m c = (None, m)"
proof (cases "\<not> CanIssue (sm_state m) (sm_role m) c \<or> isBindRequest c \<and> pendingLocalBind m \<noteq> 0")
  case True
  then have "\<exists>e. BeginOutbound m c = (Some e, m)" by (auto simp: BeginOutbound_def Let_def)
  then show ?thesis using refused by blast
next
  case False
  then consider "isBindRequest c" | "c = CommandUnbind" | "c = CommandOutbind"
    | "\<not> isBindRequest c" "c \<noteq> CommandUnbind" "c \<noteq> CommandOutbind" by blast
  then show ?thesis
  proof cases
    case 1
    then have "c \<noteq> CommandUnbind" "c \<noteq> CommandOutbind" by auto
    with 1 False show ?thesis by (intro bind) (auto simp: BeginOutbound_def CanIssue_bind)
  next
    case 2
    with False show ?thesis by (intro unbind) (auto simp: BeginOutbound_def CanIssue_unbind)
  next
    case 3
    with False show ?thesis by (intro outbind) (auto simp: BeginOutbound_def CanIssue_outbind)
  next
    case 4
    with False show ?thesis by (intro other) (auto simp: BeginOutbound_def)
  qed
qed

lemma sm_wf_BeginOutbound: "sm_wf m \<Longrightarrow> sm_wf (snd (BeginOutbound m c))"
  by (cases rule: BeginOutbound_forms [of m c]) (auto simp: sm_wf_def)

lemma BeginInbound_forms:
  obtains (refused) e where "BeginInbound m c = (Some e, m)"
  | (bind) "isBindRequest c" "sm_role m = RoleSMSC" "sm_state m \<in> {StateOpen, StateOutbound}" "pendingPeerBind m = 0"
      "BeginInbound m c = (None, m\<lparr>pendingPeerBind := c\<rparr>)"
  | (unbind) "c = CommandUnbind" "sm_state m \<in> set boundStates"
      "BeginInbound m c = (None, m\<lparr>peerUnbindFrom := sm_state m, sm_state := StateUnbound\<rparr>)"
  | (outbind) "c = CommandOutbind" "sm_state m = StateOpen" "BeginInbound m c = (None, m\<lparr>sm_state := StateOutbound\<rparr>)"
  | (other) "\<not> isBindRequest c" "c \<noteq> CommandUnbind" "c \<noteq> CommandOutbind" "BeginInbound m c = (None, m)"
proof (cases "\<not> CanIssue (sm_state m) (peer (sm_role m)) c \<or> isBindRequest c \<and> pendingPeerBind m \<noteq> 0")
  case True
  then have "\<exists>e. BeginInbound m c = (Some e, m)" by (auto simp: BeginInbound_def Let_def)
  then show ?thesis using refused by blast
next
  case False
  then consider "isBindRequest c" | "c = CommandUnbind" | "c = CommandOutbind"
    | "\<not> isBindRequest c" "c \<noteq> CommandUnbind" "c \<noteq> CommandOutbind" by blast
  then show ?thesis
  proof cases
    case 1
    then have "c \<noteq> CommandUnbind" "c \<noteq> CommandOutbind" by auto
    with 1 False show ?thesis by (intro bind) (auto simp: BeginInbound_def CanIssue_bind)
  next
    case 2
    with False show ?thesis by (intro unbind) (auto simp: BeginInbound_def CanIssue_unbind)
  next
    case 3
    with False show ?thesis by (intro outbind) (auto simp: BeginInbound_def CanIssue_outbind)
  next
    case 4
    with False show ?thesis by (intro other) (auto simp: BeginInbound_def)
  qed
qed

lemma sm_wf_BeginInbound: "sm_wf m \<Longrightarrow> sm_wf (snd (BeginInbound m c))"
  by (cases rule: BeginInbound_forms [of m c]) (auto simp: sm_wf_def)

lemma CancelOutbound_forms:
  obtains (bind) "isBindRequest c" "pendingLocalBind m = c" "CancelOutbound m c = m\<lparr>pendingLocalBind := 0\<rparr>"
  | (unbind) "c = CommandUnbind" "sm_state m = StateUnbound" "localUnbindFrom m \<noteq> StateClosed"
      "CancelOutbound m c = m\<lparr>sm_state := localUnbindFrom m, localUnbindFrom := StateClosed\<rparr>"
  | (outbind) "c = CommandOutbind" "sm_state m = StateOutbound" "CancelOutbound m c = m\<lparr>sm_state := StateOpen\<rparr>"
  | (none) "CancelOutbound m c = m"
proof (cases "isBindRequest c")
  case True
  then have "c \<noteq> CommandUnbind" "c \<noteq> CommandOutbind" by auto
  with True that(1,4) show ?thesis by (cases "pendingLocalBind m = c") (simp_all add: CancelOutbound_def)
next
  case False
  have "CancelOutbound m CommandOutbind = (if sm_state m = StateOutbound then m\<lparr>sm_state := StateOpen\<rparr> else m)"
    by (simp add: CancelOutbound_def)
  moreover have "CancelOutbound m CommandUnbind = (if sm_state m = StateUnbound \<and> localUnbindFrom m \<noteq> StateClosed
      then m\<lparr>sm_state := localUnbindFrom m, localUnbindFrom := StateClosed\<rparr> else m)"
    by (simp add: CancelOutbound_def)
  moreover have "CancelOutbound m c = m" if "c \<noteq> CommandUnbind" "c \<noteq> CommandOutbind"
    using that False by (simp add: CancelOutbound_def)
  ultimately show ?thesis using that(2-4) by metis
qed

lemma CancelInbound_forms:
  obtains (bind) "isBindRequest c" "pendingPeerBind m = c" "CancelInbound m c = m\<lparr>pendingPeerBind := 0\<rparr>"
  | (unbind) "c = CommandUnbind" "sm_state m = StateUnbound" "peerUnbindFrom m \<noteq> StateClosed"
      "CancelInbound m c = m\<lparr>sm_state := peerUnbindFrom m, peerUnbindFrom := StateClosed\<rparr>"
  | (none) "CancelInbound m c = m"
proof (cases "isBindRequest c")
  case True
  then have "c \<noteq> CommandUnbind" by auto
  with True that(1,3) show ?thesis by (cases "pendingPeerBind m = c") (simp_all add: CancelInbound_def)
next
  case False
  have "CancelInbound m CommandUnbind = (if sm_state m = StateUnbound \<and> peerUnbindFrom m \<noteq> StateClosed
      then m\<lparr>sm_state := peerUnbindFrom m, peerUnbindFrom := StateClosed\<rparr> else m)"
    by (simp add: CancelInbound_def)
  moreover have "CancelInbound m c = m" if "c \<noteq> CommandUnbind"
    using that False by (simp add: CancelInbound_def)
  ultimately show ?thesis using that(2,3) by metis
qed

lemma sm_wf_Cancel:
  assumes "sm_wf m"
  shows "sm_wf (CancelOutbound m c)" "sm_wf (CancelInbound m c)"
proof -
  show "sm_wf (CancelOutbound m c)"
    using assms by (cases rule: CancelOutbound_forms [of c m]) (auto simp: sm_wf_def)
  show "sm_wf (CancelInbound m c)"
    using assms by (cases rule: CancelInbound_forms [of c m]) (auto simp: sm_wf_def)
qed

lemma CompleteOutbound_forms:
  obtains (bound) "isBindRequest c" "pendingLocalBind m = c" "OK status"
      "CompleteOutbound m c status = m\<lparr>pendingLocalBind := 0, sm_state := boundStateForBind c\<rparr>"
  | (refused) "isBindRequest c" "pendingLocalBind m = c" "\<not> OK status" "CompleteOutbound m c status = m\<lparr>pendingLocalBind := 0\<rparr>"
  | (closed) "c = CommandUnbind" "sm_state m = StateUnbound" "OK status"
      "CompleteOutbound m c status = m\<lparr>sm_state := StateClosed, localUnbindFrom := StateClosed\<rparr>"
  | (rebound) "c = CommandUnbind" "sm_state m = StateUnbound" "\<not> OK status" "localUnbindFrom m \<noteq> StateClosed"
      "CompleteOutbound m c status = m\<lparr>sm_state := localUnbindFrom m, localUnbindFrom := StateClosed\<rparr>"
  | (none) "CompleteOutbound m c status = m"
proof -
  have same: "m\<lparr>localUnbindFrom := StateClosed\<rparr> = m" if "localUnbindFrom m = StateClosed" using that by (cases m) simp
  consider "isBindRequest c" "pendingLocalBind m = c" "OK status" | "isBindRequest c" "pendingLocalBind m = c" "\<not> OK status"
    | "c = CommandUnbind" "sm_state m = StateUnbound" "OK status"
    | "c = CommandUnbind" "sm_state m = StateUnbound" "\<not> OK status" "localUnbindFrom m \<noteq> StateClosed"
    | "c = CommandUnbind" "sm_state m = StateUnbound" "\<not> OK status" "localUnbindFrom m = StateClosed"
    | "isBindRequest c" "pendingLocalBind m \<noteq> c" | "\<not> isBindRequest c" "\<not> (c = CommandUnbind \<and> sm_state m = StateUnbound)"
    by blast
  then show ?thesis
  proof cases
    case 1 show ?thesis by (rule bound [OF 1]) (use 1 in \<open>simp add: CompleteOutbound_def\<close>)
  next
    case 2 show ?thesis by (rule refused [OF 2]) (use 2 in \<open>simp add: CompleteOutbound_def\<close>)
  next
    case 3 show ?thesis by (rule closed [OF 3]) (use 3 in \<open>simp add: CompleteOutbound_def\<close>)
  next
    case 4 show ?thesis by (rule rebound [OF 4]) (use 4 in \<open>simp add: CompleteOutbound_def Let_def\<close>)
  next
    case 5 show ?thesis by (rule none) (use 5 same in \<open>simp add: CompleteOutbound_def Let_def\<close>)
  next
    case 6 show ?thesis by (rule none) (use 6 in \<open>simp add: CompleteOutbound_def\<close>)
  next
    case 7 show ?thesis by (rule none) (simp only: CompleteOutbound_def if_not_P [OF 7(1)] if_not_P [OF 7(2)])
  qed
qed

lemma CompleteInbound_forms:
  obtains (bound) "isBindRequest c" "pendingPeerBind m = c" "OK status"
      "CompleteInbound m c status = m\<lparr>pendingPeerBind := 0, sm_state := boundStateForBind c\<rparr>"
  | (refused) "isBindRequest c" "pendingPeerBind m = c" "\<not> OK status" "CompleteInbound m c status = m\<lparr>pendingPeerBind := 0\<rparr>"
  | (closed) "c = CommandUnbind" "sm_state m = StateUnbound" "OK status"
      "CompleteInbound m c status = m\<lparr>sm_state := StateClosed, peerUnbindFrom := StateClosed\<rparr>"
  | (rebound) "c = CommandUnbind" "sm_state m = StateUnbound" "\<not> OK status" "peerUnbindFrom m \<noteq> StateClosed"
      "CompleteInbound m c status = m\<lparr>sm_state := peerUnbindFrom m, peerUnbindFrom := StateClosed\<rparr>"
  | (none) "CompleteInbound m c status = m"
proof -
  have same: "m\<lparr>peerUnbindFrom := StateClosed\<rparr> = m" if "peerUnbindFrom m = StateClosed" using that by (cases m) simp
  consider "isBindRequest c" "pendingPeerBind m = c" "OK status" | "isBindRequest c" "pendingPeerBind m = c" "\<not> OK status"
    | "c = CommandUnbind" "sm_state m = StateUnbound" "OK status"
    | "c = CommandUnbind" "sm_state m = StateUnbound" "\<not> OK status" "peerUnbindFrom m \<noteq> StateClosed"
    | "c = CommandUnbind" "sm_state m = StateUnbound" "\<not> OK status" "peerUnbindFrom m = StateClosed"
    | "isBindRequest c" "pendingPeerBind m \<noteq> c" | "\<not> isBindRequest c" "\<not> (c = CommandUnbind \<and> sm_state m = StateUnbound)"
    by blast
  then show ?thesis
  proof cases
    case 1 show ?thesis by (rule bound [OF 1]) (use 1 in \<open>simp add: CompleteInbound_def\<close>)
  next
    case 2 show ?thesis by (rule refused [OF 2]) (use 2 in \<open>simp add: CompleteInbound_def\<close>)
  next
    case 3 show ?thesis by (rule closed [OF 3]) (use 3 in \<open>simp add: CompleteInbound_def\<close>)
  next
    case 4 show ?thesis by (rule rebound [OF 4]) (use 4 in \<open>simp add: CompleteInbound_def Let_def\<close>)
  next
    case 5 show ?thesis by (rule none) (use 5 same in \<open>simp add: CompleteInbound_def Let_def\<close>)
  next
    case 6 show ?thesis by (rule none) (use 6 in \<open>simp add: CompleteInbound_def\<close>)
  next
    case 7 show ?thesis by (rule none) (simp only: CompleteInbound_def if_not_P [OF 7(1)] if_not_P [OF 7(2)])
  qed
qed

lemma sm_wf_Complete:
  assumes "sm_wf m"
  shows "sm_wf (CompleteOutbound m c status)" "sm_wf (CompleteInbound m c status)"
proof -
  show "sm_wf (CompleteOutbound m c status)"
    using assms boundStateForBind_bound [of c]
    by (cases rule: CompleteOutbound_forms [of c m status]) (auto simp: sm_wf_def)
  show "sm_wf (CompleteInbound m c status)"
    using assms boundStateForBind_bound [of c]
    by (cases rule: CompleteInbound_forms [of c m status]) (auto simp: sm_wf_def)
qed

lemma sm_wf_op: "sm_wf m \<Longrightarrow> sm_wf (applyOp op m)"
  by (cases op) (simp_all add: sm_wf_open sm_wf_BeginOutbound sm_wf_BeginInbound sm_wf_Cancel sm_wf_Complete)

section \<open>The life of a session\<close>

text \<open>The state diagram of SMPP, on the states alone.\<close>

inductive life :: "SessionState \<Rightarrow> SessionState \<Rightarrow> bool" where
  connect: "life StateClosed StateOpen"
| outbind: "life StateOpen StateOutbound"
| withdraw: "life StateOutbound StateOpen"
| bind: "\<lbrakk>s \<in> {StateOpen, StateOutbound}; b \<in> set boundStates\<rbrakk> \<Longrightarrow> life s b"
| unbind: "b \<in> set boundStates \<Longrightarrow> life b StateUnbound"
| rebind: "b \<in> set boundStates \<Longrightarrow> life StateUnbound b"
| close: "life s StateClosed"

lemma life_op:
  assumes wf: "sm_wf m"
  shows "sm_state (applyOp op m) = sm_state m \<or> life (sm_state m) (sm_state (applyOp op m))"
proof (cases op)
  case (OpBeginOutbound c)
  then show ?thesis by (cases rule: BeginOutbound_forms [of m c]) (auto intro: life.intros)
next
  case (OpBeginInbound c)
  then show ?thesis by (cases rule: BeginInbound_forms [of m c]) (auto intro: life.intros)
next
  case (OpCancelOutbound c)
  then show ?thesis using wf by (cases rule: CancelOutbound_forms [of c m]) (auto intro: life.intros simp: sm_wf_def)
next
  case (OpCancelInbound c)
  then show ?thesis using wf by (cases rule: CancelInbound_forms [of c m]) (auto intro: life.intros simp: sm_wf_def)
next
  case (OpCompleteOutbound c status)
  then show ?thesis using wf boundStateForBind_bound [of c]
    by (cases rule: CompleteOutbound_forms [of c m status]) (auto intro: life.intros simp: sm_wf_def)
next
  case (OpCompleteInbound c status)
  then show ?thesis using wf boundStateForBind_bound [of c]
    by (cases rule: CompleteInbound_forms [of c m status]) (auto intro: life.intros simp: sm_wf_def)
qed (auto intro: life.intros simp: machine_defs)

lemma sm_reachable_wf: "sm_reachable role m \<Longrightarrow> sm_wf m"
  by (induction rule: sm_reachable.induct) (auto intro: sm_wf_new sm_wf_op)

text \<open>C9: Every state a machine can reach, by any sequence of its operations, is consistent: a bind is
  pending on the side whose role may bind and only before the session is bound, so that never two
  are pending, and an unbind under way remembers the bound state it can be rolled back to. Every
  operation moves the session along the SMPP state diagram.\<close>

theorem machine_follows_state_diagram:
  assumes "sm_reachable role m"
  shows "sm_wf m \<and> \<not> (pendingLocalBind m \<noteq> 0 \<and> pendingPeerBind m \<noteq> 0) \<and>
    (sm_state (applyOp op m) = sm_state m \<or> life (sm_state m) (sm_state (applyOp op m)))"
  using sm_reachable_wf [OF assms] life_op by (auto simp: sm_wf_def)

theorem machine_follows_state_diagram_witness:
  "let m = \<lparr>sm_role = RoleESME, sm_state = StateOpen, pendingLocalBind = CommandBindTransceiver, pendingPeerBind = 0,
      localUnbindFrom = StateClosed, peerUnbindFrom = StateClosed\<rparr>;
     m' = applyOp (OpCompleteOutbound CommandBindTransceiver StatusOK) m
   in sm_wf m \<and> sm_state m' = StateBoundTRX \<and> life (sm_state m) (sm_state m')"
proof -
  let ?new = "\<lparr>sm_role = RoleESME, sm_state = StateClosed, pendingLocalBind = 0, pendingPeerBind = 0,
    localUnbindFrom = StateClosed, peerUnbindFrom = StateClosed\<rparr>"
  let ?m = "\<lparr>sm_role = RoleESME, sm_state = StateOpen, pendingLocalBind = CommandBindTransceiver, pendingPeerBind = 0,
    localUnbindFrom = StateClosed, peerUnbindFrom = StateClosed\<rparr>"
  let ?op = "OpCompleteOutbound CommandBindTransceiver StatusOK"
  have "sm_reachable RoleESME ?new" by (rule sm_reachable.new) (simp add: NewStateMachine_def roleValid_def)
  then have "sm_reachable RoleESME (applyOp (OpBeginOutbound CommandBindTransceiver) (applyOp OpOpen ?new))"
    by (intro sm_reachable.op)
  moreover have "applyOp (OpBeginOutbound CommandBindTransceiver) (applyOp OpOpen ?new) = ?m" by code_simp
  ultimately have "sm_reachable RoleESME ?m" by simp
  moreover have "sm_state (applyOp ?op ?m) = StateBoundTRX" by code_simp
  ultimately show ?thesis using machine_follows_state_diagram [of RoleESME ?m ?op] by (simp add: Let_def)
qed

text \<open>C10: A session becomes bound in two ways only. Either a bind that was begun is answered with success, by the side that
  may bind, and the session is bound in the mode that bind asked for; or an unbind under way is withdrawn, or answered with an error
  status, and the session returns to the bound state that was remembered when the unbind was begun.\<close>

theorem bound_only_by_successful_bind:
  assumes "sm_reachable role m" and "sm_state m \<notin> set boundStates" and "sm_state (applyOp op m) \<in> set boundStates"
  shows "(\<exists>c status. isBindRequest c \<and> OK status \<and> sm_state (applyOp op m) = boundStateForBind c \<and>
      (op = OpCompleteOutbound c status \<and> pendingLocalBind m = c \<and> sm_role m = RoleESME \<or>
       op = OpCompleteInbound c status \<and> pendingPeerBind m = c \<and> sm_role m = RoleSMSC)) \<or>
    sm_state m = StateUnbound \<and>
      (sm_state (applyOp op m) = localUnbindFrom m \<and>
         (op = OpCancelOutbound CommandUnbind \<or> (\<exists>status. \<not> OK status \<and> op = OpCompleteOutbound CommandUnbind status)) \<or>
       sm_state (applyOp op m) = peerUnbindFrom m \<and>
         (op = OpCancelInbound CommandUnbind \<or> (\<exists>status. \<not> OK status \<and> op = OpCompleteInbound CommandUnbind status)))"
proof -
  have wf: "sm_wf m" using assms(1) by (rule sm_reachable_wf)
  show ?thesis
  proof (cases op)
    case (OpCompleteOutbound c status)
    then show ?thesis using wf assms(2,3)
      by (cases rule: CompleteOutbound_forms [of c m status]) (auto simp: sm_wf_def)
  next
    case (OpCompleteInbound c status)
    then show ?thesis using wf assms(2,3)
      by (cases rule: CompleteInbound_forms [of c m status]) (auto simp: sm_wf_def)
  next
    case (OpBeginOutbound c)
    then show ?thesis using assms(2,3) by (cases rule: BeginOutbound_forms [of m c]) auto
  next
    case (OpBeginInbound c)
    then show ?thesis using assms(2,3) by (cases rule: BeginInbound_forms [of m c]) auto
  next
    case (OpCancelOutbound c)
    then show ?thesis using assms(2,3) by (cases rule: CancelOutbound_forms [of c m]) auto
  next
    case (OpCancelInbound c)
    then show ?thesis using assms(2,3) by (cases rule: CancelInbound_forms [of c m]) auto
  qed (use assms(2,3) in \<open>auto simp: machine_defs split: if_splits\<close>)
qed

theorem bound_only_by_successful_bind_witness:
  "let m = \<lparr>sm_role = RoleSMSC, sm_state = StateOpen, pendingLocalBind = 0, pendingPeerBind = CommandBindReceiver,
      localUnbindFrom = StateClosed, peerUnbindFrom = StateClosed\<rparr>
   in sm_state (applyOp (OpCompleteInbound CommandBindReceiver StatusOK) m) = boundStateForBind CommandBindReceiver"
proof -
  let ?new = "\<lparr>sm_role = RoleSMSC, sm_state = StateClosed, pendingLocalBind = 0, pendingPeerBind = 0,
    localUnbindFrom = StateClosed, peerUnbindFrom = StateClosed\<rparr>"
  let ?m = "\<lparr>sm_role = RoleSMSC, sm_state = StateOpen, pendingLocalBind = 0, pendingPeerBind = CommandBindReceiver,
    localUnbindFrom = StateClosed, peerUnbindFrom = StateClosed\<rparr>"
  let ?op = "OpCompleteInbound CommandBindReceiver StatusOK"
  have "sm_reachable RoleSMSC ?new" by (rule sm_reachable.new) (simp add: NewStateMachine_def roleValid_def)
  then have "sm_reachable RoleSMSC (applyOp (OpBeginInbound CommandBindReceiver) (applyOp OpOpen ?new))"
    by (intro sm_reachable.op)
  moreover have "applyOp (OpBeginInbound CommandBindReceiver) (applyOp OpOpen ?new) = ?m" by code_simp
  ultimately have "sm_reachable RoleSMSC ?m" by simp
  moreover have "sm_state (applyOp ?op ?m) \<in> set boundStates" by code_simp
  ultimately show ?thesis
    using bound_only_by_successful_bind [of RoleSMSC ?m ?op] by (simp add: Let_def)
qed

section \<open>Legality and rollback\<close>

definition oneWay :: "CommandID \<Rightarrow> bool" where
  "oneWay c \<longleftrightarrow> c \<in> {CommandOutbind, CommandAlertNotification}"

lemma response_rules:
  "list_all (\<lambda>(c, r). IsResponse c \<or> oneWay c \<or> (\<exists>r'. standardRules (ResponseID c) = Some r' \<and>
     actor r' = (if actor r = 0 then 0 else peer (actor r)) \<and> set (states r) \<subseteq> set (states r'))) standardTable"
  by (simp add: standardTable_def standardRules_def IsResponse_def ResponseID_def responseMask_def oneWay_def peer_def
      boundOrUnbound_def boundStates_def)

lemma open_rules:
  "list_all (\<lambda>(c, r). StateOpen \<in> set (states r) \<or> StateOutbound \<in> set (states r) \<longrightarrow>
     isBindRequest (RequestID c) \<or> c = CommandOutbind) standardTable"
  by (simp add: standardTable_def isBindRequest_def RequestID_def responseMask_def openOnly_def openOrOutbound_def
      boundOrUnbound_def boundStates_def boundTXOrTRX_def boundRXOrTRX_def boundTXOnly_def)

text \<open>C11: The rules of the two directions agree: whenever a peer may send a request in some state, the
  other peer may send the response to it in that state. Before a session is bound, only binds, their
  responses, outbind and generic_nack may be sent, and nothing in a closed one.\<close>

theorem rules_consistent:
  "(CanIssue state role c \<and> \<not> IsResponse c \<and> \<not> oneWay c \<longrightarrow> CanIssue state (peer role) (ResponseID c)) \<and>
   (CanIssue state role c \<and> state \<in> {StateOpen, StateOutbound} \<longrightarrow>
      isBindRequest (RequestID c) \<or> c = CommandOutbind \<or> c = CommandGenericNACK) \<and>
   \<not> CanIssue StateClosed role c"
proof (intro conjI impI)
  assume *: "CanIssue state role c \<and> \<not> IsResponse c \<and> \<not> oneWay c"
  then have "c \<noteq> CommandGenericNACK" by (auto simp: IsResponse_def responseMask_def)
  with * obtain r where r: "standardRules c = Some r" "allows r state role" "roleValid role" "state \<noteq> StateClosed"
    by (auto simp: CanIssue_def split: option.splits if_splits)
  then have "(c, r) \<in> set standardTable" by (auto simp: standardRules_def dest: map_of_SomeD)
  with * response_rules obtain r' where "standardRules (ResponseID c) = Some r'"
    "actor r' = (if actor r = 0 then 0 else peer (actor r))" "set (states r) \<subseteq> set (states r')"
    by (auto simp: list_all_iff)
  with r show "CanIssue state (peer role) (ResponseID c)"
    by (auto simp: CanIssue_def allows_def list_ex_iff split: if_splits)
next
  assume *: "CanIssue state role c \<and> state \<in> {StateOpen, StateOutbound}"
  show "isBindRequest (RequestID c) \<or> c = CommandOutbind \<or> c = CommandGenericNACK"
  proof (cases "c = CommandGenericNACK")
    case False
    with * obtain r where r: "standardRules c = Some r" "allows r state role"
      by (auto simp: CanIssue_def split: option.splits if_splits)
    then have "(c, r) \<in> set standardTable" "state \<in> set (states r)"
      by (auto simp: standardRules_def allows_def list_ex_iff split: if_splits dest: map_of_SomeD)
    with * open_rules show ?thesis by (auto simp: list_all_iff)
  qed simp
qed (simp add: CanIssue_def)

theorem rules_consistent_witness:
  "CanIssue StateBoundTRX (peer RoleESME) (ResponseID CommandSubmitSM)"
proof -
  have "CanIssue StateBoundTRX RoleESME CommandSubmitSM \<and> \<not> IsResponse CommandSubmitSM \<and> \<not> oneWay CommandSubmitSM"
    by code_simp
  then show ?thesis using rules_consistent [of StateBoundTRX RoleESME CommandSubmitSM] by blast
qed

text \<open>C12: Withdrawing a local operation that was begun, whatever the command, restores the machine it was begun in, except that after
  an unbind the remembered state is the closed one. Withdrawing an operation of the peer does the same for every command but outbind,
  which is not rolled back: the machine stays in the outbound state.\<close>

theorem cancel_undoes_begin:
  "(BeginOutbound m c = (None, m') \<longrightarrow>
      CancelOutbound m' c = m\<lparr>localUnbindFrom := if c = CommandUnbind then StateClosed else localUnbindFrom m\<rparr>) \<and>
   (BeginInbound m c = (None, m') \<longrightarrow>
      CancelInbound m' c =
        (if c = CommandOutbind then m\<lparr>sm_state := StateOutbound\<rparr>
         else m\<lparr>peerUnbindFrom := if c = CommandUnbind then StateClosed else peerUnbindFrom m\<rparr>))"
proof -
  have "CancelOutbound m' c = m\<lparr>localUnbindFrom := if c = CommandUnbind then StateClosed else localUnbindFrom m\<rparr>"
    if "BeginOutbound m c = (None, m')"
    using that by (cases rule: BeginOutbound_forms [of m c]) (auto simp: CancelOutbound_def Let_def boundStates_def)
  moreover have "CancelInbound m' c =
      (if c = CommandOutbind then m\<lparr>sm_state := StateOutbound\<rparr>
       else m\<lparr>peerUnbindFrom := if c = CommandUnbind then StateClosed else peerUnbindFrom m\<rparr>)"
    if "BeginInbound m c = (None, m')"
    using that by (cases rule: BeginInbound_forms [of m c]) (auto simp: CancelInbound_def Let_def boundStates_def)
  ultimately show ?thesis by blast
qed

theorem cancel_undoes_begin_witness:
  "let m = \<lparr>sm_role = RoleESME, sm_state = StateBoundTX, pendingLocalBind = 0, pendingPeerBind = 0,
      localUnbindFrom = StateClosed, peerUnbindFrom = StateClosed\<rparr>
   in CancelOutbound (snd (BeginOutbound m CommandUnbind)) CommandUnbind = m"
proof -
  let ?m = "\<lparr>sm_role = RoleESME, sm_state = StateBoundTX, pendingLocalBind = 0, pendingPeerBind = 0,
    localUnbindFrom = StateClosed, peerUnbindFrom = StateClosed\<rparr>"
  let ?m' = "?m\<lparr>localUnbindFrom := StateBoundTX, sm_state := StateUnbound\<rparr>"
  have "BeginOutbound ?m CommandUnbind = (None, ?m')" by code_simp
  then show ?thesis using cancel_undoes_begin [of ?m CommandUnbind ?m'] by (simp add: Let_def)
qed

end
