(* ===== verification/Window.thy ===== *)
theory Window
  imports StateMachine
begin

text \<open>
  Sequence numbers (\<^verbatim>\<open>session/sequence.go\<close>) and the window of outstanding requests
  (\<^verbatim>\<open>session/window.go\<close>). The compare-and-swap loop of the generator is one step; the token channel is the
  number of tokens in it. \<open>acquire\<close> and \<open>release\<close> are modelled twice: as one call that nobody interferes with, the form
  the session uses, and as the sequence of channel operations and atomic updates of concurrent callers. The
  observer of the window is called after each operation and changes nothing.
\<close>

section \<open>Sequence numbers\<close>

text \<open>The successor of the generator's value, which is also the number returned.\<close>

definition nextSequence :: "u32 \<Rightarrow> u32" where
  "nextSequence current =
     (let next = current + 1 in
      if current \<ge> SequenceOutboundMax \<or> next = 0 then SequenceMin else next)"

lemma nextSequence_valid: "ValidOutbound (nextSequence v)"
proof (cases "v \<ge> SequenceOutboundMax \<or> v + 1 = 0")
  case False
  then have v: "unat v < 0x7FFFFFFF" by (simp add: not_le word_less_nat_alt)
  then have "unat (v + 1) = unat v + 1" by (subst unat_add_lem [THEN iffD1]) simp_all
  with v False show ?thesis
    by (simp add: nextSequence_def ValidOutbound_def Let_def word_le_nat_alt)
qed (simp add: nextSequence_def ValidOutbound_def Let_def)

lemma unat_nextSequence:
  assumes "ValidOutbound v"
  shows "unat (nextSequence v) = unat v mod 0x7FFFFFFF + 1"
proof -
  have v: "1 \<le> unat v" "unat v \<le> 0x7FFFFFFF"
    using assms by (simp_all add: ValidOutbound_def word_le_nat_alt)
  have succ: "unat (v + 1) = unat v + 1"
    using v by (subst unat_add_lem [THEN iffD1]) simp_all
  show ?thesis
  proof (cases "unat v = 0x7FFFFFFF")
    case True
    then have "v \<ge> SequenceOutboundMax" by (simp add: word_le_nat_alt)
    with True show ?thesis by (simp add: nextSequence_def Let_def)
  next
    case False
    then have "\<not> v \<ge> SequenceOutboundMax" "v + 1 \<noteq> 0"
      using v succ by (auto simp: word_le_nat_alt simp flip: unat_eq_0)
    with False v succ show ?thesis by (simp add: nextSequence_def Let_def)
  qed
qed

lemma unat_iterate_nextSequence:
  assumes "ValidOutbound v"
  shows "ValidOutbound ((nextSequence ^^ n) v) \<and> unat ((nextSequence ^^ n) v) = (unat v - 1 + n) mod 0x7FFFFFFF + 1"
proof (induction n)
  case 0
  have "1 \<le> unat v" "unat v \<le> 0x7FFFFFFF"
    using assms by (simp_all add: ValidOutbound_def word_le_nat_alt)
  then show ?case using assms by simp
next
  case (Suc n)
  then show ?case
    using nextSequence_valid by (simp add: unat_nextSequence mod_Suc_eq)
qed

text \<open>C15: The generator only returns numbers of the outbound range, and returns no number twice within
  2147483647 consecutive calls: it runs through the whole range before it wraps around to 1.\<close>

theorem sequence_numbers_distinct:
  "ValidOutbound (nextSequence v) \<and>
   (i < j \<and> j \<le> i + 0x7FFFFFFE \<longrightarrow> (nextSequence ^^ Suc i) v \<noteq> (nextSequence ^^ Suc j) v)"
proof (intro conjI impI)
  assume *: "i < j \<and> j \<le> i + 0x7FFFFFFE"
  let ?u = "nextSequence v" and ?M = "0x7FFFFFFF :: nat"
  show "(nextSequence ^^ Suc i) v \<noteq> (nextSequence ^^ Suc j) v"
  proof
    assume "(nextSequence ^^ Suc i) v = (nextSequence ^^ Suc j) v"
    then have "(nextSequence ^^ i) ?u = (nextSequence ^^ j) ?u" by (simp add: funpow_swap1)
    then have "(unat ?u - 1 + i) mod ?M = (unat ?u - 1 + j) mod ?M"
      using unat_iterate_nextSequence [OF nextSequence_valid, of i v] unat_iterate_nextSequence [OF nextSequence_valid, of j v]
      by simp
    then have "?M dvd (unat ?u - 1 + j) - (unat ?u - 1 + i)"
      using * by (intro mod_eq_dvd_iff_nat [THEN iffD1]) simp_all
    then show False using * by (auto dest: dvd_imp_le)
  qed
qed (rule nextSequence_valid)

theorem sequence_numbers_distinct_witness:
  "nextSequence 0x7FFFFFFF = 1 \<and> (nextSequence ^^ Suc 0) 0x7FFFFFFF \<noteq> (nextSequence ^^ Suc 1) 0x7FFFFFFF"
proof
  show "nextSequence 0x7FFFFFFF = 1" by (simp add: nextSequence_def)
  show "(nextSequence ^^ Suc 0) 0x7FFFFFFF \<noteq> (nextSequence ^^ Suc 1) 0x7FFFFFFF"
    using sequence_numbers_distinct [of "0x7FFFFFFF" 0 1] by simp
qed

section \<open>The request window\<close>

text \<open>\<open>rw_tokens\<close> is the number of tokens in the channel, \<open>rw_size\<close> its capacity.\<close>

record requestWindow =
  rw_size       :: nat
  rw_tokens     :: nat
  rw_capacity   :: u32
  rw_inUse      :: u32
  rw_high       :: u32
  rw_acquired   :: u64
  rw_waits      :: u64
  rw_underflows :: u64

definition newRequestWindow :: "nat \<Rightarrow> requestWindow" where
  "newRequestWindow n = \<lparr>rw_size = n, rw_tokens = 0, rw_capacity = of_nat n, rw_inUse = 0, rw_high = 0,
     rw_acquired = 0, rw_waits = 0, rw_underflows = 0\<rparr>"

definition afterAcquire :: "requestWindow \<Rightarrow> requestWindow" where
  "afterAcquire w =
     (let inUse = rw_inUse w + 1 in
      w\<lparr>rw_inUse := inUse, rw_acquired := rw_acquired w + 1,
        rw_high := if inUse \<le> rw_high w then rw_high w else inUse\<rparr>)"

text \<open>
  A send on the token channel, possible only while it is not full, and a receive from it, possible only while
  it is not empty. \<open>takeSlot\<close> is what a successful \<open>acquire\<close> does when nobody interferes.
\<close>

definition takeToken :: "requestWindow \<Rightarrow> requestWindow option" where
  "takeToken w = (if rw_tokens w < rw_size w then Some (w\<lparr>rw_tokens := rw_tokens w + 1\<rparr>) else None)"

definition returnToken :: "requestWindow \<Rightarrow> requestWindow option" where
  "returnToken w = (if 0 < rw_tokens w then Some (w\<lparr>rw_tokens := rw_tokens w - 1\<rparr>) else None)"

definition takeSlot :: "requestWindow \<Rightarrow> requestWindow option" where
  "takeSlot w = map_option afterAcquire (takeToken w)"

datatype admission = Admitted requestWindow | Refused session_error requestWindow | Blocked requestWindow

definition acquire :: "requestWindow \<Rightarrow> bool \<Rightarrow> admission" where
  "acquire w wait =
     (case takeSlot w of
        Some w' \<Rightarrow> Admitted w'
      | None \<Rightarrow> if \<not> wait then Refused ErrWindowFull w else Blocked (w\<lparr>rw_waits := rw_waits w + 1\<rparr>))"

text \<open>What a blocked caller waits for: a free token, the end of its context, the end of the session.\<close>

datatype wake = TokenFree | ContextDone string | SessionDone

definition wakeAcquire :: "requestWindow \<Rightarrow> wake \<Rightarrow> admission" where
  "wakeAcquire w event =
     (case event of
        TokenFree \<Rightarrow> (case takeSlot w of Some w' \<Rightarrow> Admitted w' | None \<Rightarrow> Blocked w)
      | ContextDone e \<Rightarrow> Refused (ContextError e) w
      | SessionDone \<Rightarrow> Refused ErrSessionClosed w)"

definition release :: "requestWindow \<Rightarrow> bool \<times> requestWindow" where
  "release w =
     (case returnToken w of
        Some w' \<Rightarrow> (True, w'\<lparr>rw_inUse := rw_inUse w' + NOT 0\<rparr>)
      | None \<Rightarrow> (False, w\<lparr>rw_underflows := rw_underflows w + 1\<rparr>))"

definition window_inv :: "requestWindow \<Rightarrow> bool" where
  "window_inv w \<longleftrightarrow> rw_size w < 2 ^ 32 \<and> rw_tokens w \<le> rw_size w \<and> rw_capacity w = of_nat (rw_size w) \<and>
     rw_inUse w = of_nat (rw_tokens w) \<and> rw_inUse w \<le> rw_high w \<and> rw_high w \<le> rw_capacity w"

lemma window_inv_new: "n < 2 ^ 32 \<Longrightarrow> window_inv (newRequestWindow n)"
  by (simp add: window_inv_def newRequestWindow_def)

lemma of_nat_u32_le: "\<lbrakk>a \<le> b; b < 2 ^ 32\<rbrakk> \<Longrightarrow> (of_nat a :: u32) \<le> of_nat b"
  by (simp add: word_le_nat_alt unat_of_nat)

lemma window_inv_takeSlot:
  assumes "window_inv w" "takeSlot w = Some w'"
  shows "window_inv w' \<and> rw_tokens w' = rw_tokens w + 1 \<and> rw_size w' = rw_size w"
proof -
  have *: "rw_tokens w < rw_size w" "w' = afterAcquire (w\<lparr>rw_tokens := rw_tokens w + 1\<rparr>)"
    using assms(2) by (auto simp: takeSlot_def takeToken_def split: if_splits)
  then have "(of_nat (rw_tokens w + 1) :: u32) \<le> of_nat (rw_size w)"
    using assms(1) by (intro of_nat_u32_le) (simp_all add: window_inv_def)
  with * assms(1) show ?thesis
    by (auto simp: window_inv_def afterAcquire_def Let_def ac_simps)
qed

lemma window_inv_release:
  assumes "window_inv w" "release w = (r, w')"
  shows "window_inv w' \<and> rw_size w' = rw_size w \<and> (r \<longleftrightarrow> 0 < rw_tokens w) \<and> rw_tokens w' = rw_tokens w - 1"
proof (cases "0 < rw_tokens w")
  case True
  then obtain n where n: "rw_tokens w = Suc n" using gr0_implies_Suc by blast
  have "(of_nat n :: u32) \<le> of_nat (Suc n)"
    using assms(1) n by (intro of_nat_u32_le) (simp_all add: window_inv_def)
  with n assms show ?thesis by (auto simp: window_inv_def release_def returnToken_def)
next
  case False
  with assms show ?thesis by (auto simp: window_inv_def release_def returnToken_def)
qed

text \<open>The contract of a counting semaphore, and its runs.\<close>

locale semaphore =
  fixes inv :: "'w \<Rightarrow> bool"
    and used :: "'w \<Rightarrow> nat"
    and limit :: "'w \<Rightarrow> nat"
    and take_slot :: "'w \<Rightarrow> 'w option"
    and give_slot :: "'w \<Rightarrow> 'w"
  assumes used_le: "inv w \<Longrightarrow> used w \<le> limit w"
    and take_Some: "\<lbrakk>inv w; take_slot w = Some w'\<rbrakk> \<Longrightarrow> inv w' \<and> used w' = used w + 1 \<and> limit w' = limit w"
    and take_None: "inv w \<Longrightarrow> take_slot w = None \<longleftrightarrow> used w = limit w"
    and give: "inv w \<Longrightarrow> inv (give_slot w) \<and> used (give_slot w) = used w - 1 \<and> limit (give_slot w) = limit w"
begin

lemma take_give: "\<lbrakk>inv w; take_slot w = Some w'\<rbrakk> \<Longrightarrow> used (give_slot w') = used w"
  using take_Some give by fastforce

end

interpretation windowSlots: semaphore window_inv rw_tokens rw_size takeSlot "\<lambda>w. snd (release w)"
proof
  fix w w' assume w: "window_inv w"
  show "rw_tokens w \<le> rw_size w" using w by (simp add: window_inv_def)
  show "takeSlot w = None \<longleftrightarrow> rw_tokens w = rw_size w" using w by (auto simp: takeSlot_def takeToken_def window_inv_def)
  show "window_inv (snd (release w)) \<and> rw_tokens (snd (release w)) = rw_tokens w - 1 \<and> rw_size (snd (release w)) = rw_size w"
    using window_inv_release [OF w, of "fst (release w)" "snd (release w)"] by simp
  assume "takeSlot w = Some w'"
  with w show "window_inv w' \<and> rw_tokens w' = rw_tokens w + 1 \<and> rw_size w' = rw_size w"
    by (rule window_inv_takeSlot)
qed

section \<open>Concurrent callers of the window\<close>

text \<open>
  Each access to the channel and to the atomic counters is a step of its own, and the steps of the goroutines interleave.
  An actor is one use of a slot: where its goroutine is inside \<open>acquire\<close> and \<open>afterAcquire\<close>, whether it
  holds the slot, where the goroutine that gives it back is inside \<open>release\<close>. \<open>ACounted v\<close> and \<open>ALoad v\<close> carry
  the result of \<open>inUse.Add(1)\<close>, \<open>ASwap v old\<close> also the value loaded from \<open>high\<close>.
\<close>

datatype windowActor = AIdle | AMissed | AWaiting | ASent | ACounted u32 | ALoad u32 | ASwap u32 u32 | AHolding | AReceived

datatype windowChoice = Call bool | Proceed | GiveUp | Release

fun actorStep :: "windowChoice \<Rightarrow> requestWindow \<Rightarrow> windowActor \<Rightarrow> requestWindow \<times> windowActor" where
  "actorStep (Call wait) w AIdle =
     (case takeToken w of Some w' \<Rightarrow> (w', ASent) | None \<Rightarrow> if \<not> wait then (w, AIdle) else (w, AMissed))"
| "actorStep Proceed w AMissed = (w\<lparr>rw_waits := rw_waits w + 1\<rparr>, AWaiting)"
| "actorStep Proceed w AWaiting = (case takeToken w of Some w' \<Rightarrow> (w', ASent) | None \<Rightarrow> (w, AWaiting))"
| "actorStep GiveUp w AWaiting = (w, AIdle)"
| "actorStep Proceed w ASent = (w\<lparr>rw_inUse := rw_inUse w + 1\<rparr>, ACounted (rw_inUse w + 1))"
| "actorStep Proceed w (ACounted v) = (w\<lparr>rw_acquired := rw_acquired w + 1\<rparr>, ALoad v)"
| "actorStep Proceed w (ALoad v) = (if v \<le> rw_high w then (w, AHolding) else (w, ASwap v (rw_high w)))"
| "actorStep Proceed w (ASwap v old) = (if rw_high w = old then (w\<lparr>rw_high := v\<rparr>, AHolding) else (w, ALoad v))"
| "actorStep Release w AHolding =
     (case returnToken w of Some w' \<Rightarrow> (w', AReceived) | None \<Rightarrow> (w\<lparr>rw_underflows := rw_underflows w + 1\<rparr>, AIdle))"
| "actorStep Proceed w AReceived = (w\<lparr>rw_inUse := rw_inUse w + NOT 0\<rparr>, AIdle)"
| "actorStep _ w a = (w, a)"

definition windowStep :: "nat \<times> windowChoice \<Rightarrow> requestWindow \<times> windowActor list \<Rightarrow> requestWindow \<times> windowActor list" where
  "windowStep ic wa =
     (case (ic, wa) of ((i, c), (w, as)) \<Rightarrow>
        if i < length as then let (w', a) = actorStep c w (as ! i) in (w', as[i := a]) else (w, as))"

text \<open>Who has a token in the channel, and whose part of \<open>inUse\<close> is counted.\<close>

fun ownsToken :: "windowActor \<Rightarrow> bool" where
  "ownsToken AIdle = False"
| "ownsToken AMissed = False"
| "ownsToken AWaiting = False"
| "ownsToken AReceived = False"
| "ownsToken _ = True"

definition inCounter :: "windowActor \<Rightarrow> bool" where
  "inCounter a \<longleftrightarrow> a = AReceived \<or> ownsToken a \<and> a \<noteq> ASent"

definition owners :: "windowActor list \<Rightarrow> nat" where
  "owners as = length (filter ownsToken as)"

definition quiescent :: "windowActor list \<Rightarrow> bool" where
  "quiescent as \<longleftrightarrow> set as \<subseteq> {AIdle, AMissed, AWaiting, AHolding}"

definition actors_inv :: "nat \<Rightarrow> requestWindow \<times> windowActor list \<Rightarrow> bool" where
  "actors_inv n wa \<longleftrightarrow> (case wa of (w, as) \<Rightarrow> rw_size w = n \<and> rw_capacity w = of_nat n \<and> rw_tokens w = owners as \<and> rw_tokens w \<le> n \<and>
     rw_inUse w = of_nat (length (filter inCounter as)) \<and> rw_underflows w = 0)"

lemma length_filter_update:
  "i < length xs \<Longrightarrow> length (filter P (xs[i := y])) + of_bool (P (xs ! i)) = length (filter P xs) + of_bool (P y)"
proof (induction xs arbitrary: i)
  case (Cons x xs)
  then show ?case by (cases i) (use Cons.IH in fastforce)+
qed simp

text \<open>What one step of an actor does to the number of owners and of counted slots.\<close>

lemma actorStep_counts:
  assumes "actorStep c w a = (w', a')" "ownsToken a \<longrightarrow> 0 < rw_tokens w"
  shows "rw_size w' = rw_size w \<and> rw_capacity w' = rw_capacity w \<and> rw_underflows w' = rw_underflows w \<and>
    rw_tokens w' + of_bool (ownsToken a) = rw_tokens w + of_bool (ownsToken a') \<and>
    rw_inUse w' + of_bool (inCounter a) = rw_inUse w + of_bool (inCounter a') \<and>
    (rw_tokens w \<le> rw_size w \<longrightarrow> rw_tokens w' \<le> rw_size w')"
  using assms by (cases "(c, w, a)" rule: actorStep.cases)
    (auto simp: takeToken_def returnToken_def inCounter_def split: if_splits)

lemma actors_inv_step:
  assumes "actors_inv n wa"
  shows "actors_inv n (windowStep ic wa)"
proof -
  obtain i c w as where d: "ic = (i, c)" "wa = (w, as)" by (metis surj_pair)
  show ?thesis
  proof (cases "i < length as")
    case True
    obtain w' a' where s: "actorStep c w (as ! i) = (w', a')" by (metis surj_pair)
    have "ownsToken (as ! i) \<longrightarrow> 0 < rw_tokens w"
      using assms True by (auto simp: d actors_inv_def owners_def filter_empty_conv)
    note k = actorStep_counts [OF s this]
    have "rw_tokens w' = owners (as[i := a'])"
      using k assms length_filter_update [OF True, of ownsToken a'] by (auto simp: d actors_inv_def owners_def)
    moreover have "rw_inUse w' = of_nat (length (filter inCounter (as[i := a'])))"
    proof -
      have "rw_inUse w' + of_bool (inCounter (as ! i)) = of_nat (length (filter inCounter as) + of_bool (inCounter a'))"
        using k assms by (simp add: d actors_inv_def)
      also have "\<dots> = of_nat (length (filter inCounter (as[i := a']))) + of_bool (inCounter (as ! i))"
        unfolding length_filter_update [OF True, symmetric] by simp
      finally show ?thesis by simp
    qed
    ultimately show ?thesis using k assms True s by (simp add: d windowStep_def actors_inv_def)
  qed (use assms in \<open>simp add: d windowStep_def\<close>)
qed

lemma actors_inv_run: "actors_inv n wa \<Longrightarrow> actors_inv n (fold windowStep steps wa)"
  by (induction steps arbitrary: wa) (simp_all add: actors_inv_step)

lemma actors_inv_start: "actors_inv n (newRequestWindow n, replicate k AIdle)"
  by (simp add: actors_inv_def newRequestWindow_def owners_def inCounter_def)

text \<open>With nobody interfering, the steps of one actor are \<open>acquire\<close> and \<open>release\<close>.\<close>

definition alone :: "windowChoice list \<Rightarrow> requestWindow \<times> windowActor \<Rightarrow> requestWindow \<times> windowActor" where
  "alone cs wa = fold (\<lambda>c (w, a). actorStep c w a) cs wa"

lemma alone_acquire:
  "alone [Call wait, Proceed, Proceed, Proceed, Proceed] (w, AIdle) =
     (case acquire w wait of Admitted w' \<Rightarrow> (w', AHolding) | Refused e w' \<Rightarrow> (w', AIdle) | Blocked w' \<Rightarrow> (w', AWaiting))"
  by (auto simp: alone_def acquire_def takeSlot_def takeToken_def afterAcquire_def Let_def)

lemma alone_release: "alone [Release, Proceed] (w, AHolding) = (snd (release w), AIdle)"
  by (auto simp: alone_def release_def returnToken_def)

text \<open>C13: Whatever the interleaving of the channel operations and counter updates of any number of callers that try to
  acquire, wait, give up and release: the tokens in the channel are exactly the slots owned, never more than the size of
  the window; an acquire finds a slot exactly when fewer than that are owned; a release always finds the token it
  returns, so that no underflow is counted; inUse counts, modulo its width, the slots owned without those not yet
  added and with those given back and not yet subtracted; when no acquire or release is half way, it is the number
  of slots owned.\<close>

theorem window_never_exceeded:
  assumes "n < 2 ^ 32" and "fold windowStep steps (newRequestWindow n, replicate k AIdle) = (w, as)"
  shows "rw_tokens w = owners as \<and> owners as \<le> n \<and> rw_underflows w = 0 \<and>
    ((\<exists>w'. acquire w wait = Admitted w') \<longleftrightarrow> owners as < n) \<and>
    rw_inUse w + of_nat (count_list as ASent) = of_nat (owners as) + of_nat (count_list as AReceived) \<and>
    (AHolding \<in> set as \<longrightarrow> fst (release w)) \<and>
    (quiescent as \<longrightarrow> unat (rw_inUse w) = owners as)"
proof -
  have inv: "actors_inv n (w, as)"
    using actors_inv_run [OF actors_inv_start, of n steps k] assms(2) by simp
  have "length (filter inCounter as) + count_list as ASent = owners as + count_list as AReceived"
    unfolding owners_def by (induction as) (auto simp: inCounter_def)
  from arg_cong [OF this, of "of_nat :: nat \<Rightarrow> u32"]
  have "rw_inUse w + of_nat (count_list as ASent) = of_nat (owners as) + of_nat (count_list as AReceived)"
    using inv by (simp add: actors_inv_def)
  moreover have "unat (rw_inUse w) = owners as" if "quiescent as"
  proof -
    have "count_list as ASent = 0" "count_list as AReceived = 0"
      using that by (auto simp: quiescent_def count_list_0_iff)
    then have "rw_inUse w = of_nat (owners as)" using calculation by simp
    moreover have "owners as < 2 ^ 32" using inv assms(1) by (simp add: actors_inv_def)
    ultimately show ?thesis by (simp add: unat_of_nat)
  qed
  moreover have "0 < owners as" if "AHolding \<in> set as"
    using that by (auto simp: owners_def filter_empty_conv intro: bexI [of _ AHolding])
  ultimately show ?thesis using inv assms(1)
    by (auto simp: actors_inv_def acquire_def takeSlot_def takeToken_def release_def returnToken_def)
qed

theorem window_never_exceeded_witness:
  "let (w, as) = fold windowStep [(0, Call True), (0, Proceed), (1, Call True), (2, Call True), (1, Proceed), (2, Proceed), (0, Proceed),
       (0, Proceed), (0, Proceed), (0, Release), (2, Proceed)] (newRequestWindow 2, replicate 3 AIdle)
   in owners as = 2 \<and> rw_tokens w = 2 \<and> rw_inUse w + 1 = 2 + 1 \<and> \<not> (\<exists>w'. acquire w False = Admitted w')"
proof -
  let ?s = "[(0, Call True), (0, Proceed), (1, Call True), (2, Call True), (1, Proceed), (2, Proceed), (0, Proceed),
       (0, Proceed), (0, Proceed), (0, Release), (2, Proceed)]"
  have "case fold windowStep ?s (newRequestWindow 2, replicate 3 AIdle) of (w, as) \<Rightarrow> as = [AReceived, ACounted 2, ASent]"
    by code_simp
  then obtain w where "fold windowStep ?s (newRequestWindow 2, replicate 3 AIdle) = (w, [AReceived, ACounted 2, ASent])" by auto
  with window_never_exceeded [OF _ this, of False] show ?thesis by (simp add: owners_def)
qed

text \<open>A full acquire by the next idle actor, with nobody interfering.\<close>

lemma acquire_next:
  assumes "as ! i = AIdle" "i < length as" "rw_tokens w < rw_size w" "rw_high w < rw_inUse w + 1"
  shows "fold windowStep (map (Pair i) [Call False, Proceed, Proceed, Proceed, Proceed]) (w, as) =
    (w\<lparr>rw_tokens := rw_tokens w + 1, rw_inUse := rw_inUse w + 1, rw_acquired := rw_acquired w + 1, rw_high := rw_inUse w + 1\<rparr>,
     as[i := AHolding])"
  using assms by (simp add: windowStep_def takeToken_def not_le)

lemma acquire_all:
  assumes "n < 2 ^ 32" "j \<le> n"
  shows "\<exists>steps w. fold windowStep steps (newRequestWindow n, replicate (n + 1) AIdle) =
      (w, replicate j AHolding @ replicate (n + 1 - j) AIdle) \<and>
    rw_size w = n \<and> rw_tokens w = j \<and> rw_inUse w = of_nat j \<and> rw_high w = of_nat j"
  using assms(2)
proof (induction j)
  case 0
  show ?case by (rule exI [of _ "[]"]) (simp add: newRequestWindow_def)
next
  case (Suc j)
  then obtain steps w where run: "fold windowStep steps (newRequestWindow n, replicate (n + 1) AIdle) =
      (w, replicate j AHolding @ replicate (n + 1 - j) AIdle)"
    and w: "rw_size w = n" "rw_tokens w = j" "rw_inUse w = of_nat j" "rw_high w = of_nat j" by auto
  have "(of_nat j :: u32) < of_nat (Suc j)"
    using Suc.prems assms(1) by (simp add: word_less_nat_alt unat_of_nat del: of_nat_Suc)
  then have "rw_high w < rw_inUse w + 1" using w by (simp add: add.commute)
  moreover have "(replicate j AHolding @ replicate (n + 1 - j) AIdle)[j := AHolding] =
      replicate (Suc j) AHolding @ replicate (n + 1 - Suc j) AIdle"
    using Suc.prems by (cases "n - j") (simp_all add: Suc_diff_le list_update_append replicate_append_same [symmetric])
  ultimately show ?case
    using acquire_next [of "replicate j AHolding @ replicate (n + 1 - j) AIdle" j w] run w Suc.prems
    by (intro exI [of _ "steps @ map (Pair j) [Call False, Proceed, Proceed, Proceed, Proceed]"])
      (simp add: nth_append add.commute)
qed

text \<open>C14: The recorded high-water mark can exceed the number of slots ever held at once, and the capacity: for every size of the
  window there is a run, with one caller more than slots, that ends with nobody half way through an operation,
  all slots owned, and a high-water mark of one more than the capacity (a release takes its token out of the channel before
  it subtracts from inUse, so that the next caller is counted on top of it).\<close>

theorem high_water_overshoots:
  assumes "0 < n" "n + 1 < 2 ^ 32"
  shows "\<exists>steps w as. fold windowStep steps (newRequestWindow n, replicate (n + 1) AIdle) = (w, as) \<and> quiescent as \<and>
    owners as = n \<and> unat (rw_capacity w) = n \<and> unat (rw_high w) = n + 1"
proof -
  obtain steps w where run: "fold windowStep steps (newRequestWindow n, replicate (n + 1) AIdle) = (w, replicate n AHolding @ [AIdle])"
    and w: "rw_size w = n" "rw_tokens w = n" "rw_inUse w = of_nat n" "rw_high w = of_nat n"
    using acquire_all [of n n] assms by auto
  obtain m where m: "n = Suc m" using assms(1) gr0_implies_Suc by blast
  let ?w1 = "w\<lparr>rw_tokens := m\<rparr>" and ?as1 = "AReceived # replicate m AHolding @ [AIdle]"
  have s1: "windowStep (0, Release) (w, replicate n AHolding @ [AIdle]) = (?w1, ?as1)"
    using w by (simp add: m windowStep_def returnToken_def)
  have "(of_nat n :: u32) < of_nat (Suc n)" using assms(2) by (simp add: word_less_nat_alt unat_of_nat del: of_nat_Suc)
  then have lt: "rw_high ?w1 < rw_inUse ?w1 + 1" using w by (simp add: add.commute)
  define w2 where "w2 = ?w1\<lparr>rw_tokens := rw_tokens ?w1 + 1, rw_inUse := rw_inUse ?w1 + 1,
     rw_acquired := rw_acquired ?w1 + 1, rw_high := rw_inUse ?w1 + 1\<rparr>"
  have s2: "fold windowStep (map (Pair n) [Call False, Proceed, Proceed, Proceed, Proceed]) (?w1, ?as1) = (w2, ?as1[n := AHolding])"
    unfolding w2_def using lt w by (intro acquire_next) (simp_all add: m nth_append)
  have as2: "?as1[n := AHolding] = AReceived # replicate n AHolding"
    by (simp add: m list_update_append replicate_append_same)
  have s3: "windowStep (0, Proceed) (w2, ?as1[n := AHolding]) = (w2\<lparr>rw_inUse := rw_inUse w2 + NOT 0\<rparr>, AIdle # replicate n AHolding)"
    unfolding as2 by (simp add: windowStep_def)
  have "fold windowStep (steps @ [(0, Release)] @ map (Pair n) [Call False, Proceed, Proceed, Proceed, Proceed] @ [(0, Proceed)])
      (newRequestWindow n, replicate (n + 1) AIdle) = (w2\<lparr>rw_inUse := rw_inUse w2 + NOT 0\<rparr>, AIdle # replicate n AHolding)"
    unfolding fold_append comp_apply run fold_simps s1 s2 s3 id_apply ..
  moreover have "actors_inv n (fold windowStep steps (newRequestWindow n, replicate (n + 1) AIdle))"
    by (intro actors_inv_run actors_inv_start)
  then have "rw_capacity w = of_nat n" unfolding run by (simp add: actors_inv_def)
  then have "unat (rw_capacity w2) = n" using assms(2) by (simp add: w2_def unat_of_nat)
  moreover have "rw_high w2 = of_nat (n + 1)" using w by (simp add: w2_def add.commute)
  then have "unat (rw_high w2) = n + 1" using assms(2) by (simp add: unat_of_nat del: of_nat_add of_nat_Suc)
  moreover have "quiescent (AIdle # replicate n AHolding)" "owners (AIdle # replicate n AHolding) = n"
    by (auto simp: quiescent_def owners_def)
  ultimately show ?thesis by (intro exI conjI) (assumption, simp_all)
qed

theorem high_water_overshoots_witness:
  "\<exists>steps w as. fold windowStep steps (newRequestWindow 2, replicate 3 AIdle) = (w, as) \<and> quiescent as \<and> owners as = 2 \<and>
     unat (rw_capacity w) = 2 \<and> unat (rw_high w) = 3"
  using high_water_overshoots [of 2] by (simp add: numeral_3_eq_3)

end
