(* ===== verification/Deadlines.thy ===== *)
theory Deadlines
  imports StateMachine "HOL-Library.Multiset"
begin

text \<open>
  The deadline manager (\<^verbatim>\<open>session/deadline.go\<close>): a binary heap kept by the standard package
  \<^verbatim>\<open>container/heap\<close>, whose \<^verbatim>\<open>Push\<close>, \<^verbatim>\<open>Pop\<close> and \<^verbatim>\<open>Remove\<close> are written out. An item is a pointer in the code:
  \<open>di_ref\<close> is its address, and the field \<^verbatim>\<open>index\<close> of the item at an address is \<open>dm_index\<close>. The timer
  goroutine is not modelled, only the steps it takes under the mutex.
\<close>

section \<open>The heap\<close>

record deadlineItem =
  di_ref      :: nat
  di_at       :: int
  di_after    :: Duration
  di_kind     :: TimeoutKind
  di_command  :: CommandID
  di_sequence :: SequenceNumber

record deadlineManager =
  dm_heap  :: "deadlineItem list"
  dm_index :: "nat \<Rightarrow> int"
  dm_wake  :: bool

definition newDeadlineManager :: deadlineManager where
  "newDeadlineManager = \<lparr>dm_heap = [], dm_index = (\<lambda>_. 0), dm_wake = False\<rparr>"

definition lessAt :: "deadlineManager \<Rightarrow> nat \<Rightarrow> nat \<Rightarrow> bool" where
  "lessAt m i j \<longleftrightarrow> di_at (dm_heap m ! i) < di_at (dm_heap m ! j)"

definition swapItems :: "deadlineManager \<Rightarrow> nat \<Rightarrow> nat \<Rightarrow> deadlineManager" where
  "swapItems m i j =
     (let h = dm_heap m; h' = h[i := h ! j, j := h ! i] in
      m\<lparr>dm_heap := h', dm_index := (dm_index m)(di_ref (h' ! i) := int i, di_ref (h' ! j) := int j)\<rparr>)"

definition pushItem :: "deadlineManager \<Rightarrow> deadlineItem \<Rightarrow> deadlineManager" where
  "pushItem m item =
     m\<lparr>dm_heap := dm_heap m @ [item], dm_index := (dm_index m)(di_ref item := int (length (dm_heap m)))\<rparr>"

definition popItem :: "deadlineManager \<Rightarrow> deadlineItem \<times> deadlineManager" where
  "popItem m =
     (let item = last (dm_heap m) in
      (item, m\<lparr>dm_heap := butlast (dm_heap m), dm_index := (dm_index m)(di_ref item := -1)\<rparr>))"

text \<open>The loops of \<^verbatim>\<open>container/heap\<close>: sift an item up from \<open>j\<close>, or down from \<open>i\<close> in the first \<open>n\<close>.\<close>

function heapUp :: "deadlineManager \<Rightarrow> nat \<Rightarrow> deadlineManager" where
  "heapUp m j =
     (let i = (j - 1) div 2 in
      if i = j \<or> \<not> lessAt m j i then m else heapUp (swapItems m i j) i)"
  by pat_completeness auto

termination
  by (relation "measure snd") auto

function heapDown :: "deadlineManager \<Rightarrow> nat \<Rightarrow> nat \<Rightarrow> deadlineManager \<times> nat" where
  "heapDown m i n =
     (let j1 = 2 * i + 1 in
      if j1 \<ge> n then (m, i)
      else let j = (if j1 + 1 < n \<and> lessAt m (j1 + 1) j1 then j1 + 1 else j1) in
        if \<not> lessAt m j i then (m, i) else heapDown (swapItems m i j) j n)"
  by pat_completeness auto

termination
  by (relation "measure (\<lambda>(m, i, n). n - i)") (auto simp: Let_def split: if_splits)

declare heapUp.simps [simp del] heapDown.simps [simp del]

definition heapPush :: "deadlineManager \<Rightarrow> deadlineItem \<Rightarrow> deadlineManager" where
  "heapPush m item = (let m = pushItem m item in heapUp m (length (dm_heap m) - 1))"

definition heapPop :: "deadlineManager \<Rightarrow> deadlineItem \<times> deadlineManager" where
  "heapPop m =
     (let n = length (dm_heap m) - 1;
          m = swapItems m 0 n;
          m = fst (heapDown m 0 n)
      in popItem m)"

definition heapRemove :: "deadlineManager \<Rightarrow> nat \<Rightarrow> deadlineItem \<times> deadlineManager" where
  "heapRemove m i =
     (let n = length (dm_heap m) - 1;
          m = (if n \<noteq> i then
                 (case heapDown (swapItems m i n) i n of (m', i') \<Rightarrow> if i' > i then m' else heapUp m' i)
               else m)
      in popItem m)"

section \<open>The manager\<close>

definition scheduleItemAt :: "deadlineManager \<Rightarrow> nat \<Rightarrow> int \<Rightarrow> Duration \<Rightarrow> TimeoutKind \<Rightarrow> CommandID
    \<Rightarrow> SequenceNumber \<Rightarrow> deadlineItem option \<times> deadlineManager" where
  "scheduleItemAt m ref dispatchedAt after kind command sequence =
     (if after \<le> 0 then (None, m)
      else
        let item = \<lparr>di_ref = ref, di_at = dispatchedAt + after, di_after = after, di_kind = kind,
                    di_command = command, di_sequence = sequence\<rparr>;
            wasFirst = (dm_heap m = [] \<or> di_at item < di_at (hd (dm_heap m)));
            m = heapPush m item
        in (Some item, if wasFirst then m\<lparr>dm_wake := True\<rparr> else m))"

definition cancelItem :: "deadlineManager \<Rightarrow> deadlineItem \<Rightarrow> deadlineManager" where
  "cancelItem m item =
     (let idx = dm_index m (di_ref item);
          wasFirst = (idx = 0);
          m = (if 0 \<le> idx \<and> idx < int (length (dm_heap m)) \<and> di_ref (dm_heap m ! nat idx) = di_ref item
               then snd (heapRemove m (nat idx)) else m)
      in if wasFirst then m\<lparr>dm_wake := True\<rparr> else m)"

text \<open>The items that are due, in the order they are taken from the heap; \<open>fuel\<close> bounds the loop by
  the size of the heap.\<close>

fun takeReady :: "nat \<Rightarrow> deadlineManager \<Rightarrow> int \<Rightarrow> deadlineItem list \<times> deadlineManager" where
  "takeReady 0 m now = ([], m)"
| "takeReady (Suc fuel) m now =
     (if dm_heap m \<noteq> [] \<and> \<not> di_at (hd (dm_heap m)) > now
      then let (item, m) = heapPop m; (items, m) = takeReady fuel m now in (item # items, m)
      else ([], m))"

definition expireReady :: "deadlineManager \<Rightarrow> int \<Rightarrow> deadlineItem list \<times> deadlineManager" where
  "expireReady m now = takeReady (length (dm_heap m)) m now"

section \<open>The items of the heap\<close>

text \<open>The heap holds distinct items, and each item knows its position.\<close>

definition indexed :: "deadlineManager \<Rightarrow> bool" where
  "indexed m \<longleftrightarrow> distinct (map di_ref (dm_heap m)) \<and>
     (\<forall>k < length (dm_heap m). dm_index m (di_ref (dm_heap m ! k)) = int k)"

lemma swapItems_heap: "dm_heap (swapItems m i j) = (dm_heap m)[i := dm_heap m ! j, j := dm_heap m ! i]"
  by (simp add: swapItems_def Let_def)

lemma length_swapItems [simp]: "length (dm_heap (swapItems m i j)) = length (dm_heap m)"
  by (simp add: swapItems_heap)

lemma dm_wake_swapItems [simp]: "dm_wake (swapItems m i j) = dm_wake m"
  by (simp add: swapItems_def Let_def)

lemma mset_swapItems [simp]:
  "\<lbrakk>i < length (dm_heap m); j < length (dm_heap m)\<rbrakk> \<Longrightarrow> mset (dm_heap (swapItems m i j)) = mset (dm_heap m)"
  by (simp add: swapItems_heap mset_swap)

lemma nth_swapItems:
  "\<lbrakk>i < length (dm_heap m); j < length (dm_heap m); k < length (dm_heap m)\<rbrakk> \<Longrightarrow>
     dm_heap (swapItems m i j) ! k = dm_heap m ! (if k = j then i else if k = i then j else k)"
  by (simp add: swapItems_heap nth_list_update)

lemma indexed_swapItems:
  assumes "indexed m" and ij: "i < length (dm_heap m)" "j < length (dm_heap m)"
  shows "indexed (swapItems m i j)"
proof -
  let ?h = "dm_heap (swapItems m i j)"
  have "mset (map di_ref ?h) = mset (map di_ref (dm_heap m))" using ij by (simp del: mset_map add: mset_map)
  then have dist: "distinct (map di_ref ?h)" using assms(1) by (metis indexed_def mset_eq_imp_distinct_iff)
  have inj: "di_ref (?h ! k) = di_ref (?h ! l) \<longleftrightarrow> k = l" if "k < length ?h" "l < length ?h" for k l
    using nth_eq_iff_index_eq [OF dist, of k l] that by simp
  have "dm_index (swapItems m i j) (di_ref (?h ! k)) = int k" if k: "k < length ?h" for k
  proof -
    have idx: "dm_index (swapItems m i j) = (dm_index m)(di_ref (?h ! i) := int i, di_ref (?h ! j) := int j)"
      by (simp add: swapItems_def Let_def)
    show ?thesis
    proof (cases "k = i \<or> k = j")
      case True then show ?thesis using inj [of i j] ij by (auto simp: idx)
    next
      case False
      then have "di_ref (?h ! k) \<noteq> di_ref (?h ! i)" "di_ref (?h ! k) \<noteq> di_ref (?h ! j)"
        using inj k ij by (simp_all del: length_swapItems add: length_swapItems)
      moreover have "?h ! k = dm_heap m ! k" using False k ij by (simp add: nth_swapItems)
      ultimately show ?thesis using assms(1) k by (simp add: idx indexed_def)
    qed
  qed
  with dist show ?thesis by (simp add: indexed_def)
qed

section \<open>The order of the heap\<close>

abbreviation par :: "nat \<Rightarrow> nat" where "par k \<equiv> (k - 1) div 2"

abbreviation at_pos :: "deadlineManager \<Rightarrow> nat \<Rightarrow> int" where "at_pos m k \<equiv> di_at (dm_heap m ! k)"

definition heapOn :: "deadlineManager \<Rightarrow> nat \<Rightarrow> bool" where
  "heapOn m n \<longleftrightarrow> (\<forall>k. 0 < k \<and> k < n \<longrightarrow> at_pos m (par k) \<le> at_pos m k)"

text \<open>What a sift keeps: the same items, their positions, and everything outside the first \<open>n\<close>.\<close>

definition rearranged :: "nat \<Rightarrow> deadlineManager \<Rightarrow> deadlineManager \<Rightarrow> bool" where
  "rearranged n m m' \<longleftrightarrow> length (dm_heap m') = length (dm_heap m) \<and> mset (dm_heap m') = mset (dm_heap m) \<and>
     (indexed m \<longrightarrow> indexed m') \<and> dm_wake m' = dm_wake m \<and>
     (\<forall>k. n \<le> k \<and> k < length (dm_heap m) \<longrightarrow> dm_heap m' ! k = dm_heap m ! k)"

lemma rearranged_refl: "rearranged n m m"
  by (simp add: rearranged_def)

lemma rearranged_trans: "\<lbrakk>rearranged n m m'; rearranged n m' m''\<rbrakk> \<Longrightarrow> rearranged n m m''"
  by (auto simp: rearranged_def)

lemma rearranged_swap:
  assumes "i < n" "j < n" "n \<le> length (dm_heap m)"
  shows "rearranged n m (swapItems m i j)"
  using assms indexed_swapItems by (auto simp: rearranged_def nth_swapItems)

text \<open>All relations hold but those of \<open>j\<close> with its parent, which its children respect.\<close>

definition upInv :: "deadlineManager \<Rightarrow> nat \<Rightarrow> nat \<Rightarrow> bool" where
  "upInv m j n \<longleftrightarrow> (\<forall>k. 0 < k \<and> k < n \<and> k \<noteq> j \<longrightarrow> at_pos m (par k) \<le> at_pos m k) \<and>
     (\<forall>k. 0 < k \<and> k < n \<and> par k = j \<and> 0 < j \<longrightarrow> at_pos m (par j) \<le> at_pos m k)"

lemma par_less: "0 < k \<Longrightarrow> par k < k"
  by (cases k) auto

lemma upInv_swap:
  assumes inv: "upInv m j n" and j: "0 < j" "j < n" "n \<le> length (dm_heap m)" and less: "at_pos m j < at_pos m (par j)"
  shows "upInv (swapItems m (par j) j) (par j) n"
proof -
  have p: "par j < j" using j par_less by blast
  have at: "at_pos (swapItems m (par j) j) k = at_pos m (if k = j then par j else if k = par j then j else k)"
    if "k < n" for k using that j p by (simp add: nth_swapItems)
  have old: "at_pos m (par k) \<le> at_pos m k" if "0 < k" "k < n" "k \<noteq> j" for k
    using inv that by (simp add: upInv_def)
  have kids: "at_pos m (par j) \<le> at_pos m k" if "0 < k" "k < n" "par k = j" for k
    using inv that j by (simp add: upInv_def)
  show ?thesis
    unfolding upInv_def
  proof (intro conjI allI impI)
    fix k assume k: "0 < k \<and> k < n \<and> k \<noteq> par j"
    obtain q where q: "par k = q" "q < n" using k par_less [of k] by (metis order.strict_trans)
    consider "k = j" | "k \<noteq> j" "q = j" | "k \<noteq> j" "q = par j" | "k \<noteq> j" "q \<noteq> j" "q \<noteq> par j" by blast
    then show "at_pos (swapItems m (par j) j) (par k) \<le> at_pos (swapItems m (par j) j) k"
    proof cases
      case 1
      then show ?thesis using k at [of k] at [of "par j"] p j(2) less by simp
    next
      case 2
      then show ?thesis using k at [of k] at [OF q(2)] kids [of k] unfolding q by simp
    next
      case 3
      then show ?thesis using k at [of k] at [OF q(2)] old [of k] less p unfolding q by simp
    next
      case 4
      then show ?thesis using k at [of k] at [OF q(2)] old [of k] unfolding q by simp
    qed
  next
    fix k assume k: "0 < k \<and> k < n \<and> par k = par j \<and> 0 < par j"
    obtain g where g: "par (par j) = g" "g < par j" using k par_less [of "par j"] by blast
    have "at_pos m g \<le> at_pos m (par j)" using old [of "par j"] k p j(2) g by simp
    moreover have "at_pos m (par j) \<le> at_pos m k" if "k \<noteq> j" using old [of k] k that by simp
    moreover have "k \<noteq> par j" using k par_less [of k] by auto
    then have "at_pos (swapItems m (par j) j) k = at_pos m (if k = j then par j else k)" using k at [of k] by simp
    moreover have "at_pos (swapItems m (par j) j) g = at_pos m g" using at [of g] g(2) p j(2) by simp
    ultimately show "at_pos (swapItems m (par j) j) (par (par j)) \<le> at_pos (swapItems m (par j) j) k"
      unfolding g(1) by (cases "k = j") (simp_all only: if_True if_False, auto)
  qed
qed

lemma heapUp_ok:
  "\<lbrakk>upInv m j n; j < n; n \<le> length (dm_heap m)\<rbrakk> \<Longrightarrow> heapOn (heapUp m j) n \<and> rearranged n m (heapUp m j)"
proof (induction m j rule: heapUp.induct)
  case (1 m j)
  show ?case
  proof (cases "par j = j \<or> \<not> lessAt m j (par j)")
    case True
    then have "heapUp m j = m" by (subst heapUp.simps) (simp add: Let_def)
    moreover have "heapOn m n"
      using True "1.prems" par_less [of j] unfolding heapOn_def upInv_def lessAt_def by force
    ultimately show ?thesis by (simp add: rearranged_refl)
  next
    case False
    then have step: "heapUp m j = heapUp (swapItems m (par j) j) (par j)"
      by (subst heapUp.simps) (simp add: Let_def)
    have j: "0 < j" using False by (cases j) auto
    then have p: "par j < j" by (rule par_less)
    have "upInv (swapItems m (par j) j) (par j) n"
      using "1.prems" j False by (intro upInv_swap) (simp_all add: lessAt_def)
    then have "heapOn (heapUp m j) n \<and> rearranged n (swapItems m (par j) j) (heapUp m j)"
      unfolding step using "1.IH" [OF refl False] "1.prems" p by simp
    moreover have "rearranged n m (swapItems m (par j) j)"
      using "1.prems" p by (intro rearranged_swap) simp_all
    ultimately show ?thesis using rearranged_trans by blast
  qed
qed

text \<open>All relations hold but those of \<open>i\<close>; its children respect its parent.\<close>

definition downInv :: "deadlineManager \<Rightarrow> nat \<Rightarrow> nat \<Rightarrow> bool" where
  "downInv m i n \<longleftrightarrow> (\<forall>k. 0 < k \<and> k < n \<and> k \<noteq> i \<and> par k \<noteq> i \<longrightarrow> at_pos m (par k) \<le> at_pos m k) \<and>
     (\<forall>k. 0 < k \<and> k < n \<and> par k = i \<and> 0 < i \<longrightarrow> at_pos m (par i) \<le> at_pos m k)"

lemma downInv_swap:
  assumes inv: "downInv m i n" and j: "par j = i" "0 < j" "j < n" "n \<le> length (dm_heap m)"
    and less: "at_pos m j < at_pos m i" and min: "\<And>k. \<lbrakk>0 < k; k < n; par k = i\<rbrakk> \<Longrightarrow> at_pos m j \<le> at_pos m k"
  shows "downInv (swapItems m i j) j n \<and> at_pos (swapItems m i j) i \<le> at_pos (swapItems m i j) j"
proof -
  have p: "i < j" using j par_less [of j] by simp
  have at: "at_pos (swapItems m i j) k = at_pos m (if k = j then i else if k = i then j else k)"
    if "k < n" for k using that j p by (simp add: nth_swapItems)
  have old: "at_pos m (par k) \<le> at_pos m k" if "0 < k" "k < n" "k \<noteq> i" "par k \<noteq> i" for k
    using inv that by (simp add: downInv_def)
  have above: "at_pos m (par i) \<le> at_pos m j" if "0 < i" using inv that j by (simp add: downInv_def)
  have "downInv (swapItems m i j) j n"
    unfolding downInv_def
  proof (intro conjI allI impI)
    fix k assume k: "0 < k \<and> k < n \<and> k \<noteq> j \<and> par k \<noteq> j"
    obtain q where q: "par k = q" "q < k" "q < n" using k par_less [of k] by (metis order.strict_trans)
    consider "k = i" | "k \<noteq> i" "q = i" | "k \<noteq> i" "q \<noteq> i" by blast
    then show "at_pos (swapItems m i j) (par k) \<le> at_pos (swapItems m i j) k"
    proof cases
      case 1
      then have "at_pos m q \<le> at_pos m j" using above k q(1) by simp
      with 1 show ?thesis using k at [of k] at [OF q(3)] q(2) p unfolding q(1) by simp
    next
      case 2
      then show ?thesis using k at [of k] at [OF q(3)] min [of k] q p unfolding q(1) by simp
    next
      case 3
      then show ?thesis using k at [of k] at [OF q(3)] old [of k] q unfolding q(1) by simp
    qed
  next
    fix k assume k: "0 < k \<and> k < n \<and> par k = j \<and> 0 < j"
    then have "j < k" using par_less [of k] by simp
    then show "at_pos (swapItems m i j) (par j) \<le> at_pos (swapItems m i j) k"
      using k at [of k] at [of i] old [of k] p j(3) unfolding j(1) by simp
  qed
  moreover have "at_pos (swapItems m i j) i \<le> at_pos (swapItems m i j) j"
    using at [of i] at [of j] less p j(3) by simp
  ultimately show ?thesis by simp
qed

definition minChild :: "deadlineManager \<Rightarrow> nat \<Rightarrow> nat \<Rightarrow> nat" where
  "minChild m i n = (if 2 * i + 2 < n \<and> lessAt m (2 * i + 2) (2 * i + 1) then 2 * i + 2 else 2 * i + 1)"

lemma child_cases: "\<lbrakk>0 < k; par k = i\<rbrakk> \<Longrightarrow> k = 2 * i + 1 \<or> k = 2 * i + 2"
  by presburger

lemma minChild_least: "\<lbrakk>0 < k; k < n; par k = i\<rbrakk> \<Longrightarrow> at_pos m (minChild m i n) \<le> at_pos m k"
  using child_cases [of k i] by (auto simp: minChild_def lessAt_def)

lemma heapDown_unfold:
  "heapDown m i n = (if n \<le> 2 * i + 1 \<or> \<not> lessAt m (minChild m i n) i then (m, i)
     else heapDown (swapItems m i (minChild m i n)) (minChild m i n) n)"
  by (subst heapDown.simps) (simp add: minChild_def Let_def)

lemma heapDown_le: "heapDown m i n = (m', i') \<Longrightarrow> i \<le> i'"
proof (induction "n - i" arbitrary: m i rule: less_induct)
  case less
  show ?case
  proof (cases "n \<le> 2 * i + 1 \<or> \<not> lessAt m (minChild m i n) i")
    case True
    then show ?thesis using less.prems by (simp add: heapDown_unfold [of m i n])
  next
    case False
    then have "i < minChild m i n" "minChild m i n < n" by (auto simp: minChild_def)
    then have "n - minChild m i n < n - i" "i < minChild m i n" by simp_all
    with False less.hyps [of "minChild m i n" "swapItems m i (minChild m i n)"] less.prems show ?thesis
      by (simp add: heapDown_unfold [of m i n])
  qed
qed

lemma heapDown_ok:
  "\<lbrakk>downInv m i n; n \<le> length (dm_heap m); heapDown m i n = (m', i')\<rbrakk> \<Longrightarrow>
     rearranged n m m' \<and> ((i = 0 \<or> at_pos m (par i) \<le> at_pos m i) \<or> i < i' \<longrightarrow> heapOn m' n) \<and>
     (\<not> i < i' \<longrightarrow> m' = m \<and> (\<forall>k. 0 < k \<and> k < n \<and> par k = i \<longrightarrow> at_pos m i \<le> at_pos m k))"
proof (induction "n - i" arbitrary: m i rule: less_induct)
  case less
  let ?j = "minChild m i n"
  show ?case
  proof (cases "n \<le> 2 * i + 1 \<or> \<not> lessAt m ?j i")
    case True
    then have same: "m' = m" "i' = i" using less.prems(3) by (simp_all add: heapDown_unfold [of m i n])
    have kids: "at_pos m i \<le> at_pos m k" if "0 < k" "k < n" "par k = i" for k
      using minChild_least [OF that, of m] True child_cases [of k i] that by (auto simp: lessAt_def)
    have "heapOn m n" if "i = 0 \<or> at_pos m (par i) \<le> at_pos m i"
      unfolding heapOn_def
    proof (intro allI impI)
      fix k assume "0 < k \<and> k < n"
      then show "at_pos m (par k) \<le> at_pos m k"
        using kids [of k] that less.prems(1) unfolding downInv_def by (cases "par k = i"; cases "k = i") auto
    qed
    with same kids show ?thesis by (simp add: rearranged_refl)
  next
    case False
    have j: "par ?j = i" "0 < ?j" "?j < n" "i < ?j" using False by (auto simp: minChild_def)
    have step: "heapDown (swapItems m i ?j) ?j n = (m', i')"
      using less.prems(3) False by (simp add: heapDown_unfold [of m i n])
    have "at_pos m ?j < at_pos m i" using False by (simp add: lessAt_def)
    then have sw: "downInv (swapItems m i ?j) ?j n" "at_pos (swapItems m i ?j) i \<le> at_pos (swapItems m i ?j) ?j"
      using downInv_swap [OF less.prems(1) j(1-3) less.prems(2)] minChild_least by blast+
    have ih: "rearranged n (swapItems m i ?j) m' \<and>
        ((?j = 0 \<or> at_pos (swapItems m i ?j) (par ?j) \<le> at_pos (swapItems m i ?j) ?j) \<or> ?j < i' \<longrightarrow> heapOn m' n)"
      using less.hyps [of ?j "swapItems m i ?j"] sw(1) step less.prems(2) j(3,4) by simp
    have "rearranged n m (swapItems m i ?j)" using j less.prems(2) by (intro rearranged_swap) simp_all
    with ih have "rearranged n m m'" using rearranged_trans by blast
    moreover have "heapOn m' n" using ih sw(2) unfolding j(1) by blast
    moreover have "i < i'" using heapDown_le [OF step] j(4) by simp
    ultimately show ?thesis by simp
  qed
qed

section \<open>The operations of the heap\<close>

definition wf_heap :: "deadlineManager \<Rightarrow> bool" where
  "wf_heap m \<longleftrightarrow> indexed m \<and> heapOn m (length (dm_heap m))"

lemma heapOn_root:
  assumes "heapOn m n"
  shows "k < n \<Longrightarrow> at_pos m 0 \<le> at_pos m k"
proof (induction k rule: less_induct)
  case (less k)
  show ?case
  proof (cases "k = 0")
    case False
    then have "par k < k" using par_less by blast
    then have "at_pos m 0 \<le> at_pos m (par k)" using less by simp
    also have "\<dots> \<le> at_pos m k" using assms less.prems False by (simp add: heapOn_def)
    finally show ?thesis .
  qed simp
qed

lemma heapPush_ok:
  assumes "wf_heap m" "di_ref item \<notin> di_ref ` set (dm_heap m)"
  shows "wf_heap (heapPush m item)" "mset (dm_heap (heapPush m item)) = add_mset item (mset (dm_heap m))"
    "dm_wake (heapPush m item) = dm_wake m"
proof -
  let ?m = "pushItem m item" and ?n = "length (dm_heap m)"
  have h: "dm_heap ?m = dm_heap m @ [item]" by (simp add: pushItem_def)
  have "indexed ?m"
    using assms unfolding wf_heap_def indexed_def
    by (auto simp: pushItem_def nth_append less_Suc_eq) (metis image_eqI nth_mem)
  moreover have "upInv ?m ?n (Suc ?n)"
    unfolding upInv_def
  proof (intro conjI allI impI)
    fix k assume k: "0 < k \<and> k < Suc ?n \<and> k \<noteq> ?n"
    then have "par k < k" using par_less by blast
    then show "at_pos ?m (par k) \<le> at_pos ?m k"
      using k assms(1) by (simp add: h nth_append wf_heap_def heapOn_def)
  next
    fix k assume k: "0 < k \<and> k < Suc ?n \<and> par k = ?n \<and> 0 < ?n"
    then show "at_pos ?m (par ?n) \<le> at_pos ?m k" using par_less [of k] by simp
  qed
  then have "heapOn (heapUp ?m ?n) (Suc ?n) \<and> rearranged (Suc ?n) ?m (heapUp ?m ?n)"
    by (rule heapUp_ok) (simp_all add: h)
  moreover have "heapPush m item = heapUp ?m ?n" by (simp add: heapPush_def h)
  ultimately show "wf_heap (heapPush m item)" "mset (dm_heap (heapPush m item)) = add_mset item (mset (dm_heap m))"
    "dm_wake (heapPush m item) = dm_wake m"
    by (simp_all add: wf_heap_def rearranged_def h) (simp add: pushItem_def)
qed

text \<open>Taking the last item of a manager whose first \<open>n\<close> items are in order.\<close>

lemma popItem_ok:
  assumes "indexed m" "heapOn m n" "length (dm_heap m) = Suc n" "popItem m = (item, m')"
  shows "item = dm_heap m ! n" "wf_heap m'" "add_mset item (mset (dm_heap m')) = mset (dm_heap m)"
    "dm_index m' (di_ref item) = -1" "dm_wake m' = dm_wake m"
proof -
  obtain h x where h: "dm_heap m = h @ [x]" "length h = n" using assms(3) by (cases "dm_heap m" rule: rev_cases) auto
  have item: "item = x" and m': "m' = m\<lparr>dm_heap := h, dm_index := (dm_index m)(di_ref x := -1)\<rparr>"
    using assms(4) h(1) by (auto simp: popItem_def)
  show "item = dm_heap m ! n" using h item by (simp add: nth_append)
  show "dm_index m' (di_ref item) = -1" "dm_wake m' = dm_wake m" by (simp_all add: m' item)
  show "add_mset item (mset (dm_heap m')) = mset (dm_heap m)" by (simp add: m' item h(1))
  have "di_ref (h ! k) \<noteq> di_ref x" if "k < n" for k
    using assms(1) h that by (auto simp: indexed_def) (metis image_eqI nth_mem)
  moreover have "dm_index m (di_ref (h ! k)) = int k" if "k < n" for k
    using assms(1) h that by (auto simp: indexed_def nth_append split: if_splits)
  ultimately have "indexed m'"
    using assms(1) h by (simp add: indexed_def m')
  moreover have "heapOn m' n"
    unfolding heapOn_def
  proof (intro allI impI)
    fix k assume k: "0 < k \<and> k < n"
    then have "par k < n" using par_less [of k] by simp
    then show "at_pos m' (par k) \<le> at_pos m' k"
      using assms(2) k h unfolding heapOn_def by (auto simp: m' nth_append)
  qed
  ultimately show "wf_heap m'" by (simp add: wf_heap_def m' h(2))
qed

lemma heapOn_downInv: "heapOn m n \<Longrightarrow> downInv m i n"
proof -
  assume *: "heapOn m n"
  have "at_pos m (par i) \<le> at_pos m k" if "0 < k" "k < n" "par k = i" "0 < i" for k
  proof -
    have "i < n" using that par_less [of k] by simp
    then have "at_pos m (par i) \<le> at_pos m i" using * that(4) by (simp add: heapOn_def)
    also have "\<dots> \<le> at_pos m k" using * that by (auto simp: heapOn_def)
    finally show ?thesis .
  qed
  with * show ?thesis by (auto simp: downInv_def heapOn_def)
qed

lemma downInv_replace:
  assumes "heapOn m (Suc n)" "length (dm_heap m) = Suc n" "i < n"
  shows "downInv (swapItems m i n) i n"
proof -
  have at: "at_pos (swapItems m i n) k = at_pos m k" if "k < n" "k \<noteq> i" for k
    using that assms by (simp add: nth_swapItems)
  have d: "downInv m i (Suc n)" using assms(1) by (rule heapOn_downInv)
  show ?thesis
    unfolding downInv_def
  proof (intro conjI allI impI)
    fix k assume k: "0 < k \<and> k < n \<and> k \<noteq> i \<and> par k \<noteq> i"
    then have "par k < n" using par_less [of k] by simp
    then show "at_pos (swapItems m i n) (par k) \<le> at_pos (swapItems m i n) k"
      using k at [of k] at [of "par k"] d unfolding downInv_def by simp
  next
    fix k assume k: "0 < k \<and> k < n \<and> par k = i \<and> 0 < i"
    then have "i < k" "par i < i" using par_less [of k] par_less [of i] by simp_all
    then show "at_pos (swapItems m i n) (par i) \<le> at_pos (swapItems m i n) k"
      using k at [of k] at [of "par i"] d assms(3) unfolding downInv_def by simp
  qed
qed

lemma heapPop_ok:
  assumes "wf_heap m" "dm_heap m \<noteq> []" "heapPop m = (item, m')"
  shows "item = hd (dm_heap m)" "wf_heap m'" "add_mset item (mset (dm_heap m')) = mset (dm_heap m)"
    "dm_index m' (di_ref item) = -1" "dm_wake m' = dm_wake m"
    "\<forall>x \<in> set (dm_heap m). di_at item \<le> di_at x"
proof -
  obtain n where n: "length (dm_heap m) = Suc n" using assms(2) by (cases "dm_heap m") auto
  let ?s = "swapItems m 0 n"
  obtain d i' where d: "heapDown ?s 0 n = (d, i')" by fastforce
  have heap: "heapOn m (Suc n)" "indexed m" using assms(1) n by (simp_all add: wf_heap_def)
  have "downInv ?s 0 n"
    using downInv_replace [OF heap(1) n, of 0] by (cases "n = 0") (simp_all add: downInv_def)
  from heapDown_ok [OF this _ d] have r: "rearranged n ?s d" "heapOn d n" by (simp_all add: n)
  have "indexed ?s" using heap(2) n by (intro indexed_swapItems) simp_all
  then have d': "indexed d" "length (dm_heap d) = Suc n" "mset (dm_heap d) = mset (dm_heap m)" "dm_wake d = dm_wake m"
    "dm_heap d ! n = dm_heap m ! 0"
    using r(1) n by (auto simp: rearranged_def nth_swapItems)
  have pop: "popItem d = (item, m')" using assms(3) d by (simp add: heapPop_def n)
  note p = popItem_ok [OF d'(1) r(2) d'(2) pop]
  show item: "item = hd (dm_heap m)" using p(1) d'(5) assms(2) by (simp add: hd_conv_nth)
  show "wf_heap m'" "add_mset item (mset (dm_heap m')) = mset (dm_heap m)" "dm_index m' (di_ref item) = -1"
    "dm_wake m' = dm_wake m" using p d' by simp_all
  show "\<forall>x \<in> set (dm_heap m). di_at item \<le> di_at x"
    using heapOn_root [OF heap(1)] n assms(2) by (auto simp: item hd_conv_nth in_set_conv_nth)
qed

lemma heapRemove_ok:
  assumes "wf_heap m" "i < length (dm_heap m)" "heapRemove m i = (item, m')"
  shows "item = dm_heap m ! i" "wf_heap m'" "add_mset item (mset (dm_heap m')) = mset (dm_heap m)"
    "dm_index m' (di_ref item) = -1" "dm_wake m' = dm_wake m"
proof -
  obtain n where n: "length (dm_heap m) = Suc n" using assms(2) by (cases "dm_heap m") auto
  have heap: "heapOn m (Suc n)" "indexed m" using assms(1) n by (simp_all add: wf_heap_def)
  have "\<exists>d. popItem d = (item, m') \<and> indexed d \<and> heapOn d n \<and> length (dm_heap d) = Suc n \<and>
      mset (dm_heap d) = mset (dm_heap m) \<and> dm_wake d = dm_wake m \<and> dm_heap d ! n = dm_heap m ! i"
  proof (cases "i = n")
    case True
    then have "popItem m = (item, m')" using assms(3) n by (simp add: heapRemove_def)
    moreover have "heapOn m n" using heap(1) by (simp add: heapOn_def)
    ultimately show ?thesis using heap n True by blast
  next
    case False
    then have i: "i < n" using assms(2) n by simp
    let ?s = "swapItems m i n"
    obtain d i' where d: "heapDown ?s i n = (d, i')" by fastforce
    have s: "indexed ?s" "length (dm_heap ?s) = Suc n" "dm_heap ?s ! n = dm_heap m ! i"
      using heap(2) i n by (auto intro!: indexed_swapItems simp: nth_swapItems)
    have dn: "downInv ?s i n" using downInv_replace [OF heap(1) n i] .
    note down = heapDown_ok [OF dn _ d]
    let ?d = "if i < i' then d else heapUp d i"
    have "heapOn ?d n \<and> rearranged n ?s ?d"
    proof (cases "i < i'")
      case True
      then show ?thesis using down s(2) by simp
    next
      case False
      then have "d = ?s" "\<And>k. \<lbrakk>0 < k; k < n; par k = i\<rbrakk> \<Longrightarrow> at_pos ?s i \<le> at_pos ?s k"
        using down s(2) by simp_all
      moreover then have "upInv ?s i n" using dn unfolding upInv_def downInv_def by metis
      ultimately show ?thesis using heapUp_ok [of ?s i n] i s(2) False by simp
    qed
    then have "indexed ?d \<and> length (dm_heap ?d) = Suc n \<and> mset (dm_heap ?d) = mset (dm_heap m) \<and>
        dm_wake ?d = dm_wake m \<and> dm_heap ?d ! n = dm_heap m ! i \<and> heapOn ?d n"
      using s n i unfolding rearranged_def by (simp del: if_split)
    moreover have "popItem ?d = (item, m')"
      using assms(3) False d by (simp add: heapRemove_def n split: if_splits)
    ultimately show ?thesis by blast
  qed
  then obtain d where d: "popItem d = (item, m')" "indexed d" "heapOn d n" "length (dm_heap d) = Suc n"
    "mset (dm_heap d) = mset (dm_heap m)" "dm_wake d = dm_wake m" "dm_heap d ! n = dm_heap m ! i" by blast
  note p = popItem_ok [OF d(2,3,4,1)]
  show "item = dm_heap m ! i" "wf_heap m'" "add_mset item (mset (dm_heap m')) = mset (dm_heap m)"
    "dm_index m' (di_ref item) = -1" "dm_wake m' = dm_wake m" using p d by simp_all
qed

section \<open>Deadlines fire when they are due\<close>

lemma wf_heap_wake [simp]: "wf_heap (m\<lparr>dm_wake := b\<rparr>) = wf_heap m"
  by (simp add: wf_heap_def indexed_def heapOn_def)

lemma takeReady_ok:
  "\<lbrakk>wf_heap m; length (dm_heap m) \<le> fuel; takeReady fuel m now = (items, m')\<rbrakk> \<Longrightarrow>
     wf_heap m' \<and> mset items + mset (dm_heap m') = mset (dm_heap m) \<and> sorted (map di_at items) \<and>
     (\<forall>x \<in> set items. di_at x \<le> now) \<and> (\<forall>x \<in> set (dm_heap m'). now < di_at x)"
proof (induction fuel m now arbitrary: items m' rule: takeReady.induct)
  case (2 fuel m now)
  show ?case
  proof (cases "dm_heap m \<noteq> [] \<and> \<not> di_at (hd (dm_heap m)) > now")
    case True
    obtain item m1 where pop: "heapPop m = (item, m1)" by fastforce
    obtain rest m2 where rest: "takeReady fuel m1 now = (rest, m2)" by fastforce
    have res: "items = item # rest" "m' = m2" using "2.prems"(3) True pop rest by simp_all
    note p = heapPop_ok [OF "2.prems"(1) _ pop]
    have "Suc (length (dm_heap m1)) = length (dm_heap m)"
      using True p(3) by (metis size_add_mset size_mset)
    then have ih: "wf_heap m2 \<and> mset rest + mset (dm_heap m2) = mset (dm_heap m1) \<and> sorted (map di_at rest) \<and>
        (\<forall>x \<in> set rest. di_at x \<le> now) \<and> (\<forall>x \<in> set (dm_heap m2). now < di_at x)"
      using "2.IH" [OF True pop [symmetric] refl _ _ rest] p(2) True "2.prems"(2) by simp
    have "set rest \<subseteq> set (dm_heap m1)" using ih by (metis mset_subset_eq_add_left set_mset_mono set_mset_mset)
    also have "\<dots> \<subseteq> set (dm_heap m)" using p(3) True by (metis mset_subset_eq_insertD set_mset_mset set_mset_mono mset_subset_eq_add_right add_mset_add_single union_commute)
    finally have "\<forall>x \<in> set rest. di_at item \<le> di_at x" using p(6) True by blast
    moreover have "di_at item \<le> now" using p(1) True by simp
    moreover have "mset items + mset (dm_heap m') = mset (dm_heap m)" using ih p(3) True res by simp
    ultimately show ?thesis using ih res by simp
  next
    case False
    then have res: "items = []" "m' = m"
      using "2.prems"(3) by (simp_all only: takeReady.simps if_not_P [OF False] if_False prod.inject)
    have "now < di_at x" if "x \<in> set (dm_heap m)" for x
    proof -
      have "dm_heap m \<noteq> []" using that by auto
      then have "now < di_at (hd (dm_heap m))" using False by simp
      moreover have "di_at (hd (dm_heap m)) \<le> di_at x"
        using that "2.prems"(1) \<open>dm_heap m \<noteq> []\<close> unfolding wf_heap_def
        by (metis heapOn_root hd_conv_nth in_set_conv_nth)
      ultimately show ?thesis by simp
    qed
    with res "2.prems"(1) show ?thesis by simp
  qed
qed simp

lemma cancelItem_ok:
  assumes "wf_heap m"
  shows "wf_heap (cancelItem m item)"
    "item \<in> set (dm_heap m) \<Longrightarrow> mset (dm_heap (cancelItem m item)) = mset (dm_heap m) - {#item#}"
    "di_ref item \<notin> di_ref ` set (dm_heap m) \<Longrightarrow> dm_heap (cancelItem m item) = dm_heap m"
proof -
  obtain idx where idx: "dm_index m (di_ref item) = idx" by blast
  obtain x m1 where rm: "heapRemove m (nat idx) = (x, m1)" by fastforce
  define c where "c \<longleftrightarrow> 0 \<le> idx \<and> idx < int (length (dm_heap m)) \<and> di_ref (dm_heap m ! nat idx) = di_ref item"
  define res where "res = (if c then m1 else m)"
  have cancel: "cancelItem m item = (if idx = 0 then res\<lparr>dm_wake := True\<rparr> else res)"
    unfolding cancelItem_def Let_def idx rm snd_conv res_def c_def ..
  have heap: "dm_heap (cancelItem m item) = dm_heap res" unfolding cancel by simp
  have r: "x = dm_heap m ! nat idx" "wf_heap m1" "add_mset x (mset (dm_heap m1)) = mset (dm_heap m)" if c
    using heapRemove_ok [OF assms _ rm] that by (simp_all add: c_def nat_less_iff)
  have "wf_heap res" using r(2) assms by (simp add: res_def)
  then show "wf_heap (cancelItem m item)" unfolding cancel by simp
  show "dm_heap (cancelItem m item) = dm_heap m" if out: "di_ref item \<notin> di_ref ` set (dm_heap m)"
  proof -
    have "\<not> c"
    proof
      assume c
      then have "nat idx < length (dm_heap m)" "di_ref (dm_heap m ! nat idx) = di_ref item" by (simp_all add: c_def nat_less_iff)
      then show False using out by (metis image_eqI nth_mem)
    qed
    then show ?thesis unfolding heap by (simp add: res_def)
  qed
  show "mset (dm_heap (cancelItem m item)) = mset (dm_heap m) - {#item#}" if "item \<in> set (dm_heap m)"
  proof -
    obtain k where k: "k < length (dm_heap m)" "dm_heap m ! k = item"
      using \<open>item \<in> set (dm_heap m)\<close> unfolding in_set_conv_nth by blast
    then have "idx = int k" using assms idx by (auto simp: wf_heap_def indexed_def)
    then have c using k by (simp add: c_def)
    moreover have "x = item" using r(1) [OF \<open>c\<close>] k \<open>idx = int k\<close> by simp
    ultimately show ?thesis unfolding heap res_def using r(3) by (simp flip: r(3))
  qed
qed

lemma scheduleItemAt_ok:
  assumes "wf_heap m" "ref \<notin> di_ref ` set (dm_heap m)"
  shows "wf_heap (snd (scheduleItemAt m ref dispatchedAt after kind command sequence))"
  using assms by (auto simp: scheduleItemAt_def Let_def intro!: heapPush_ok(1))

text \<open>C16: The deadline heap is correct: scheduling adds the item and cancelling removes exactly the item
  cancelled (and nothing when it already fired), both keeping the heap in order with every item
  knowing its position; when the timer fires, the items returned are exactly those due by then, in
  the order of their deadlines, and no due item stays behind.\<close>

theorem deadlines_exact:
  assumes "wf_heap m"
  shows "(di_ref x \<notin> di_ref ` set (dm_heap m) \<longrightarrow> wf_heap (heapPush m x) \<and>
      mset (dm_heap (heapPush m x)) = add_mset x (mset (dm_heap m))) \<and>
    (x \<in> set (dm_heap m) \<longrightarrow> wf_heap (cancelItem m x) \<and> mset (dm_heap (cancelItem m x)) = mset (dm_heap m) - {#x#}) \<and>
    (di_ref x \<notin> di_ref ` set (dm_heap m) \<longrightarrow> dm_heap (cancelItem m x) = dm_heap m) \<and>
    (expireReady m now = (items, m') \<longrightarrow> wf_heap m' \<and> sorted (map di_at items) \<and>
      mset items = filter_mset (\<lambda>y. di_at y \<le> now) (mset (dm_heap m)) \<and>
      mset (dm_heap m') = filter_mset (\<lambda>y. now < di_at y) (mset (dm_heap m)))"
proof -
  have "wf_heap m' \<and> sorted (map di_at items) \<and>
      mset items = filter_mset (\<lambda>y. di_at y \<le> now) (mset (dm_heap m)) \<and>
      mset (dm_heap m') = filter_mset (\<lambda>y. now < di_at y) (mset (dm_heap m))"
    if "expireReady m now = (items, m')"
  proof -
    note t = takeReady_ok [OF assms order.refl that [unfolded expireReady_def]]
    have sum: "mset (dm_heap m) = mset items + mset (dm_heap m')" using t by simp
    have "filter_mset (\<lambda>y. di_at y \<le> now) (mset items) = mset items" "filter_mset (\<lambda>y. di_at y \<le> now) (mset (dm_heap m')) = {#}"
      "filter_mset (\<lambda>y. now < di_at y) (mset items) = {#}" "filter_mset (\<lambda>y. now < di_at y) (mset (dm_heap m')) = mset (dm_heap m')"
      using t by (auto simp: filter_id_conv filter_empty_conv simp flip: mset_filter)
    then show ?thesis using t unfolding sum by simp
  qed
  then show ?thesis using heapPush_ok [OF assms] cancelItem_ok [OF assms] by blast
qed

theorem deadlines_exact_witness:
  "\<exists>items m'. expireReady (snd (scheduleItemAt (snd (scheduleItemAt (snd (scheduleItemAt newDeadlineManager
       1 0 30 TimeoutResponse CommandSubmitSM 1)) 2 0 10 TimeoutEnquireLink CommandEnquireLink 2)) 3 0 20
       TimeoutResponse CommandSubmitSM 3)) 20 = (items, m') \<and> map di_ref items = [2, 3] \<and> map di_ref (dm_heap m') = [1] \<and> wf_heap m'"
proof -
  let ?m = "snd (scheduleItemAt (snd (scheduleItemAt (snd (scheduleItemAt newDeadlineManager
       1 0 30 TimeoutResponse CommandSubmitSM 1)) 2 0 10 TimeoutEnquireLink CommandEnquireLink 2)) 3 0 20
       TimeoutResponse CommandSubmitSM 3)"
  have "wf_heap newDeadlineManager" by (simp add: wf_heap_def indexed_def heapOn_def newDeadlineManager_def)
  then have "wf_heap (snd (scheduleItemAt newDeadlineManager 1 0 30 TimeoutResponse CommandSubmitSM 1))"
    by (rule scheduleItemAt_ok) code_simp
  then have "wf_heap (snd (scheduleItemAt (snd (scheduleItemAt newDeadlineManager
      1 0 30 TimeoutResponse CommandSubmitSM 1)) 2 0 10 TimeoutEnquireLink CommandEnquireLink 2))"
    by (rule scheduleItemAt_ok) code_simp
  then have wf: "wf_heap ?m"
    by (rule scheduleItemAt_ok) code_simp
  obtain items m' where e: "expireReady ?m 20 = (items, m')" by fastforce
  have "map di_ref (fst (expireReady ?m 20)) = [2, 3] \<and> map di_ref (dm_heap (snd (expireReady ?m 20))) = [1]" by code_simp
  with e deadlines_exact [OF wf, of _ 20 items m'] show ?thesis by auto
qed

end
