(* ===== verification/Body.thy ===== *)
theory Body
  imports Wire
begin

text \<open>
  What the codecs of all bodies share: the dynamically typed body a caller hands to an encoder
  (\<^verbatim>\<open>any\<close> in Go), the type switches of the encoders, the body reader of
  \<^verbatim>\<open>codec/smpp34.go\<close>, the optional parameters at the end of a body, and the contracts
  of a request codec and of a response codec as locales. The codec theories interpret these
  locales for every PDU, which gives them the round trips.
\<close>

section \<open>Dynamically typed bodies\<close>

text \<open>
  The values of the body types. \<open>VendorB\<close> is a value of a type the library does not define,
  with the content of its field \<^verbatim>\<open>Optional\<close> of type
  \<^verbatim>\<open>[]protocol.OptionalParameter\<close> (empty when it has no such field).
\<close>

datatype 'v body =
  EmptyB
| OptionalResponseB OptionalResponse
| BindRequestB BindRequest
| BindResponseB BindResponse
| SubmitSMB SubmitSM
| SubmitSMRespB SubmitSMResp
| DeliverSMB DeliverSM
| DeliverSMRespB DeliverSMResp
| SubmitMultiB SubmitMulti
| SubmitMultiRespB SubmitMultiResp
| DataSMB DataSM
| DataSMRespB DataSMResp
| QuerySMB QuerySM
| QuerySMRespB QuerySMResp
| CancelSMB CancelSM
| ReplaceSMB ReplaceSM
| AlertNotificationB AlertNotification
| OutbindB Outbind
| BroadcastSMB BroadcastSM
| BroadcastSMRespB BroadcastSMResp
| QueryBroadcastSMB QueryBroadcastSM
| QueryBroadcastSMRespB QueryBroadcastSMResp
| CancelBroadcastSMB CancelBroadcastSM
| RawBodyB bytes
| VendorB 'v "OptionalParameter list"

text \<open>An interface value: nil, a value, a pointer to a value, or a nil pointer of a named type.\<close>

datatype 'v any = NilAny | Val "'v body" | Ptr "'v body" | NilPtr string

definition ErrInvalidPDUValue :: goerr where
  "ErrInvalidPDUValue = Sentinel ''smpp codec: invalid PDU value''"

definition ErrConflictingMessageData :: goerr where
  "ErrConflictingMessageData = Sentinel ''smpp codec: short_message and message_payload must not both carry data''"

definition semantic :: "CommandStatus \<Rightarrow> string \<Rightarrow> goerr \<Rightarrow> goerr" where
  "semantic status reason cause = SemanticError status 0 0 reason (Some cause)"

text \<open>
  The type switch of a request encoder: \<open>sel\<close> recognises the values of the Go type \<open>name\<close>.
\<close>

definition typeSwitch :: "string \<Rightarrow> ('v body \<Rightarrow> 'a option) \<Rightarrow> 'v any \<Rightarrow> goerr + 'a" where
  "typeSwitch name sel value =
     (let wrong = Inl (Wrapped ''expected another body type'' ErrInvalidPDUValue);
          nilptr = Inl (Wrapped ''nil body'' ErrInvalidPDUValue);
          pick = (\<lambda>b. case sel b of Some v \<Rightarrow> Inr v | None \<Rightarrow> wrong) in
      case value of
        Val b \<Rightarrow> pick b
      | Ptr b \<Rightarrow> pick b
      | NilPtr t \<Rightarrow> if t = name then nilptr else wrong
      | NilAny \<Rightarrow> wrong)"

text \<open>The type switch of a response encoder, which also takes an empty and a TLV-only body.\<close>

datatype 'a response = Omitted | Typed 'a | TLVs "OptionalParameter list"

definition responseSwitch :: "string \<Rightarrow> ('v body \<Rightarrow> 'a option) \<Rightarrow> 'v any \<Rightarrow> goerr + 'a response" where
  "responseSwitch name sel value =
     (let wrong = Inl (Wrapped ''expected another body type'' ErrInvalidPDUValue);
          nilptr = Inl (Wrapped ''nil body'' ErrInvalidPDUValue);
          pick = (\<lambda>b. case b of
                    EmptyB \<Rightarrow> Inr Omitted
                  | OptionalResponseB v \<Rightarrow> Inr (TLVs (or_Optional v))
                  | _ \<Rightarrow> (case sel b of Some v \<Rightarrow> Inr (Typed v) | None \<Rightarrow> wrong)) in
      case value of
        NilAny \<Rightarrow> Inr Omitted
      | Val b \<Rightarrow> pick b
      | Ptr b \<Rightarrow> pick b
      | NilPtr t \<Rightarrow>
          if t = ''EmptyBody'' then Inr Omitted
          else if t = ''OptionalResponse'' \<or> t = name then nilptr else wrong)"

definition holds :: "'v any \<Rightarrow> 'v body \<Rightarrow> bool" where
  "holds value b \<longleftrightarrow> value = Val b \<or> value = Ptr b"

definition holdsNothing :: "'v any \<Rightarrow> bool" where
  "holdsNothing value \<longleftrightarrow> value = NilAny \<or> value = Val EmptyB \<or> value = Ptr EmptyB \<or> value = NilPtr ''EmptyBody''"

lemma typeSwitch_Inr [wire_simps]:
  "typeSwitch name sel value = Inr v \<longleftrightarrow> (\<exists>b. holds value b \<and> sel b = Some v)"
  by (auto simp: typeSwitch_def holds_def Let_def split: any.splits option.splits)

text \<open>The assertions that a body has a given type, one per case of the type switches.\<close>

definition asBindRequest :: "'v body \<Rightarrow> BindRequest option" where
  "asBindRequest b = (case b of BindRequestB v \<Rightarrow> Some v | _ \<Rightarrow> None)"

definition asBindResponse :: "'v body \<Rightarrow> BindResponse option" where
  "asBindResponse b = (case b of BindResponseB v \<Rightarrow> Some v | _ \<Rightarrow> None)"

definition asSubmitSM :: "'v body \<Rightarrow> SubmitSM option" where
  "asSubmitSM b = (case b of SubmitSMB v \<Rightarrow> Some v | _ \<Rightarrow> None)"

definition asSubmitSMResp :: "'v body \<Rightarrow> SubmitSMResp option" where
  "asSubmitSMResp b = (case b of SubmitSMRespB v \<Rightarrow> Some v | _ \<Rightarrow> None)"

definition asDeliverSM :: "'v body \<Rightarrow> DeliverSM option" where
  "asDeliverSM b = (case b of DeliverSMB v \<Rightarrow> Some v | _ \<Rightarrow> None)"

definition asDeliverSMResp :: "'v body \<Rightarrow> DeliverSMResp option" where
  "asDeliverSMResp b = (case b of DeliverSMRespB v \<Rightarrow> Some v | _ \<Rightarrow> None)"

definition asSubmitMulti :: "'v body \<Rightarrow> SubmitMulti option" where
  "asSubmitMulti b = (case b of SubmitMultiB v \<Rightarrow> Some v | _ \<Rightarrow> None)"

definition asSubmitMultiResp :: "'v body \<Rightarrow> SubmitMultiResp option" where
  "asSubmitMultiResp b = (case b of SubmitMultiRespB v \<Rightarrow> Some v | _ \<Rightarrow> None)"

definition asDataSM :: "'v body \<Rightarrow> DataSM option" where
  "asDataSM b = (case b of DataSMB v \<Rightarrow> Some v | _ \<Rightarrow> None)"

definition asDataSMResp :: "'v body \<Rightarrow> DataSMResp option" where
  "asDataSMResp b = (case b of DataSMRespB v \<Rightarrow> Some v | _ \<Rightarrow> None)"

definition asQuerySM :: "'v body \<Rightarrow> QuerySM option" where
  "asQuerySM b = (case b of QuerySMB v \<Rightarrow> Some v | _ \<Rightarrow> None)"

definition asQuerySMResp :: "'v body \<Rightarrow> QuerySMResp option" where
  "asQuerySMResp b = (case b of QuerySMRespB v \<Rightarrow> Some v | _ \<Rightarrow> None)"

definition asCancelSM :: "'v body \<Rightarrow> CancelSM option" where
  "asCancelSM b = (case b of CancelSMB v \<Rightarrow> Some v | _ \<Rightarrow> None)"

definition asReplaceSM :: "'v body \<Rightarrow> ReplaceSM option" where
  "asReplaceSM b = (case b of ReplaceSMB v \<Rightarrow> Some v | _ \<Rightarrow> None)"

definition asAlertNotification :: "'v body \<Rightarrow> AlertNotification option" where
  "asAlertNotification b = (case b of AlertNotificationB v \<Rightarrow> Some v | _ \<Rightarrow> None)"

definition asOutbind :: "'v body \<Rightarrow> Outbind option" where
  "asOutbind b = (case b of OutbindB v \<Rightarrow> Some v | _ \<Rightarrow> None)"

definition asBroadcastSM :: "'v body \<Rightarrow> BroadcastSM option" where
  "asBroadcastSM b = (case b of BroadcastSMB v \<Rightarrow> Some v | _ \<Rightarrow> None)"

definition asBroadcastSMResp :: "'v body \<Rightarrow> BroadcastSMResp option" where
  "asBroadcastSMResp b = (case b of BroadcastSMRespB v \<Rightarrow> Some v | _ \<Rightarrow> None)"

definition asQueryBroadcastSM :: "'v body \<Rightarrow> QueryBroadcastSM option" where
  "asQueryBroadcastSM b = (case b of QueryBroadcastSMB v \<Rightarrow> Some v | _ \<Rightarrow> None)"

definition asQueryBroadcastSMResp :: "'v body \<Rightarrow> QueryBroadcastSMResp option" where
  "asQueryBroadcastSMResp b = (case b of QueryBroadcastSMRespB v \<Rightarrow> Some v | _ \<Rightarrow> None)"

definition asCancelBroadcastSM :: "'v body \<Rightarrow> CancelBroadcastSM option" where
  "asCancelBroadcastSM b = (case b of CancelBroadcastSMB v \<Rightarrow> Some v | _ \<Rightarrow> None)"

lemma as_Some [simp]:
  "asBindRequest b = Some v_BindRequest \<longleftrightarrow> b = BindRequestB v_BindRequest"
  "asBindResponse b = Some v_BindResponse \<longleftrightarrow> b = BindResponseB v_BindResponse"
  "asSubmitSM b = Some v_SubmitSM \<longleftrightarrow> b = SubmitSMB v_SubmitSM"
  "asSubmitSMResp b = Some v_SubmitSMResp \<longleftrightarrow> b = SubmitSMRespB v_SubmitSMResp"
  "asDeliverSM b = Some v_DeliverSM \<longleftrightarrow> b = DeliverSMB v_DeliverSM"
  "asDeliverSMResp b = Some v_DeliverSMResp \<longleftrightarrow> b = DeliverSMRespB v_DeliverSMResp"
  "asSubmitMulti b = Some v_SubmitMulti \<longleftrightarrow> b = SubmitMultiB v_SubmitMulti"
  "asSubmitMultiResp b = Some v_SubmitMultiResp \<longleftrightarrow> b = SubmitMultiRespB v_SubmitMultiResp"
  "asDataSM b = Some v_DataSM \<longleftrightarrow> b = DataSMB v_DataSM"
  "asDataSMResp b = Some v_DataSMResp \<longleftrightarrow> b = DataSMRespB v_DataSMResp"
  "asQuerySM b = Some v_QuerySM \<longleftrightarrow> b = QuerySMB v_QuerySM"
  "asQuerySMResp b = Some v_QuerySMResp \<longleftrightarrow> b = QuerySMRespB v_QuerySMResp"
  "asCancelSM b = Some v_CancelSM \<longleftrightarrow> b = CancelSMB v_CancelSM"
  "asReplaceSM b = Some v_ReplaceSM \<longleftrightarrow> b = ReplaceSMB v_ReplaceSM"
  "asAlertNotification b = Some v_AlertNotification \<longleftrightarrow> b = AlertNotificationB v_AlertNotification"
  "asOutbind b = Some v_Outbind \<longleftrightarrow> b = OutbindB v_Outbind"
  "asBroadcastSM b = Some v_BroadcastSM \<longleftrightarrow> b = BroadcastSMB v_BroadcastSM"
  "asBroadcastSMResp b = Some v_BroadcastSMResp \<longleftrightarrow> b = BroadcastSMRespB v_BroadcastSMResp"
  "asQueryBroadcastSM b = Some v_QueryBroadcastSM \<longleftrightarrow> b = QueryBroadcastSMB v_QueryBroadcastSM"
  "asQueryBroadcastSMResp b = Some v_QueryBroadcastSMResp \<longleftrightarrow> b = QueryBroadcastSMRespB v_QueryBroadcastSMResp"
  "asCancelBroadcastSM b = Some v_CancelBroadcastSM \<longleftrightarrow> b = CancelBroadcastSMB v_CancelBroadcastSM"
  by (cases b; simp add: asBindRequest_def asBindResponse_def asSubmitSM_def asSubmitSMResp_def asDeliverSM_def asDeliverSMResp_def asSubmitMulti_def asSubmitMultiResp_def asDataSM_def asDataSMResp_def asQuerySM_def asQuerySMResp_def asCancelSM_def asReplaceSM_def asAlertNotification_def asOutbind_def asBroadcastSM_def asBroadcastSMResp_def asQueryBroadcastSM_def asQueryBroadcastSMResp_def asCancelBroadcastSM_def)+

lemma as_None [simp]:
  "asBindResponse EmptyB = None" "asBindResponse (OptionalResponseB w) = None"
  "asSubmitSMResp EmptyB = None" "asSubmitSMResp (OptionalResponseB w) = None"
  "asDeliverSMResp EmptyB = None" "asDeliverSMResp (OptionalResponseB w) = None"
  "asSubmitMultiResp EmptyB = None" "asSubmitMultiResp (OptionalResponseB w) = None"
  "asDataSMResp EmptyB = None" "asDataSMResp (OptionalResponseB w) = None"
  "asQuerySMResp EmptyB = None" "asQuerySMResp (OptionalResponseB w) = None"
  "asBroadcastSMResp EmptyB = None" "asBroadcastSMResp (OptionalResponseB w) = None"
  "asQueryBroadcastSMResp EmptyB = None" "asQueryBroadcastSMResp (OptionalResponseB w) = None"
  by (simp_all add: asBindResponse_def asSubmitSMResp_def asDeliverSMResp_def asSubmitMultiResp_def asDataSMResp_def asQuerySMResp_def asBroadcastSMResp_def asQueryBroadcastSMResp_def)

lemma responseSwitch_Inr:
  assumes "sel EmptyB = None" "\<And>w. sel (OptionalResponseB w) = None"
  shows "responseSwitch name sel value = Inr r \<longleftrightarrow>
    (case r of Omitted \<Rightarrow> holdsNothing value
     | Typed v \<Rightarrow> \<exists>b. holds value b \<and> sel b = Some v
     | TLVs ps \<Rightarrow> holds value (OptionalResponseB \<lparr>or_Optional = ps\<rparr>))"
proof -
  have pick: "(case b of EmptyB \<Rightarrow> Inr Omitted
       | OptionalResponseB v \<Rightarrow> Inr (TLVs (or_Optional v))
       | _ \<Rightarrow> (case sel b of Some v \<Rightarrow> Inr (Typed v) | None \<Rightarrow> Inl e)) = Inr r \<longleftrightarrow>
     (case r of Omitted \<Rightarrow> b = EmptyB | Typed v \<Rightarrow> sel b = Some v
      | TLVs ps \<Rightarrow> b = OptionalResponseB \<lparr>or_Optional = ps\<rparr>)" for b and e :: goerr and r
    using assms
    by (cases b; cases r; cases "sel b") (auto simp: OptionalResponse.equality)
  show ?thesis
    unfolding responseSwitch_def Let_def
    by (cases "value"; cases r) (auto simp: pick holds_def holdsNothing_def)
qed

section \<open>The body reader\<close>

record bodyReader =
  src :: bytes
  off :: nat

type_synonym 'a reader = "bodyReader \<Rightarrow> goerr + 'a \<times> bodyReader"

definition bindR :: "'a reader \<Rightarrow> ('a \<Rightarrow> 'b reader) \<Rightarrow> 'b reader" where
  "bindR m f r = bindE (m r) (\<lambda>(a, r'). f a r')"

definition returnR :: "'a \<Rightarrow> 'a reader" where
  "returnR a r = Inr (a, r)"

definition failR :: "goerr \<Rightarrow> 'a reader" where
  "failR e r = Inl e"

text \<open>Run a reader on a body from its first octet, for its value.\<close>

definition runR :: "'a reader \<Rightarrow> bytes \<Rightarrow> goerr + 'a" where
  "runR m body = bindE (m \<lparr>src = body, off = 0\<rparr>) (\<lambda>(a, _). Inr a)"

definition advance :: "(bytes \<Rightarrow> goerr + 'a \<times> nat) \<Rightarrow> 'a reader" where
  "advance p r = bindE (p (drop (off r) (src r))) (\<lambda>(a, n). Inr (a, r\<lparr>off := off r + n\<rparr>))"

definition cString :: "int \<Rightarrow> bytes reader" where
  "cString maxEncodedLen = advance (\<lambda>s. ReadCString s maxEncodedLen)"

definition uint8 :: "byte reader" where
  "uint8 = advance ReadUint8"

definition uint32 :: "u32 reader" where
  "uint32 = advance ReadUint32"

definition octets :: "int \<Rightarrow> bytes reader" where
  "octets n = advance (\<lambda>s. ReadOctets s n)"

definition optional :: "OptionalParameter list reader" where
  "optional r =
     (if off r = length (src r) then Inr ([], r)
      else case ScanTLVs (drop (off r) (src r))
                  (Some (\<lambda>tlv parameters. (True, parameters @ [\<lparr>op_Tag = Tag tlv, op_Value = Value tlv\<rparr>]))) [] of
        (Some err, _) \<Rightarrow> Inl err
      | (None, parameters) \<Rightarrow> Inr (parameters, r\<lparr>off := length (src r)\<rparr>))"

definition requireDone :: "unit reader" where
  "requireDone r =
     (if off r \<noteq> length (src r)
      then Inl (semantic StatusInvalidCommandLength ''%d trailing body octets'' ErrInvalidPDUValue)
      else Inr ((), r))"

text \<open>A counted loop that appends what each turn reads.\<close>

fun repeatR :: "nat \<Rightarrow> 'a reader \<Rightarrow> 'a list reader" where
  "repeatR 0 m = returnR []"
| "repeatR (Suc n) m = bindR m (\<lambda>x. bindR (repeatR n m) (\<lambda>xs. returnR (x # xs)))"

definition requestStatusMustBeZero :: "Header \<Rightarrow> goerr + unit" where
  "requestStatusMustBeZero header =
     (if \<not> OK (h_CommandStatus header)
      then Inl (semantic StatusInvalidMessageLength ''request command_status must be zero'' ErrInvalidPDUValue)
      else Inr ())"

fun appendOptional :: "bytes \<Rightarrow> OptionalParameter list \<Rightarrow> goerr + bytes" where
  "appendOptional dst [] = Inr dst"
| "appendOptional dst (p # ps) =
     bindE (AppendTLV dst (op_Tag p) (op_Value p)) (\<lambda>dst. appendOptional dst ps)"

fun hasNonEmptyMessagePayload :: "OptionalParameter list \<Rightarrow> bool" where
  "hasNonEmptyMessagePayload [] = False"
| "hasNonEmptyMessagePayload (p # ps) =
     (if op_Tag p = TLVTagMessagePayload \<and> length (op_Value p) \<noteq> 0 then True
      else hasNonEmptyMessagePayload ps)"

section \<open>Optional parameters on the wire\<close>

definition toTLV :: "OptionalParameter \<Rightarrow> TLV" where
  "toTLV p = \<lparr>Tag = op_Tag p, Value = op_Value p\<rparr>"

definition opts_ok :: "OptionalParameter list \<Rightarrow> bool" where
  "opts_ok ps \<longleftrightarrow> list_all (\<lambda>p. length (op_Value p) \<le> 65535) ps"

definition opts_wire :: "OptionalParameter list \<Rightarrow> bytes" where
  "opts_wire ps = tlvs_wire (map toTLV ps)"

lemma opts_wire_simps [simp]:
  "opts_wire [] = []"
  "opts_wire (p # ps) = tlv_wire (toTLV p) @ opts_wire ps"
  by (simp_all add: opts_wire_def)

lemma opts_wire_Nil [simp]: "opts_wire ps = [] \<longleftrightarrow> ps = []" "[] = opts_wire ps \<longleftrightarrow> ps = []"
  by (simp_all add: opts_wire_def)

lemma opts_ok_simps [simp]:
  "opts_ok []"
  "opts_ok (p # ps) \<longleftrightarrow> length (op_Value p) \<le> 65535 \<and> opts_ok ps"
  by (simp_all add: opts_ok_def)

lemma appendOptional_Inr [wire_simps]:
  "appendOptional dst ps = Inr out \<longleftrightarrow> opts_ok ps \<and> out = dst @ opts_wire ps"
  by (induction ps arbitrary: dst)
    (auto simp: bindE_eq_Inr AppendTLV_Inr toTLV_def tlv_ok_def)

lemma tlvs_wire_inj: "\<lbrakk>list_all tlv_ok ts; list_all tlv_ok us; tlvs_wire ts = tlvs_wire us\<rbrakk> \<Longrightarrow> ts = us"
  using ParseTLVs_Inr [of "tlvs_wire ts"] by (metis sum.inject(2))

lemma toTLV_inj: "inj toTLV"
  by (rule injI) (simp add: toTLV_def)

lemma opts_wire_inj: "\<lbrakk>opts_ok ps; opts_ok qs; opts_wire ps = opts_wire qs\<rbrakk> \<Longrightarrow> ps = qs"
  using tlvs_wire_inj [of "map toTLV ps" "map toTLV qs"] toTLV_inj
  by (auto simp: opts_ok_def opts_wire_def list_all_iff tlv_ok_def toTLV_def dest: map_injective)

lemma hasNonEmptyMessagePayload_iff:
  "hasNonEmptyMessagePayload ps \<longleftrightarrow> (\<exists>p \<in> set ps. op_Tag p = TLVTagMessagePayload \<and> op_Value p \<noteq> [])"
  by (induction ps) auto

section \<open>When reading succeeds\<close>

text \<open>A reader that has consumed \<open>pre\<close> and still has \<open>rest\<close> to read.\<close>

definition rd :: "bytes \<Rightarrow> bytes \<Rightarrow> bodyReader" where
  "rd pre rest = \<lparr>src = pre @ rest, off = length pre\<rparr>"

lemma runR_Inr [wire_simps]: "runR m body = Inr a \<longleftrightarrow> (\<exists>r. m (rd [] body) = Inr (a, r))"
  by (auto simp: runR_def rd_def bindE_eq_Inr)

lemma bindR_Inr:
  "bindR m f r = Inr (b, r'') \<longleftrightarrow> (\<exists>a r'. m r = Inr (a, r') \<and> f a r' = Inr (b, r''))"
  by (auto simp: bindR_def bindE_eq_Inr)

lemma returnR_Inr [wire_simps]: "returnR a r = Inr (b, r') \<longleftrightarrow> b = a \<and> r' = r"
  by (auto simp: returnR_def)

lemma failR_Inr [simp]: "failR e r \<noteq> Inr x"
  by (simp add: failR_def)

lemma if_failR [wire_simps]: "(if c then failR e else m) r = Inr z \<longleftrightarrow> \<not> c \<and> m r = Inr z"
  by simp

lemma advance_rd:
  "advance p (rd pre xs) = Inr (a, r') \<longleftrightarrow>
     (\<exists>n. p xs = Inr (a, n) \<and> r' = \<lparr>src = pre @ xs, off = length pre + n\<rparr>)"
  by (auto simp: advance_def rd_def bindE_eq_Inr)

lemma rd_consume: "\<lparr>src = pre @ xs @ ys, off = length pre + length xs\<rparr> = rd (pre @ xs) ys"
  by (simp add: rd_def)

lemma cString_rd:
  "cString m (rd pre xs) = Inr (a, r') \<longleftrightarrow> (\<exists>ys. xs = a @ 0 # ys \<and> cstr m a \<and> r' = rd (pre @ a @ [0]) ys)"
  unfolding cString_def advance_rd ReadCString_Inr by (auto simp: rd_def)

lemma uint8_rd:
  "uint8 (rd pre xs) = Inr (b, r') \<longleftrightarrow> (\<exists>ys. xs = b # ys \<and> r' = rd (pre @ [b]) ys)"
  unfolding uint8_def advance_rd ReadUint8_Inr by (auto simp: rd_def)

lemma uint32_rd:
  "uint32 (rd pre xs) = Inr (v, r') \<longleftrightarrow> (\<exists>ys. xs = be32 v @ ys \<and> r' = rd (pre @ be32 v) ys)"
  unfolding uint32_def advance_rd ReadUint32_Inr by (auto simp: rd_def)

lemma octets_rd:
  "octets n (rd pre xs) = Inr (a, r') \<longleftrightarrow> (\<exists>ys. xs = a @ ys \<and> n = int (length a) \<and> r' = rd (pre @ a) ys)"
  unfolding octets_def advance_rd ReadOctets_Inr by (auto simp: rd_def)

lemma requireDone_rd: "requireDone (rd pre xs) = Inr (u, r') \<longleftrightarrow> xs = [] \<and> r' = rd pre []"
  by (auto simp: requireDone_def rd_def)

lemma optional_rd:
  "optional (rd pre xs) = Inr (ps, r') \<longleftrightarrow> xs = opts_wire ps \<and> opts_ok ps \<and> r' = rd (pre @ xs) []"
proof -
  let ?g = "\<lambda>tlv. \<lparr>op_Tag = Tag tlv, op_Value = Value tlv\<rparr>"
  have "optional (rd pre xs) = Inr (ps, r') \<longleftrightarrow>
      (\<exists>ts. ps = map ?g ts \<and> list_all tlv_ok ts \<and> xs = tlvs_wire ts) \<and> r' = rd (pre @ xs) []"
    using scanTLVsFrom_all [of xs 0 ?g "[]" ps]
    by (auto simp: optional_def rd_def ScanTLVs_def split: prod.splits option.splits)
  moreover have "(\<exists>ts. ps = map ?g ts \<and> list_all tlv_ok ts \<and> xs = tlvs_wire ts) \<longleftrightarrow> xs = opts_wire ps \<and> opts_ok ps"
  proof
    assume "\<exists>ts. ps = map ?g ts \<and> list_all tlv_ok ts \<and> xs = tlvs_wire ts"
    then obtain ts where ts: "ps = map ?g ts" "list_all tlv_ok ts" "xs = tlvs_wire ts" by blast
    have "toTLV (?g t) = t" for t by (cases t) (simp add: toTLV_def)
    then have "map toTLV ps = ts" by (simp add: ts(1) comp_def)
    then show "xs = opts_wire ps \<and> opts_ok ps"
      using ts by (auto simp: opts_wire_def opts_ok_def list_all_iff tlv_ok_def)
  next
    assume "xs = opts_wire ps \<and> opts_ok ps"
    moreover have "?g (toTLV p) = p" for p by (cases p) (simp add: toTLV_def)
    then have "map ?g (map toTLV ps) = ps" by (simp add: comp_def)
    ultimately show "\<exists>ts. ps = map ?g ts \<and> list_all tlv_ok ts \<and> xs = tlvs_wire ts"
      by (intro exI [of _ "map toTLV ps"])
        (auto simp: opts_wire_def toTLV_def opts_ok_def list_all_iff tlv_ok_def)
  qed
  ultimately show ?thesis by blast
qed

text \<open>Sequencing after each primitive, on the octets it consumes: a decoder unfolds to a chain of these.\<close>

lemma bindR_rd [wire_simps]:
  "bindR (cString m) f1 (rd pre xs) = Inr z \<longleftrightarrow>
     (\<exists>a ys. xs = a @ 0 # ys \<and> cstr m a \<and> f1 a (rd (pre @ a @ [0]) ys) = Inr z)"
  "bindR uint8 f2 (rd pre xs) = Inr z \<longleftrightarrow> (\<exists>b ys. xs = b # ys \<and> f2 b (rd (pre @ [b]) ys) = Inr z)"
  "bindR uint32 f3 (rd pre xs) = Inr z \<longleftrightarrow> (\<exists>v ys. xs = be32 v @ ys \<and> f3 v (rd (pre @ be32 v) ys) = Inr z)"
  "bindR (octets n) f1 (rd pre xs) = Inr z \<longleftrightarrow>
     (\<exists>a ys. xs = a @ ys \<and> n = int (length a) \<and> f1 a (rd (pre @ a) ys) = Inr z)"
  "bindR optional f4 (rd pre xs) = Inr z \<longleftrightarrow>
     (\<exists>ps. xs = opts_wire ps \<and> opts_ok ps \<and> f4 ps (rd (pre @ xs) []) = Inr z)"
  "bindR requireDone f5 (rd pre xs) = Inr z \<longleftrightarrow> xs = [] \<and> f5 () (rd pre []) = Inr z"
  by (cases z; simp add: bindR_Inr cString_rd uint8_rd uint32_rd octets_rd optional_rd requireDone_rd; blast)+

lemma repeatR_rd:
  assumes "\<And>pre xs d r'. m (rd pre xs) = Inr (d, r') \<longleftrightarrow> (\<exists>ys. xs = w d @ ys \<and> good d \<and> r' = rd (pre @ w d) ys)"
  shows "repeatR n m (rd pre xs) = Inr (ds, r') \<longleftrightarrow>
    (\<exists>ys. xs = concat (map w ds) @ ys \<and> list_all good ds \<and> length ds = n \<and> r' = rd (pre @ concat (map w ds)) ys)"
proof (induction n arbitrary: pre xs ds r')
  case 0
  show ?case by (cases ds) (auto simp: returnR_def)
next
  case (Suc n)
  show ?case
  proof (cases ds)
    case Nil
    then show ?thesis by (auto simp: bindR_Inr returnR_def)
  next
    case (Cons d ds')
    then have "repeatR (Suc n) m (rd pre xs) = Inr (ds, r') \<longleftrightarrow>
        (\<exists>ys. xs = w d @ ys \<and> good d \<and> repeatR n m (rd (pre @ w d) ys) = Inr (ds', r'))"
      by (auto simp: bindR_Inr returnR_Inr assms)
    then show ?thesis unfolding Suc using Cons by auto
  qed
qed

lemma requestStatusMustBeZero_Inr [wire_simps]:
  "requestStatusMustBeZero h = Inr u \<longleftrightarrow> h_CommandStatus h = 0"
  by (auto simp: requestStatusMustBeZero_def)

section \<open>Responses that report an error\<close>

text \<open>
  \<^const>\<open>None\<close> when the response is successful (not handled). Otherwise the result of reading the
  TLVs after the bare header; an empty list stands for the nil slice, which is returned exactly
  when there are none.
\<close>

definition decodeErrorResponseOptional :: "Header \<Rightarrow> bytes \<Rightarrow> (goerr + OptionalParameter list) option" where
  "decodeErrorResponseOptional header body =
     (if OK (h_CommandStatus header) then None
      else if length body = 0 then Some (Inr [])
      else Some (runR optional body))"

text \<open>
  The head of every response decoder: an error response is its \<open>zero\<close> value when it is a bare
  header, an \<^verbatim>\<open>OptionalResponse\<close> when it carries TLVs; a successful one is read by \<open>k\<close>.
\<close>

definition errorResponseOr :: "'v body \<Rightarrow> Header \<Rightarrow> bytes \<Rightarrow> (goerr + 'v any) \<Rightarrow> goerr + 'v any" where
  "errorResponseOr zero header body k =
     (case decodeErrorResponseOptional header body of
        None \<Rightarrow> k
      | Some (Inl err) \<Rightarrow> Inl err
      | Some (Inr parameters) \<Rightarrow>
          if parameters = [] then Inr (Val zero)
          else Inr (Val (OptionalResponseB \<lparr>or_Optional = parameters\<rparr>)))"

definition error_body :: "'v body \<Rightarrow> bytes \<Rightarrow> 'v any \<Rightarrow> bool" where
  "error_body zero body x \<longleftrightarrow> (body = [] \<and> x = Val zero) \<or>
     (\<exists>ps. ps \<noteq> [] \<and> opts_ok ps \<and> body = opts_wire ps \<and> x = Val (OptionalResponseB \<lparr>or_Optional = ps\<rparr>))"

lemma errorResponseOr_ok: "h_CommandStatus h = 0 \<Longrightarrow> errorResponseOr zero h body k = k"
  by (simp add: errorResponseOr_def decodeErrorResponseOptional_def)

lemma errorResponseOr_error:
  assumes "h_CommandStatus h \<noteq> 0"
  shows "errorResponseOr zero h body k = Inr x \<longleftrightarrow> error_body zero body x"
proof (cases "body = []")
  case True
  then show ?thesis
    using assms by (auto simp: errorResponseOr_def decodeErrorResponseOptional_def error_body_def)
next
  case False
  have run: "runR optional body = Inr ps \<longleftrightarrow> opts_ok ps \<and> body = opts_wire ps" for ps
    by (auto simp: runR_Inr optional_rd)
  show ?thesis
  proof (cases "runR optional body")
    case (Inl e)
    then show ?thesis
      using assms False run by (auto simp: errorResponseOr_def decodeErrorResponseOptional_def error_body_def)
  next
    case (Inr ps)
    then have "opts_ok ps" "body = opts_wire ps" using run by auto
    then have "(qs \<noteq> [] \<and> opts_ok qs \<and> body = opts_wire qs) \<longleftrightarrow> qs = ps" for qs
      using False opts_wire_inj [of ps qs] by auto
    then have "error_body zero body x \<longleftrightarrow> x = Val (OptionalResponseB \<lparr>or_Optional = ps\<rparr>)"
      using False unfolding error_body_def by metis
    moreover have "ps \<noteq> []" using False \<open>body = opts_wire ps\<close> by auto
    ultimately show ?thesis
      using assms False Inr by (auto simp: errorResponseOr_def decodeErrorResponseOptional_def)
  qed
qed

section \<open>The contract of a request codec\<close>

text \<open>
  An encoder accepts exactly the valid values of its type and appends their wire form; the decoder
  accepts exactly the wire forms of the valid canonical values, under a zero command_status.
\<close>

locale request_codec =
  fixes inject :: "'a \<Rightarrow> 'v body"
    and enc :: "bytes \<Rightarrow> 'v any \<Rightarrow> goerr + bytes"
    and dec :: "Header \<Rightarrow> bytes \<Rightarrow> goerr + 'v any"
    and valid :: "'a \<Rightarrow> bool"
    and canonical :: "'a \<Rightarrow> bool"
    and wire :: "'a \<Rightarrow> bytes"
  assumes inject: "inject u = inject v \<longleftrightarrow> u = v"
    and enc_Inr: "enc dst value = Inr out \<longleftrightarrow> (\<exists>v. holds value (inject v) \<and> valid v \<and> out = dst @ wire v)"
    and dec_Inr: "dec h body = Inr x \<longleftrightarrow>
      h_CommandStatus h = 0 \<and> (\<exists>v. x = Val (inject v) \<and> valid v \<and> canonical v \<and> body = wire v)"
begin

lemma enc_Val: "enc dst (Val (inject v)) = Inr out \<longleftrightarrow> valid v \<and> out = dst @ wire v"
  by (auto simp: enc_Inr holds_def inject)

lemma enc_then_dec:
  "\<lbrakk>enc dst (Val (inject v)) = Inr out; canonical v; h_CommandStatus h = 0\<rbrakk>
     \<Longrightarrow> \<exists>w. out = dst @ w \<and> dec h w = Inr (Val (inject v))"
  by (auto simp: enc_Val dec_Inr inject)

lemma dec_then_enc: "dec h body = Inr x \<Longrightarrow> enc dst x = Inr (dst @ body)"
  by (auto simp: enc_Inr dec_Inr holds_def)

lemma wire_inject: "\<lbrakk>valid u; canonical u; valid v; canonical v; wire u = wire v\<rbrakk> \<Longrightarrow> u = v"
proof -
  assume *: "valid u" "canonical u" "valid v" "canonical v" "wire u = wire v"
  let ?h = "\<lparr>CommandLength = 0, h_CommandID = 0, h_CommandStatus = 0, h_SequenceNumber = 0\<rparr>"
  have "dec ?h (wire v) = Inr (Val (inject u))"
    unfolding dec_Inr by (intro conjI exI [of _ u]) (use * in simp_all)
  moreover have "dec ?h (wire v) = Inr (Val (inject v))"
    unfolding dec_Inr by (intro conjI exI [of _ v]) (use * in simp_all)
  ultimately have "inject u = inject v" by simp
  then show "u = v" unfolding inject .
qed

lemma enc_appends: "enc dst x = Inr out \<longleftrightarrow> (\<exists>w. enc [] x = Inr w \<and> out = dst @ w)"
  unfolding enc_Inr append_Nil by blast

end

section \<open>The contract of a response codec\<close>

text \<open>
  As for a request, and: a body may be omitted (the encoder then writes \<open>omitted\<close>) or replaced by
  TLVs; an error response is a bare header (read as \<open>zero\<close>) or TLVs; \<open>lenient\<close> says whether a
  successful response without a body is read as \<open>zero\<close> as well.
\<close>

locale response_codec =
  fixes inject :: "'a \<Rightarrow> 'v body"
    and enc :: "bytes \<Rightarrow> 'v any \<Rightarrow> goerr + bytes"
    and dec :: "Header \<Rightarrow> bytes \<Rightarrow> goerr + 'v any"
    and valid :: "'a \<Rightarrow> bool"
    and canonical :: "'a \<Rightarrow> bool"
    and wire :: "'a \<Rightarrow> bytes"
    and zero :: 'a
    and omitted :: bytes
    and lenient :: bool
  assumes inject: "inject u = inject v \<longleftrightarrow> u = v"
    and not_empty: "inject v \<noteq> EmptyB" "inject v \<noteq> OptionalResponseB w"
    and enc_Inr: "enc dst value = Inr out \<longleftrightarrow>
      (holdsNothing value \<and> out = dst @ omitted) \<or>
      (\<exists>v. holds value (inject v) \<and> valid v \<and> out = dst @ wire v) \<or>
      (\<exists>ps. holds value (OptionalResponseB \<lparr>or_Optional = ps\<rparr>) \<and> opts_ok ps \<and> out = dst @ opts_wire ps)"
    and dec_ok: "h_CommandStatus h = 0 \<Longrightarrow> dec h body = Inr x \<longleftrightarrow>
      (\<exists>v. x = Val (inject v) \<and> valid v \<and> canonical v \<and> body = wire v) \<or>
      (lenient \<and> body = [] \<and> x = Val (inject zero))"
    and dec_error: "h_CommandStatus h \<noteq> 0 \<Longrightarrow> dec h body = Inr x \<longleftrightarrow> error_body (inject zero) body x"
    and wire_nonempty: "wire v \<noteq> []"
begin

lemma enc_Val: "enc dst (Val (inject v)) = Inr out \<longleftrightarrow> valid v \<and> out = dst @ wire v"
  by (simp add: enc_Inr holds_def holdsNothing_def inject not_empty)

lemma enc_then_dec:
  "\<lbrakk>enc dst (Val (inject v)) = Inr out; canonical v; h_CommandStatus h = 0\<rbrakk>
     \<Longrightarrow> \<exists>w. out = dst @ w \<and> dec h w = Inr (Val (inject v))"
  unfolding enc_Val by (intro exI [of _ "wire v"]) (simp add: dec_ok, blast)

lemma dec_then_enc:
  "\<lbrakk>dec h body = Inr x; h_CommandStatus h = 0; body \<noteq> []\<rbrakk> \<Longrightarrow> enc dst x = Inr (dst @ body)"
  unfolding dec_ok by (elim disjE exE conjE) (simp_all add: enc_Val)

lemma error_dec_then_enc:
  "\<lbrakk>dec h body = Inr x; h_CommandStatus h \<noteq> 0; body \<noteq> []\<rbrakk> \<Longrightarrow> enc dst x = Inr (dst @ body)"
  unfolding dec_error error_body_def by (elim disjE exE conjE) (simp_all add: enc_Inr holds_def holdsNothing_def not_empty)

lemma enc_appends: "enc dst x = Inr out \<longleftrightarrow> (\<exists>w. enc [] x = Inr w \<and> out = dst @ w)"
  unfolding enc_Inr append_Nil by blast

end

end
