(* ===== verification/Smpp34.thy ===== *)
theory Smpp34
  imports Body
begin

text \<open>
  The bind, submit and deliver codecs of \<^verbatim>\<open>codec/smpp34.go\<close>: one decoder and one
  encoder per body, as the code has them, and for each body its wire form \<open>..._wire\<close> and the
  values \<open>..._valid\<close> it can carry. The interpretations at the end discharge the codec contracts of
  theory \<open>Body\<close>.
\<close>

abbreviation (input) maxSystemIDLen :: int where "maxSystemIDLen \<equiv> 16"
abbreviation (input) maxPasswordLen :: int where "maxPasswordLen \<equiv> 9"
abbreviation (input) maxSystemTypeLen :: int where "maxSystemTypeLen \<equiv> 13"
abbreviation (input) maxAddressRangeLen :: int where "maxAddressRangeLen \<equiv> 41"
abbreviation (input) maxServiceTypeLen :: int where "maxServiceTypeLen \<equiv> 6"
abbreviation (input) maxAddressLen :: int where "maxAddressLen \<equiv> 21"
abbreviation (input) maxTimeFieldLen :: int where "maxTimeFieldLen \<equiv> 17"
abbreviation (input) maxMessageIDLen :: int where "maxMessageIDLen \<equiv> 65"
abbreviation (input) maxShortMessageLength :: nat where "maxShortMessageLength \<equiv> 254"

section \<open>Bind\<close>

definition decodeBindRequest :: "Header \<Rightarrow> bytes \<Rightarrow> goerr + 'v any" where
  "decodeBindRequest header body =
     bindE (requestStatusMustBeZero header) (\<lambda>_. runR (
       bindR (cString maxSystemIDLen) (\<lambda>systemID.
       bindR (cString maxPasswordLen) (\<lambda>password.
       bindR (cString maxSystemTypeLen) (\<lambda>systemType.
       bindR uint8 (\<lambda>interfaceVersion.
       bindR uint8 (\<lambda>ton.
       bindR uint8 (\<lambda>npi.
       bindR (cString maxAddressRangeLen) (\<lambda>addressRange.
       bindR requireDone (\<lambda>_.
       returnR (Val (BindRequestB
         \<lparr>br_SystemID = systemID, br_Password = password, br_SystemType = systemType,
          br_InterfaceVersion = interfaceVersion, br_AddressTON = ton, br_AddressNPI = npi,
          br_AddressRange = addressRange\<rparr>))))))))))) body)"

definition encodeBindRequest :: "bytes \<Rightarrow> 'v any \<Rightarrow> goerr + bytes" where
  "encodeBindRequest dst value =
     bindE (typeSwitch ''BindRequest'' asBindRequest value) (\<lambda>v.
     bindE (AppendCString dst (br_SystemID v) maxSystemIDLen) (\<lambda>dst.
     bindE (AppendCString dst (br_Password v) maxPasswordLen) (\<lambda>dst.
     bindE (AppendCString dst (br_SystemType v) maxSystemTypeLen) (\<lambda>dst.
     let dst = dst @ [br_InterfaceVersion v, br_AddressTON v, br_AddressNPI v] in
     bindE (AppendCString dst (br_AddressRange v) maxAddressRangeLen) (\<lambda>dst. Inr dst)))))"

definition scInterfaceVersionOk :: "OptionalParameter list \<Rightarrow> bool" where
  "scInterfaceVersionOk ps \<longleftrightarrow>
     list_all (\<lambda>p. \<not> (op_Tag p = TLVTagSCInterfaceVersion \<and> length (op_Value p) \<noteq> 1)) ps"

definition decodeBindResponse :: "Header \<Rightarrow> bytes \<Rightarrow> goerr + 'v any" where
  "decodeBindResponse header body =
     errorResponseOr (BindResponseB \<lparr>bresp_SystemID = [], bresp_Optional = []\<rparr>) header body (runR (
       bindR (cString maxSystemIDLen) (\<lambda>systemID.
       bindR optional (\<lambda>parameters.
       if \<not> scInterfaceVersionOk parameters
       then failR (semantic StatusInvalidParameterLength ''sc_interface_version length must be 1'' ErrInvalidPDUValue)
       else returnR (Val (BindResponseB \<lparr>bresp_SystemID = systemID, bresp_Optional = parameters\<rparr>))))) body)"

definition appendBindResponse :: "bytes \<Rightarrow> BindResponse \<Rightarrow> goerr + bytes" where
  "appendBindResponse dst v =
     bindE (AppendCString dst (bresp_SystemID v) maxSystemIDLen) (\<lambda>dst. appendOptional dst (bresp_Optional v))"

definition encodeBindResponse :: "bytes \<Rightarrow> 'v any \<Rightarrow> goerr + bytes" where
  "encodeBindResponse dst value =
     bindE (responseSwitch ''BindResponse'' asBindResponse value) (\<lambda>typed.
       case typed of
         Omitted \<Rightarrow> Inr dst
       | Typed v \<Rightarrow> appendBindResponse dst v
       | TLVs parameters \<Rightarrow> appendOptional dst parameters)"

section \<open>Bodies without mandatory fields\<close>

definition decodeEmpty :: "bytes \<Rightarrow> goerr + 'v any" where
  "decodeEmpty body =
     (if length body \<noteq> 0
      then Inl (semantic StatusInvalidCommandLength ''header-only PDU has %d body octets'' ErrInvalidPDUValue)
      else Inr (Val EmptyB))"

definition decodeRequestEmpty :: "Header \<Rightarrow> bytes \<Rightarrow> goerr + 'v any" where
  "decodeRequestEmpty header body = bindE (requestStatusMustBeZero header) (\<lambda>_. decodeEmpty body)"

definition decodeResponseEmpty :: "Header \<Rightarrow> bytes \<Rightarrow> goerr + 'v any" where
  "decodeResponseEmpty header body =
     (if length body = 0 then Inr (Val EmptyB)
      else runR (bindR optional (\<lambda>parameters.
                 returnR (Val (OptionalResponseB \<lparr>or_Optional = parameters\<rparr>)))) body)"

definition encodeEmpty :: "bytes \<Rightarrow> 'v any \<Rightarrow> goerr + bytes" where
  "encodeEmpty dst value =
     (if holdsNothing value then Inr dst
      else Inl (Wrapped ''expected EmptyBody, got %T'' ErrInvalidPDUValue))"

definition encodeResponseEmpty :: "bytes \<Rightarrow> 'v any \<Rightarrow> goerr + bytes" where
  "encodeResponseEmpty dst value =
     bindE (responseSwitch ''OptionalResponse'' (\<lambda>_. None) value) (\<lambda>typed.
       case typed of
         Omitted \<Rightarrow> Inr dst
       | Typed (v :: unit) \<Rightarrow> Inr dst
       | TLVs parameters \<Rightarrow> appendOptional dst parameters)"

section \<open>Submit and deliver\<close>

record shortMessageBody =
  smb_ServiceType          :: bytes
  smb_SourceAddrTON        :: TON
  smb_SourceAddrNPI        :: NPI
  smb_SourceAddr           :: bytes
  smb_DestAddrTON          :: TON
  smb_DestAddrNPI          :: NPI
  smb_DestinationAddr      :: bytes
  smb_ESMClass             :: byte
  smb_ProtocolID           :: byte
  smb_PriorityFlag         :: byte
  smb_ScheduleDeliveryTime :: bytes
  smb_ValidityPeriod       :: bytes
  smb_RegisteredDelivery   :: byte
  smb_ReplaceIfPresentFlag :: byte
  smb_DataCoding           :: DataCoding
  smb_SMDefaultMsgID       :: byte
  smb_ShortMessage         :: bytes
  smb_Optional             :: "OptionalParameter list"

definition decodeShortMessageBody :: "Header \<Rightarrow> bytes \<Rightarrow> goerr + shortMessageBody" where
  "decodeShortMessageBody header body =
     bindE (requestStatusMustBeZero header) (\<lambda>_. runR (
       bindR (cString maxServiceTypeLen) (\<lambda>serviceType.
       bindR uint8 (\<lambda>sourceTON.
       bindR uint8 (\<lambda>sourceNPI.
       bindR (cString maxAddressLen) (\<lambda>sourceAddr.
       bindR uint8 (\<lambda>destTON.
       bindR uint8 (\<lambda>destNPI.
       bindR (cString maxAddressLen) (\<lambda>destinationAddr.
       bindR uint8 (\<lambda>esmClass.
       bindR uint8 (\<lambda>protocolID.
       bindR uint8 (\<lambda>priorityFlag.
       bindR (cString maxTimeFieldLen) (\<lambda>scheduleDeliveryTime.
       bindR (cString maxTimeFieldLen) (\<lambda>validityPeriod.
       bindR uint8 (\<lambda>registeredDelivery.
       bindR uint8 (\<lambda>replaceIfPresentFlag.
       bindR uint8 (\<lambda>coding.
       bindR uint8 (\<lambda>smDefaultMsgID.
       bindR uint8 (\<lambda>smLength.
       if smLength = 255
       then failR (semantic StatusInvalidMessageLength ''sm_length 255 is not allowed in SMPP 3.4'' ErrInvalidPDUValue)
       else
       bindR (octets (int (unat smLength))) (\<lambda>shortMessage.
       bindR optional (\<lambda>parameters.
       if hasNonEmptyMessagePayload parameters \<and> length shortMessage \<noteq> 0
       then failR (semantic StatusInvalidOptionalParameterValue
              ''message_payload conflicts with a non-empty short_message'' ErrConflictingMessageData)
       else returnR
         \<lparr>smb_ServiceType = serviceType, smb_SourceAddrTON = sourceTON, smb_SourceAddrNPI = sourceNPI,
          smb_SourceAddr = sourceAddr, smb_DestAddrTON = destTON, smb_DestAddrNPI = destNPI,
          smb_DestinationAddr = destinationAddr, smb_ESMClass = esmClass, smb_ProtocolID = protocolID,
          smb_PriorityFlag = priorityFlag, smb_ScheduleDeliveryTime = scheduleDeliveryTime,
          smb_ValidityPeriod = validityPeriod, smb_RegisteredDelivery = registeredDelivery,
          smb_ReplaceIfPresentFlag = replaceIfPresentFlag, smb_DataCoding = coding,
          smb_SMDefaultMsgID = smDefaultMsgID, smb_ShortMessage = shortMessage,
          smb_Optional = parameters\<rparr>))))))))))))))))))) ) body)"

definition appendShortMessageBody :: "bytes \<Rightarrow> shortMessageBody \<Rightarrow> goerr + bytes" where
  "appendShortMessageBody dst v =
     (if length (smb_ShortMessage v) > maxShortMessageLength
      then Inl (Wrapped ''short_message length %d exceeds 254'' ErrFieldTooLong)
      else if hasNonEmptyMessagePayload (smb_Optional v) \<and> length (smb_ShortMessage v) \<noteq> 0
      then Inl ErrConflictingMessageData
      else
        bindE (AppendCString dst (smb_ServiceType v) maxServiceTypeLen) (\<lambda>dst.
        let dst = dst @ [smb_SourceAddrTON v, smb_SourceAddrNPI v] in
        bindE (AppendCString dst (smb_SourceAddr v) maxAddressLen) (\<lambda>dst.
        let dst = dst @ [smb_DestAddrTON v, smb_DestAddrNPI v] in
        bindE (AppendCString dst (smb_DestinationAddr v) maxAddressLen) (\<lambda>dst.
        let dst = dst @ [smb_ESMClass v, smb_ProtocolID v, smb_PriorityFlag v] in
        bindE (AppendCString dst (smb_ScheduleDeliveryTime v) maxTimeFieldLen) (\<lambda>dst.
        bindE (AppendCString dst (smb_ValidityPeriod v) maxTimeFieldLen) (\<lambda>dst.
        let dst = dst @ [smb_RegisteredDelivery v, smb_ReplaceIfPresentFlag v, smb_DataCoding v,
                         smb_SMDefaultMsgID v, of_nat (length (smb_ShortMessage v))] in
        let dst = dst @ smb_ShortMessage v in
        appendOptional dst (smb_Optional v)))))))"

text \<open>
  \<^verbatim>\<open>SubmitSM\<close> and \<^verbatim>\<open>DeliverSM\<close> are distinct types over the same layout: a
  decoder copies the fields out of the shared body, an encoder copies them into it.
\<close>

definition decodeSubmitSM :: "Header \<Rightarrow> bytes \<Rightarrow> goerr + 'v any" where
  "decodeSubmitSM header body =
     bindE (decodeShortMessageBody header body) (\<lambda>decoded. Inr (Val (SubmitSMB
       \<lparr>ssm_ServiceType = smb_ServiceType decoded, ssm_SourceAddrTON = smb_SourceAddrTON decoded,
        ssm_SourceAddrNPI = smb_SourceAddrNPI decoded, ssm_SourceAddr = smb_SourceAddr decoded,
        ssm_DestAddrTON = smb_DestAddrTON decoded, ssm_DestAddrNPI = smb_DestAddrNPI decoded,
        ssm_DestinationAddr = smb_DestinationAddr decoded, ssm_ESMClass = smb_ESMClass decoded,
        ssm_ProtocolID = smb_ProtocolID decoded, ssm_PriorityFlag = smb_PriorityFlag decoded,
        ssm_ScheduleDeliveryTime = smb_ScheduleDeliveryTime decoded, ssm_ValidityPeriod = smb_ValidityPeriod decoded,
        ssm_RegisteredDelivery = smb_RegisteredDelivery decoded, ssm_ReplaceIfPresentFlag = smb_ReplaceIfPresentFlag decoded,
        ssm_DataCoding = smb_DataCoding decoded, ssm_SMDefaultMsgID = smb_SMDefaultMsgID decoded,
        ssm_ShortMessage = smb_ShortMessage decoded, ssm_Optional = smb_Optional decoded\<rparr>)))"

definition shortMessageOfSubmitSM :: "SubmitSM \<Rightarrow> shortMessageBody" where
  "shortMessageOfSubmitSM v =
     \<lparr>smb_ServiceType = ssm_ServiceType v, smb_SourceAddrTON = ssm_SourceAddrTON v,
      smb_SourceAddrNPI = ssm_SourceAddrNPI v, smb_SourceAddr = ssm_SourceAddr v,
      smb_DestAddrTON = ssm_DestAddrTON v, smb_DestAddrNPI = ssm_DestAddrNPI v,
      smb_DestinationAddr = ssm_DestinationAddr v, smb_ESMClass = ssm_ESMClass v,
      smb_ProtocolID = ssm_ProtocolID v, smb_PriorityFlag = ssm_PriorityFlag v,
      smb_ScheduleDeliveryTime = ssm_ScheduleDeliveryTime v, smb_ValidityPeriod = ssm_ValidityPeriod v,
      smb_RegisteredDelivery = ssm_RegisteredDelivery v, smb_ReplaceIfPresentFlag = ssm_ReplaceIfPresentFlag v,
      smb_DataCoding = ssm_DataCoding v, smb_SMDefaultMsgID = ssm_SMDefaultMsgID v,
      smb_ShortMessage = ssm_ShortMessage v, smb_Optional = ssm_Optional v\<rparr>"

definition encodeSubmitSM :: "bytes \<Rightarrow> 'v any \<Rightarrow> goerr + bytes" where
  "encodeSubmitSM dst value =
     bindE (typeSwitch ''SubmitSM'' asSubmitSM value) (\<lambda>v. appendShortMessageBody dst (shortMessageOfSubmitSM v))"

definition decodeDeliverSM :: "Header \<Rightarrow> bytes \<Rightarrow> goerr + 'v any" where
  "decodeDeliverSM header body =
     bindE (decodeShortMessageBody header body) (\<lambda>decoded. Inr (Val (DeliverSMB
       \<lparr>dsm_ServiceType = smb_ServiceType decoded, dsm_SourceAddrTON = smb_SourceAddrTON decoded,
        dsm_SourceAddrNPI = smb_SourceAddrNPI decoded, dsm_SourceAddr = smb_SourceAddr decoded,
        dsm_DestAddrTON = smb_DestAddrTON decoded, dsm_DestAddrNPI = smb_DestAddrNPI decoded,
        dsm_DestinationAddr = smb_DestinationAddr decoded, dsm_ESMClass = smb_ESMClass decoded,
        dsm_ProtocolID = smb_ProtocolID decoded, dsm_PriorityFlag = smb_PriorityFlag decoded,
        dsm_ScheduleDeliveryTime = smb_ScheduleDeliveryTime decoded, dsm_ValidityPeriod = smb_ValidityPeriod decoded,
        dsm_RegisteredDelivery = smb_RegisteredDelivery decoded, dsm_ReplaceIfPresentFlag = smb_ReplaceIfPresentFlag decoded,
        dsm_DataCoding = smb_DataCoding decoded, dsm_SMDefaultMsgID = smb_SMDefaultMsgID decoded,
        dsm_ShortMessage = smb_ShortMessage decoded, dsm_Optional = smb_Optional decoded\<rparr>)))"

definition shortMessageOfDeliverSM :: "DeliverSM \<Rightarrow> shortMessageBody" where
  "shortMessageOfDeliverSM v =
     \<lparr>smb_ServiceType = dsm_ServiceType v, smb_SourceAddrTON = dsm_SourceAddrTON v,
      smb_SourceAddrNPI = dsm_SourceAddrNPI v, smb_SourceAddr = dsm_SourceAddr v,
      smb_DestAddrTON = dsm_DestAddrTON v, smb_DestAddrNPI = dsm_DestAddrNPI v,
      smb_DestinationAddr = dsm_DestinationAddr v, smb_ESMClass = dsm_ESMClass v,
      smb_ProtocolID = dsm_ProtocolID v, smb_PriorityFlag = dsm_PriorityFlag v,
      smb_ScheduleDeliveryTime = dsm_ScheduleDeliveryTime v, smb_ValidityPeriod = dsm_ValidityPeriod v,
      smb_RegisteredDelivery = dsm_RegisteredDelivery v, smb_ReplaceIfPresentFlag = dsm_ReplaceIfPresentFlag v,
      smb_DataCoding = dsm_DataCoding v, smb_SMDefaultMsgID = dsm_SMDefaultMsgID v,
      smb_ShortMessage = dsm_ShortMessage v, smb_Optional = dsm_Optional v\<rparr>"

definition encodeDeliverSM :: "bytes \<Rightarrow> 'v any \<Rightarrow> goerr + bytes" where
  "encodeDeliverSM dst value =
     bindE (typeSwitch ''DeliverSM'' asDeliverSM value) (\<lambda>v. appendShortMessageBody dst (shortMessageOfDeliverSM v))"

definition decodeSubmitSMResp :: "Header \<Rightarrow> bytes \<Rightarrow> goerr + 'v any" where
  "decodeSubmitSMResp header body =
     errorResponseOr (SubmitSMRespB \<lparr>ssmr_MessageID = [], ssmr_Optional = []\<rparr>) header body (
       runR (
       bindR (cString maxMessageIDLen) (\<lambda>messageID.
       bindR optional (\<lambda>parameters.
       returnR (Val (SubmitSMRespB \<lparr>ssmr_MessageID = messageID, ssmr_Optional = parameters\<rparr>))))) body)"

definition appendSubmitSMResp :: "bytes \<Rightarrow> SubmitSMResp \<Rightarrow> goerr + bytes" where
  "appendSubmitSMResp dst v =
     bindE (AppendCString dst (ssmr_MessageID v) maxMessageIDLen) (\<lambda>dst. appendOptional dst (ssmr_Optional v))"

definition encodeSubmitSMResp :: "bytes \<Rightarrow> 'v any \<Rightarrow> goerr + bytes" where
  "encodeSubmitSMResp dst value =
     bindE (responseSwitch ''SubmitSMResp'' asSubmitSMResp value) (\<lambda>typed.
       case typed of
         Omitted \<Rightarrow> Inr dst
       | Typed v \<Rightarrow> appendSubmitSMResp dst v
       | TLVs parameters \<Rightarrow> appendOptional dst parameters)"

definition decodeDeliverSMResp :: "Header \<Rightarrow> bytes \<Rightarrow> goerr + 'v any" where
  "decodeDeliverSMResp header body =
     errorResponseOr (DeliverSMRespB \<lparr>dsmr_MessageID = [], dsmr_Optional = []\<rparr>) header body (
       if length body = 0 then Inr (Val (DeliverSMRespB \<lparr>dsmr_MessageID = [], dsmr_Optional = []\<rparr>))
       else runR (
       bindR (cString maxMessageIDLen) (\<lambda>messageID.
       bindR optional (\<lambda>parameters.
       returnR (Val (DeliverSMRespB \<lparr>dsmr_MessageID = messageID, dsmr_Optional = parameters\<rparr>))))) body)"

definition appendDeliverSMResp :: "bytes \<Rightarrow> DeliverSMResp \<Rightarrow> goerr + bytes" where
  "appendDeliverSMResp dst v =
     bindE (AppendCString dst (dsmr_MessageID v) maxMessageIDLen) (\<lambda>dst. appendOptional dst (dsmr_Optional v))"

definition encodeDeliverSMResp :: "bytes \<Rightarrow> 'v any \<Rightarrow> goerr + bytes" where
  "encodeDeliverSMResp dst value =
     bindE (responseSwitch ''DeliverSMResp'' asDeliverSMResp value) (\<lambda>typed.
       case typed of
         Omitted \<Rightarrow> appendDeliverSMResp dst \<lparr>dsmr_MessageID = [], dsmr_Optional = []\<rparr>
       | Typed v \<Rightarrow> appendDeliverSMResp dst v
       | TLVs parameters \<Rightarrow> appendOptional dst parameters)"

section \<open>Wire forms\<close>

definition bindRequest_valid :: "BindRequest \<Rightarrow> bool" where
  "bindRequest_valid v \<longleftrightarrow> cstr maxSystemIDLen (br_SystemID v) \<and> cstr maxPasswordLen (br_Password v)
     \<and> cstr maxSystemTypeLen (br_SystemType v) \<and> cstr maxAddressRangeLen (br_AddressRange v)"

definition bindRequest_wire :: "BindRequest \<Rightarrow> bytes" where
  "bindRequest_wire v = br_SystemID v @ [0] @ br_Password v @ [0] @ br_SystemType v @ [0]
     @ [br_InterfaceVersion v, br_AddressTON v, br_AddressNPI v] @ br_AddressRange v @ [0]"

definition bindResponse_valid :: "BindResponse \<Rightarrow> bool" where
  "bindResponse_valid v \<longleftrightarrow> cstr maxSystemIDLen (bresp_SystemID v) \<and> opts_ok (bresp_Optional v)"

definition bindResponse_wire :: "BindResponse \<Rightarrow> bytes" where
  "bindResponse_wire v = bresp_SystemID v @ [0] @ opts_wire (bresp_Optional v)"

definition shortMessage_valid :: "shortMessageBody \<Rightarrow> bool" where
  "shortMessage_valid v \<longleftrightarrow> cstr maxServiceTypeLen (smb_ServiceType v) \<and> cstr maxAddressLen (smb_SourceAddr v)
     \<and> cstr maxAddressLen (smb_DestinationAddr v) \<and> cstr maxTimeFieldLen (smb_ScheduleDeliveryTime v)
     \<and> cstr maxTimeFieldLen (smb_ValidityPeriod v) \<and> length (smb_ShortMessage v) \<le> 254
     \<and> opts_ok (smb_Optional v)
     \<and> \<not> (hasNonEmptyMessagePayload (smb_Optional v) \<and> smb_ShortMessage v \<noteq> [])"

definition shortMessage_wire :: "shortMessageBody \<Rightarrow> bytes" where
  "shortMessage_wire v = smb_ServiceType v @ [0] @ [smb_SourceAddrTON v, smb_SourceAddrNPI v]
     @ smb_SourceAddr v @ [0] @ [smb_DestAddrTON v, smb_DestAddrNPI v] @ smb_DestinationAddr v @ [0]
     @ [smb_ESMClass v, smb_ProtocolID v, smb_PriorityFlag v] @ smb_ScheduleDeliveryTime v @ [0]
     @ smb_ValidityPeriod v @ [0]
     @ [smb_RegisteredDelivery v, smb_ReplaceIfPresentFlag v, smb_DataCoding v, smb_SMDefaultMsgID v,
        of_nat (length (smb_ShortMessage v))] @ smb_ShortMessage v @ opts_wire (smb_Optional v)"

definition messageID_valid :: "bytes \<Rightarrow> OptionalParameter list \<Rightarrow> bool" where
  "messageID_valid i ps \<longleftrightarrow> cstr maxMessageIDLen i \<and> opts_ok ps"

definition messageID_wire :: "bytes \<Rightarrow> OptionalParameter list \<Rightarrow> bytes" where
  "messageID_wire i ps = i @ [0] @ opts_wire ps"

section \<open>The codecs on the wire forms\<close>

lemma response_ex:
  "(\<exists>r. P r) \<longleftrightarrow> P Omitted \<or> (\<exists>v. P (Typed v)) \<or> (\<exists>ps. P (TLVs ps))"
  by (metis response.exhaust)

lemma encodeBindRequest_Inr:
  "encodeBindRequest dst value = Inr out \<longleftrightarrow>
     (\<exists>v. holds value (BindRequestB v) \<and> bindRequest_valid v \<and> out = dst @ bindRequest_wire v)"
  by (simp add: encodeBindRequest_def Let_def wire_simps bindRequest_valid_def bindRequest_wire_def) auto

lemma decodeBindRequest_Inr:
  "decodeBindRequest h body = Inr x \<longleftrightarrow> h_CommandStatus h = 0 \<and>
     (\<exists>v. x = Val (BindRequestB v) \<and> bindRequest_valid v \<and> True \<and> body = bindRequest_wire v)"
  by (simp add: decodeBindRequest_def wire_simps bindRequest_valid_def bindRequest_wire_def
      BindRequest.splits) auto

interpretation bindRequest: request_codec BindRequestB encodeBindRequest decodeBindRequest
  bindRequest_valid "\<lambda>_. True" bindRequest_wire
  by unfold_locales (simp_all add: encodeBindRequest_Inr decodeBindRequest_Inr)

lemma encodeBindResponse_Inr:
  "encodeBindResponse dst value = Inr out \<longleftrightarrow>
     (holdsNothing value \<and> out = dst @ []) \<or>
     (\<exists>v. holds value (BindResponseB v) \<and> bindResponse_valid v \<and> out = dst @ bindResponse_wire v) \<or>
     (\<exists>ps. holds value (OptionalResponseB \<lparr>or_Optional = ps\<rparr>) \<and> opts_ok ps \<and> out = dst @ opts_wire ps)"
  by (simp add: encodeBindResponse_def response_ex appendBindResponse_def responseSwitch_Inr wire_simps
      bindResponse_valid_def bindResponse_wire_def) auto

lemma decodeBindResponse_ok:
  "h_CommandStatus h = 0 \<Longrightarrow> decodeBindResponse h body = Inr x \<longleftrightarrow>
     (\<exists>v. x = Val (BindResponseB v) \<and> bindResponse_valid v \<and> scInterfaceVersionOk (bresp_Optional v)
        \<and> body = bindResponse_wire v)"
  by (simp add: decodeBindResponse_def errorResponseOr_ok wire_simps
      bindResponse_valid_def bindResponse_wire_def BindResponse.splits) auto

lemma decodeBindResponse_error:
  "h_CommandStatus h \<noteq> 0 \<Longrightarrow> decodeBindResponse h body = Inr x \<longleftrightarrow>
     error_body (BindResponseB \<lparr>bresp_SystemID = [], bresp_Optional = []\<rparr>) body x"
  by (simp add: decodeBindResponse_def errorResponseOr_error)

interpretation bindResponse: response_codec BindResponseB encodeBindResponse decodeBindResponse
  bindResponse_valid "\<lambda>v. scInterfaceVersionOk (bresp_Optional v)" bindResponse_wire
  "\<lparr>bresp_SystemID = [], bresp_Optional = []\<rparr>" "[]" False
  by unfold_locales
    (simp_all add: encodeBindResponse_Inr decodeBindResponse_ok decodeBindResponse_error bindResponse_wire_def)

lemma decodeRequestEmpty_Inr:
  "decodeRequestEmpty h body = Inr x \<longleftrightarrow> h_CommandStatus h = 0 \<and> x = Val EmptyB \<and> body = []"
  by (auto simp: decodeRequestEmpty_def decodeEmpty_def wire_simps)

lemma encodeEmpty_Inr: "encodeEmpty dst value = Inr out \<longleftrightarrow> holdsNothing value \<and> out = dst"
  by (auto simp: encodeEmpty_def)

lemma decodeResponseEmpty_Inr:
  "decodeResponseEmpty h body = Inr x \<longleftrightarrow> error_body EmptyB body x"
  by (cases "body = []") (auto simp: decodeResponseEmpty_def wire_simps error_body_def)

lemma encodeResponseEmpty_Inr:
  "encodeResponseEmpty dst value = Inr out \<longleftrightarrow>
     (holdsNothing value \<and> out = dst) \<or>
     (\<exists>ps. holds value (OptionalResponseB \<lparr>or_Optional = ps\<rparr>) \<and> opts_ok ps \<and> out = dst @ opts_wire ps)"
  by (simp add: encodeResponseEmpty_def response_ex responseSwitch_Inr wire_simps) auto

lemma byte_of_length: "uint (b :: byte) = int n \<longleftrightarrow> b = of_nat n \<and> n \<le> 255"
proof
  assume *: "uint b = int n"
  moreover have "uint b < 2 ^ LENGTH(8)" by (rule unsigned_less)
  moreover have "b = of_nat n" using * by (metis of_int_of_nat_eq word_of_int_uint)
  ultimately show "b = of_nat n \<and> n \<le> 255" by simp
qed (simp add: uint_nat unat_of_nat take_bit_nat_eq_self)

lemma byte_of_length_255: "n \<le> 255 \<Longrightarrow> (of_nat n :: byte) = 255 \<longleftrightarrow> n = 255"
  using byte_of_length [of 255 n] by auto

lemma appendShortMessageBody_Inr:
  "appendShortMessageBody dst v = Inr out \<longleftrightarrow> shortMessage_valid v \<and> out = dst @ shortMessage_wire v"
  by (simp add: appendShortMessageBody_def Let_def wire_simps shortMessage_valid_def shortMessage_wire_def) auto

lemma decodeShortMessageBody_Inr:
  "decodeShortMessageBody h body = Inr v \<longleftrightarrow>
     h_CommandStatus h = 0 \<and> shortMessage_valid v \<and> body = shortMessage_wire v"
proof (cases v)
  case (fields st ston snpi sa dton dnpi da esm pid pri sched vp rd rep dc def sm ps)
  show ?thesis
    unfolding fields
    by (simp add: decodeShortMessageBody_def wire_simps byte_of_length
        shortMessage_valid_def shortMessage_wire_def)
      (auto simp: byte_of_length_255)
qed

lemma encodeSubmitSMResp_Inr:
  "encodeSubmitSMResp dst value = Inr out \<longleftrightarrow>
     (holdsNothing value \<and> out = dst @ []) \<or>
     (\<exists>v. holds value (SubmitSMRespB v) \<and> messageID_valid (ssmr_MessageID v) (ssmr_Optional v)
        \<and> out = dst @ messageID_wire (ssmr_MessageID v) (ssmr_Optional v)) \<or>
     (\<exists>ps. holds value (OptionalResponseB \<lparr>or_Optional = ps\<rparr>) \<and> opts_ok ps \<and> out = dst @ opts_wire ps)"
  by (simp add: encodeSubmitSMResp_def response_ex appendSubmitSMResp_def responseSwitch_Inr wire_simps
      messageID_valid_def messageID_wire_def) auto

lemma decodeSubmitSMResp_ok:
  "h_CommandStatus h = 0 \<Longrightarrow> decodeSubmitSMResp h body = Inr x \<longleftrightarrow>
     (\<exists>v. x = Val (SubmitSMRespB v) \<and> messageID_valid (ssmr_MessageID v) (ssmr_Optional v)
        \<and> True \<and> body = messageID_wire (ssmr_MessageID v) (ssmr_Optional v))"
  by (simp add: decodeSubmitSMResp_def errorResponseOr_ok wire_simps messageID_valid_def messageID_wire_def
      SubmitSMResp.splits) auto

lemma decodeSubmitSMResp_error:
  "h_CommandStatus h \<noteq> 0 \<Longrightarrow> decodeSubmitSMResp h body = Inr x \<longleftrightarrow>
     error_body (SubmitSMRespB \<lparr>ssmr_MessageID = [], ssmr_Optional = []\<rparr>) body x"
  by (simp add: decodeSubmitSMResp_def errorResponseOr_error)

interpretation submitSMResp: response_codec SubmitSMRespB encodeSubmitSMResp decodeSubmitSMResp
  "\<lambda>v. messageID_valid (ssmr_MessageID v) (ssmr_Optional v)" "\<lambda>_. True"
  "\<lambda>v. messageID_wire (ssmr_MessageID v) (ssmr_Optional v)" "\<lparr>ssmr_MessageID = [], ssmr_Optional = []\<rparr>" "[]" False
  by unfold_locales
    (simp_all add: encodeSubmitSMResp_Inr decodeSubmitSMResp_ok decodeSubmitSMResp_error messageID_wire_def)

lemma encodeDeliverSMResp_Inr:
  "encodeDeliverSMResp dst value = Inr out \<longleftrightarrow>
     (holdsNothing value \<and> out = dst @ [0]) \<or>
     (\<exists>v. holds value (DeliverSMRespB v) \<and> messageID_valid (dsmr_MessageID v) (dsmr_Optional v)
        \<and> out = dst @ messageID_wire (dsmr_MessageID v) (dsmr_Optional v)) \<or>
     (\<exists>ps. holds value (OptionalResponseB \<lparr>or_Optional = ps\<rparr>) \<and> opts_ok ps \<and> out = dst @ opts_wire ps)"
  by (simp add: encodeDeliverSMResp_def response_ex appendDeliverSMResp_def responseSwitch_Inr wire_simps
      messageID_valid_def messageID_wire_def cstr_def) auto

lemma decodeDeliverSMResp_ok:
  "h_CommandStatus h = 0 \<Longrightarrow> decodeDeliverSMResp h body = Inr x \<longleftrightarrow>
     (\<exists>v. x = Val (DeliverSMRespB v) \<and> messageID_valid (dsmr_MessageID v) (dsmr_Optional v)
        \<and> True \<and> body = messageID_wire (dsmr_MessageID v) (dsmr_Optional v)) \<or>
     (body = [] \<and> x = Val (DeliverSMRespB \<lparr>dsmr_MessageID = [], dsmr_Optional = []\<rparr>))"
  by (cases body; simp add: decodeDeliverSMResp_def errorResponseOr_ok wire_simps messageID_valid_def messageID_wire_def
      DeliverSMResp.splits; auto)

lemma decodeDeliverSMResp_error:
  "h_CommandStatus h \<noteq> 0 \<Longrightarrow> decodeDeliverSMResp h body = Inr x \<longleftrightarrow>
     error_body (DeliverSMRespB \<lparr>dsmr_MessageID = [], dsmr_Optional = []\<rparr>) body x"
  by (simp add: decodeDeliverSMResp_def errorResponseOr_error)

interpretation deliverSMResp: response_codec DeliverSMRespB encodeDeliverSMResp decodeDeliverSMResp
  "\<lambda>v. messageID_valid (dsmr_MessageID v) (dsmr_Optional v)" "\<lambda>_. True"
  "\<lambda>v. messageID_wire (dsmr_MessageID v) (dsmr_Optional v)" "\<lparr>dsmr_MessageID = [], dsmr_Optional = []\<rparr>" "[0]" True
  by unfold_locales
    (simp_all add: encodeDeliverSMResp_Inr decodeDeliverSMResp_ok decodeDeliverSMResp_error messageID_wire_def)

lemma encodeSubmitSM_Inr:
  "encodeSubmitSM dst value = Inr out \<longleftrightarrow>
     (\<exists>v. holds value (SubmitSMB v) \<and> shortMessage_valid (shortMessageOfSubmitSM v)
        \<and> out = dst @ shortMessage_wire (shortMessageOfSubmitSM v))"
  by (simp add: encodeSubmitSM_def wire_simps appendShortMessageBody_Inr)

lemma shortMessageOfSubmitSM_ex: "(\<exists>d. P d) \<longleftrightarrow> (\<exists>v. P (shortMessageOfSubmitSM v))"
proof
  assume "\<exists>d. P d"
  then obtain d where "P d" by blast
  then show "\<exists>v. P (shortMessageOfSubmitSM v)"
    by (intro exI [of _ "\<lparr>ssm_ServiceType = smb_ServiceType d, ssm_SourceAddrTON = smb_SourceAddrTON d,
                        ssm_SourceAddrNPI = smb_SourceAddrNPI d, ssm_SourceAddr = smb_SourceAddr d,
                        ssm_DestAddrTON = smb_DestAddrTON d, ssm_DestAddrNPI = smb_DestAddrNPI d,
                        ssm_DestinationAddr = smb_DestinationAddr d, ssm_ESMClass = smb_ESMClass d,
                        ssm_ProtocolID = smb_ProtocolID d, ssm_PriorityFlag = smb_PriorityFlag d,
                        ssm_ScheduleDeliveryTime = smb_ScheduleDeliveryTime d, ssm_ValidityPeriod = smb_ValidityPeriod d,
                        ssm_RegisteredDelivery = smb_RegisteredDelivery d, ssm_ReplaceIfPresentFlag = smb_ReplaceIfPresentFlag d,
                        ssm_DataCoding = smb_DataCoding d, ssm_SMDefaultMsgID = smb_SMDefaultMsgID d,
                        ssm_ShortMessage = smb_ShortMessage d, ssm_Optional = smb_Optional d\<rparr>"])
      (cases d, simp add: shortMessageOfSubmitSM_def)
qed blast

lemma decodeSubmitSM_Inr:
  "decodeSubmitSM h body = Inr x \<longleftrightarrow> h_CommandStatus h = 0 \<and>
     (\<exists>v. x = Val (SubmitSMB v) \<and> shortMessage_valid (shortMessageOfSubmitSM v) \<and> True
        \<and> body = shortMessage_wire (shortMessageOfSubmitSM v))"
  by (simp add: decodeSubmitSM_def bindE_eq_Inr decodeShortMessageBody_Inr shortMessageOfSubmitSM_ex)
    (auto simp: shortMessageOfSubmitSM_def)

interpretation submitSM: request_codec SubmitSMB encodeSubmitSM decodeSubmitSM
  "\<lambda>v. shortMessage_valid (shortMessageOfSubmitSM v)" "\<lambda>_. True" "\<lambda>v. shortMessage_wire (shortMessageOfSubmitSM v)"
  by unfold_locales (simp_all add: encodeSubmitSM_Inr decodeSubmitSM_Inr)

lemma encodeDeliverSM_Inr:
  "encodeDeliverSM dst value = Inr out \<longleftrightarrow>
     (\<exists>v. holds value (DeliverSMB v) \<and> shortMessage_valid (shortMessageOfDeliverSM v)
        \<and> out = dst @ shortMessage_wire (shortMessageOfDeliverSM v))"
  by (simp add: encodeDeliverSM_def wire_simps appendShortMessageBody_Inr)

lemma shortMessageOfDeliverSM_ex: "(\<exists>d. P d) \<longleftrightarrow> (\<exists>v. P (shortMessageOfDeliverSM v))"
proof
  assume "\<exists>d. P d"
  then obtain d where "P d" by blast
  then show "\<exists>v. P (shortMessageOfDeliverSM v)"
    by (intro exI [of _ "\<lparr>dsm_ServiceType = smb_ServiceType d, dsm_SourceAddrTON = smb_SourceAddrTON d,
                        dsm_SourceAddrNPI = smb_SourceAddrNPI d, dsm_SourceAddr = smb_SourceAddr d,
                        dsm_DestAddrTON = smb_DestAddrTON d, dsm_DestAddrNPI = smb_DestAddrNPI d,
                        dsm_DestinationAddr = smb_DestinationAddr d, dsm_ESMClass = smb_ESMClass d,
                        dsm_ProtocolID = smb_ProtocolID d, dsm_PriorityFlag = smb_PriorityFlag d,
                        dsm_ScheduleDeliveryTime = smb_ScheduleDeliveryTime d, dsm_ValidityPeriod = smb_ValidityPeriod d,
                        dsm_RegisteredDelivery = smb_RegisteredDelivery d, dsm_ReplaceIfPresentFlag = smb_ReplaceIfPresentFlag d,
                        dsm_DataCoding = smb_DataCoding d, dsm_SMDefaultMsgID = smb_SMDefaultMsgID d,
                        dsm_ShortMessage = smb_ShortMessage d, dsm_Optional = smb_Optional d\<rparr>"])
      (cases d, simp add: shortMessageOfDeliverSM_def)
qed blast

lemma decodeDeliverSM_Inr:
  "decodeDeliverSM h body = Inr x \<longleftrightarrow> h_CommandStatus h = 0 \<and>
     (\<exists>v. x = Val (DeliverSMB v) \<and> shortMessage_valid (shortMessageOfDeliverSM v) \<and> True
        \<and> body = shortMessage_wire (shortMessageOfDeliverSM v))"
  by (simp add: decodeDeliverSM_def bindE_eq_Inr decodeShortMessageBody_Inr shortMessageOfDeliverSM_ex)
    (auto simp: shortMessageOfDeliverSM_def)

interpretation deliverSM: request_codec DeliverSMB encodeDeliverSM decodeDeliverSM
  "\<lambda>v. shortMessage_valid (shortMessageOfDeliverSM v)" "\<lambda>_. True" "\<lambda>v. shortMessage_wire (shortMessageOfDeliverSM v)"
  by unfold_locales (simp_all add: encodeDeliverSM_Inr decodeDeliverSM_Inr)

end
