(* ===== verification/Smpp34_Extra.thy ===== *)
theory Smpp34_Extra
  imports Smpp34
begin

text \<open>
  The remaining SMPP 3.4 codecs (\<^verbatim>\<open>codec/smpp34_extra.go\<close>): data, query, cancel,
  replace, alert_notification, outbind and submit_multi, organised as theory \<open>Smpp34\<close>. The two
  variable-length lists (destinations and unsuccessful deliveries) are counted loops. A
  distribution-list destination carries no TON/NPI on the wire, so its canonical form has them
  zero.
\<close>

abbreviation (input) maxDataAddressLen :: int where "maxDataAddressLen \<equiv> 65"
abbreviation (input) maxDLNameLen :: int where "maxDLNameLen \<equiv> 21"

section \<open>Data\<close>

definition decodeDataSM :: "Header \<Rightarrow> bytes \<Rightarrow> goerr + 'v any" where
  "decodeDataSM header body =
     bindE (requestStatusMustBeZero header) (\<lambda>_. runR (
       bindR (cString maxServiceTypeLen) (\<lambda>serviceType.
       bindR uint8 (\<lambda>sourceAddrTON.
       bindR uint8 (\<lambda>sourceAddrNPI.
       bindR (cString maxDataAddressLen) (\<lambda>sourceAddr.
       bindR uint8 (\<lambda>destAddrTON.
       bindR uint8 (\<lambda>destAddrNPI.
       bindR (cString maxDataAddressLen) (\<lambda>destinationAddr.
       bindR uint8 (\<lambda>esmClass.
       bindR uint8 (\<lambda>registeredDelivery.
       bindR uint8 (\<lambda>dataCoding.
       bindR optional (\<lambda>parameters.
       returnR (Val (DataSMB
         \<lparr>data_ServiceType = serviceType, data_SourceAddrTON = sourceAddrTON, data_SourceAddrNPI = sourceAddrNPI,
          data_SourceAddr = sourceAddr, data_DestAddrTON = destAddrTON, data_DestAddrNPI = destAddrNPI,
          data_DestinationAddr = destinationAddr, data_ESMClass = esmClass, data_RegisteredDelivery = registeredDelivery,
          data_DataCoding = dataCoding, data_Optional = parameters\<rparr>)))))))))))))) body)"

definition encodeDataSM :: "bytes \<Rightarrow> 'v any \<Rightarrow> goerr + bytes" where
  "encodeDataSM dst value =
     bindE (typeSwitch ''DataSM'' asDataSM value) (\<lambda>v.
     bindE (AppendCString dst (data_ServiceType v) maxServiceTypeLen) (\<lambda>dst.
     let dst = dst @ [data_SourceAddrTON v, data_SourceAddrNPI v] in
     bindE (AppendCString dst (data_SourceAddr v) maxDataAddressLen) (\<lambda>dst.
     let dst = dst @ [data_DestAddrTON v, data_DestAddrNPI v] in
     bindE (AppendCString dst (data_DestinationAddr v) maxDataAddressLen) (\<lambda>dst.
     let dst = dst @ [data_ESMClass v, data_RegisteredDelivery v, data_DataCoding v] in
     appendOptional dst (data_Optional v)))))"

definition decodeDataSMResp :: "Header \<Rightarrow> bytes \<Rightarrow> goerr + 'v any" where
  "decodeDataSMResp header body =
     errorResponseOr (DataSMRespB \<lparr>datar_MessageID = [], datar_Optional = []\<rparr>) header body (runR (
       bindR (cString maxMessageIDLen) (\<lambda>messageID.
       bindR optional (\<lambda>parameters.
       returnR (Val (DataSMRespB
         \<lparr>datar_MessageID = messageID, datar_Optional = parameters\<rparr>))))) body)"

definition appendDataSMResp :: "bytes \<Rightarrow> DataSMResp \<Rightarrow> goerr + bytes" where
  "appendDataSMResp dst v =
     bindE (AppendCString dst (datar_MessageID v) maxMessageIDLen) (\<lambda>dst.
     appendOptional dst (datar_Optional v))"

definition encodeDataSMResp :: "bytes \<Rightarrow> 'v any \<Rightarrow> goerr + bytes" where
  "encodeDataSMResp dst value =
     bindE (responseSwitch ''DataSMResp'' asDataSMResp value) (\<lambda>typed.
       case typed of
         Omitted \<Rightarrow> Inr dst
       | Typed v \<Rightarrow> appendDataSMResp dst v
       | TLVs parameters \<Rightarrow> appendOptional dst parameters)"

section \<open>Query, cancel, replace, alert and outbind\<close>

definition decodeQuerySM :: "Header \<Rightarrow> bytes \<Rightarrow> goerr + 'v any" where
  "decodeQuerySM header body =
     bindE (requestStatusMustBeZero header) (\<lambda>_. runR (
       bindR (cString maxMessageIDLen) (\<lambda>messageID.
       bindR uint8 (\<lambda>sourceAddrTON.
       bindR uint8 (\<lambda>sourceAddrNPI.
       bindR (cString maxAddressLen) (\<lambda>sourceAddr.
       bindR requireDone (\<lambda>_.
       returnR (Val (QuerySMB
         \<lparr>q_MessageID = messageID, q_SourceAddrTON = sourceAddrTON, q_SourceAddrNPI = sourceAddrNPI,
          q_SourceAddr = sourceAddr\<rparr>)))))))) body)"

definition encodeQuerySM :: "bytes \<Rightarrow> 'v any \<Rightarrow> goerr + bytes" where
  "encodeQuerySM dst value =
     bindE (typeSwitch ''QuerySM'' asQuerySM value) (\<lambda>v.
     bindE (AppendCString dst (q_MessageID v) maxMessageIDLen) (\<lambda>dst.
     let dst = dst @ [q_SourceAddrTON v, q_SourceAddrNPI v] in
     AppendCString dst (q_SourceAddr v) maxAddressLen))"

definition decodeQuerySMResp :: "Header \<Rightarrow> bytes \<Rightarrow> goerr + 'v any" where
  "decodeQuerySMResp header body =
     errorResponseOr (QuerySMRespB \<lparr>qr_MessageID = [], qr_FinalDate = [], qr_MessageState = 0, qr_ErrorCode = 0, qr_Optional = []\<rparr>) header body (runR (
       bindR (cString maxMessageIDLen) (\<lambda>messageID.
       bindR (cString maxTimeFieldLen) (\<lambda>finalDate.
       bindR uint8 (\<lambda>messageState.
       bindR uint8 (\<lambda>errorCode.
       bindR optional (\<lambda>parameters.
       returnR (Val (QuerySMRespB
         \<lparr>qr_MessageID = messageID, qr_FinalDate = finalDate, qr_MessageState = messageState,
          qr_ErrorCode = errorCode, qr_Optional = parameters\<rparr>)))))))) body)"

definition encodeQuerySMResp :: "bytes \<Rightarrow> 'v any \<Rightarrow> goerr + bytes" where
  "encodeQuerySMResp dst value =
     bindE (responseSwitch ''QuerySMResp'' asQuerySMResp value) (\<lambda>typed.
       case typed of
         Omitted \<Rightarrow> Inr dst
       | Typed v \<Rightarrow> (
           bindE (AppendCString dst (qr_MessageID v) maxMessageIDLen) (\<lambda>dst.
           bindE (AppendCString dst (qr_FinalDate v) maxTimeFieldLen) (\<lambda>dst.
           let dst = dst @ [qr_MessageState v, qr_ErrorCode v] in
           appendOptional dst (qr_Optional v))))
       | TLVs parameters \<Rightarrow> appendOptional dst parameters)"

definition decodeCancelSM :: "Header \<Rightarrow> bytes \<Rightarrow> goerr + 'v any" where
  "decodeCancelSM header body =
     bindE (requestStatusMustBeZero header) (\<lambda>_. runR (
       bindR (cString maxServiceTypeLen) (\<lambda>serviceType.
       bindR (cString maxMessageIDLen) (\<lambda>messageID.
       bindR uint8 (\<lambda>sourceAddrTON.
       bindR uint8 (\<lambda>sourceAddrNPI.
       bindR (cString maxAddressLen) (\<lambda>sourceAddr.
       bindR uint8 (\<lambda>destAddrTON.
       bindR uint8 (\<lambda>destAddrNPI.
       bindR (cString maxAddressLen) (\<lambda>destinationAddr.
       bindR requireDone (\<lambda>_.
       returnR (Val (CancelSMB
         \<lparr>c_ServiceType = serviceType, c_MessageID = messageID, c_SourceAddrTON = sourceAddrTON,
          c_SourceAddrNPI = sourceAddrNPI, c_SourceAddr = sourceAddr, c_DestAddrTON = destAddrTON,
          c_DestAddrNPI = destAddrNPI, c_DestinationAddr = destinationAddr\<rparr>)))))))))))) body)"

definition encodeCancelSM :: "bytes \<Rightarrow> 'v any \<Rightarrow> goerr + bytes" where
  "encodeCancelSM dst value =
     bindE (typeSwitch ''CancelSM'' asCancelSM value) (\<lambda>v.
     bindE (AppendCString dst (c_ServiceType v) maxServiceTypeLen) (\<lambda>dst.
     bindE (AppendCString dst (c_MessageID v) maxMessageIDLen) (\<lambda>dst.
     let dst = dst @ [c_SourceAddrTON v, c_SourceAddrNPI v] in
     bindE (AppendCString dst (c_SourceAddr v) maxAddressLen) (\<lambda>dst.
     let dst = dst @ [c_DestAddrTON v, c_DestAddrNPI v] in
     AppendCString dst (c_DestinationAddr v) maxAddressLen))))"

definition decodeReplaceSM :: "Header \<Rightarrow> bytes \<Rightarrow> goerr + 'v any" where
  "decodeReplaceSM header body =
     bindE (requestStatusMustBeZero header) (\<lambda>_. runR (
       bindR (cString maxMessageIDLen) (\<lambda>messageID.
       bindR uint8 (\<lambda>sourceAddrTON.
       bindR uint8 (\<lambda>sourceAddrNPI.
       bindR (cString maxAddressLen) (\<lambda>sourceAddr.
       bindR (cString maxTimeFieldLen) (\<lambda>scheduleDeliveryTime.
       bindR (cString maxTimeFieldLen) (\<lambda>validityPeriod.
       bindR uint8 (\<lambda>registeredDelivery.
       bindR uint8 (\<lambda>smDefaultMsgID.
       bindR uint8 (\<lambda>smLength.
       if smLength = 255
       then failR (semantic StatusInvalidMessageLength ''sm_length 255 is not allowed in SMPP 3.4'' ErrInvalidPDUValue)
       else
       bindR (octets (int (unat smLength))) (\<lambda>shortMessage.
       bindR requireDone (\<lambda>_.
       returnR (Val (ReplaceSMB
         \<lparr>r_MessageID = messageID, r_SourceAddrTON = sourceAddrTON, r_SourceAddrNPI = sourceAddrNPI,
          r_SourceAddr = sourceAddr, r_ScheduleDeliveryTime = scheduleDeliveryTime, r_ValidityPeriod = validityPeriod,
          r_RegisteredDelivery = registeredDelivery, r_SMDefaultMsgID = smDefaultMsgID, r_ShortMessage = shortMessage\<rparr>)))))))))))))) body)"

definition encodeReplaceSM :: "bytes \<Rightarrow> 'v any \<Rightarrow> goerr + bytes" where
  "encodeReplaceSM dst value =
     bindE (typeSwitch ''ReplaceSM'' asReplaceSM value) (\<lambda>v.
     if length (r_ShortMessage v) > maxShortMessageLength
     then Inl (Wrapped ''short_message length %d exceeds 254'' ErrFieldTooLong)
     else
     bindE (AppendCString dst (r_MessageID v) maxMessageIDLen) (\<lambda>dst.
     let dst = dst @ [r_SourceAddrTON v, r_SourceAddrNPI v] in
     bindE (AppendCString dst (r_SourceAddr v) maxAddressLen) (\<lambda>dst.
     bindE (AppendCString dst (r_ScheduleDeliveryTime v) maxTimeFieldLen) (\<lambda>dst.
     bindE (AppendCString dst (r_ValidityPeriod v) maxTimeFieldLen) (\<lambda>dst.
     let dst = dst @ [r_RegisteredDelivery v, r_SMDefaultMsgID v, of_nat (length (r_ShortMessage v))] in
     Inr (dst @ r_ShortMessage v))))))"

definition decodeAlertNotification :: "Header \<Rightarrow> bytes \<Rightarrow> goerr + 'v any" where
  "decodeAlertNotification header body =
     bindE (requestStatusMustBeZero header) (\<lambda>_. runR (
       bindR uint8 (\<lambda>sourceAddrTON.
       bindR uint8 (\<lambda>sourceAddrNPI.
       bindR (cString maxDataAddressLen) (\<lambda>sourceAddr.
       bindR uint8 (\<lambda>esmeAddrTON.
       bindR uint8 (\<lambda>esmeAddrNPI.
       bindR (cString maxDataAddressLen) (\<lambda>esmeAddr.
       bindR optional (\<lambda>parameters.
       returnR (Val (AlertNotificationB
         \<lparr>an_SourceAddrTON = sourceAddrTON, an_SourceAddrNPI = sourceAddrNPI, an_SourceAddr = sourceAddr,
          an_ESMEAddrTON = esmeAddrTON, an_ESMEAddrNPI = esmeAddrNPI, an_ESMEAddr = esmeAddr,
          an_Optional = parameters\<rparr>)))))))))) body)"

definition encodeAlertNotification :: "bytes \<Rightarrow> 'v any \<Rightarrow> goerr + bytes" where
  "encodeAlertNotification dst value =
     bindE (typeSwitch ''AlertNotification'' asAlertNotification value) (\<lambda>v.
     let dst = dst @ [an_SourceAddrTON v, an_SourceAddrNPI v] in
     bindE (AppendCString dst (an_SourceAddr v) maxDataAddressLen) (\<lambda>dst.
     let dst = dst @ [an_ESMEAddrTON v, an_ESMEAddrNPI v] in
     bindE (AppendCString dst (an_ESMEAddr v) maxDataAddressLen) (\<lambda>dst.
     appendOptional dst (an_Optional v))))"

definition decodeOutbind :: "Header \<Rightarrow> bytes \<Rightarrow> goerr + 'v any" where
  "decodeOutbind header body =
     bindE (requestStatusMustBeZero header) (\<lambda>_. runR (
       bindR (cString maxSystemIDLen) (\<lambda>systemID.
       bindR (cString maxPasswordLen) (\<lambda>password.
       bindR requireDone (\<lambda>_.
       returnR (Val (OutbindB
         \<lparr>ob_SystemID = systemID, ob_Password = password\<rparr>)))))) body)"

definition encodeOutbind :: "bytes \<Rightarrow> 'v any \<Rightarrow> goerr + bytes" where
  "encodeOutbind dst value =
     bindE (typeSwitch ''Outbind'' asOutbind value) (\<lambda>v.
     bindE (AppendCString dst (ob_SystemID v) maxSystemIDLen) (\<lambda>dst.
     AppendCString dst (ob_Password v) maxPasswordLen))"

section \<open>Multiple destinations\<close>

definition decodeDestination :: "Header \<Rightarrow> SubmitMultiDestination reader" where
  "decodeDestination header =
     bindR uint8 (\<lambda>flag.
     if flag = DestinationSME then
       bindR uint8 (\<lambda>ton.
       bindR uint8 (\<lambda>npi.
       bindR (cString maxAddressLen) (\<lambda>address.
       returnR \<lparr>smd_Flag = flag, smd_TON = ton, smd_NPI = npi, smd_Address = address\<rparr>)))
     else if flag = DestinationDistributionList then
       bindR (cString maxDLNameLen) (\<lambda>address.
       returnR \<lparr>smd_Flag = flag, smd_TON = 0, smd_NPI = 0, smd_Address = address\<rparr>)
     else failR (FatalError FatalFrameBoundaryLost (CommandLength header) (h_CommandID header)
            (h_SequenceNumber header)
            ''unknown submit_multi dest_flag %d makes destination structure ambiguous'' None))"

definition decodeSubmitMulti :: "Header \<Rightarrow> bytes \<Rightarrow> goerr + 'v any" where
  "decodeSubmitMulti header body =
     bindE (requestStatusMustBeZero header) (\<lambda>_. runR (
       bindR (cString maxServiceTypeLen) (\<lambda>serviceType.
       bindR uint8 (\<lambda>sourceAddrTON.
       bindR uint8 (\<lambda>sourceAddrNPI.
       bindR (cString maxAddressLen) (\<lambda>sourceAddr.
       bindR uint8 (\<lambda>count.
       if count = 0 \<or> count = 255
       then failR (semantic StatusInvalidNumberOfDestinations ''number_of_dests must be 1..254'' ErrInvalidPDUValue)
       else
       bindR (repeatR (unat count) (decodeDestination header)) (\<lambda>destinations.
       bindR uint8 (\<lambda>esmClass.
       bindR uint8 (\<lambda>protocolID.
       bindR uint8 (\<lambda>priorityFlag.
       bindR (cString maxTimeFieldLen) (\<lambda>scheduleDeliveryTime.
       bindR (cString maxTimeFieldLen) (\<lambda>validityPeriod.
       bindR uint8 (\<lambda>registeredDelivery.
       bindR uint8 (\<lambda>replaceIfPresentFlag.
       bindR uint8 (\<lambda>coding.
       bindR uint8 (\<lambda>smDefaultMsgID.
       bindR uint8 (\<lambda>smLength.
       if smLength = 255
       then failR (semantic StatusInvalidMessageLength ''sm_length 255 is not allowed in SMPP 3.4'' ErrInvalidPDUValue)
       else
       bindR (octets (int (unat smLength))) (\<lambda>shortMessage.
       bindR optional (\<lambda>parameters.
       if hasNonEmptyMessagePayload parameters \<and> length shortMessage \<noteq> 0
       then failR (semantic StatusInvalidOptionalParameterValue
              ''message_payload conflicts with a non-empty short_message'' ErrConflictingMessageData)
       else returnR (Val (SubmitMultiB
         \<lparr>sm_ServiceType = serviceType, sm_SourceAddrTON = sourceAddrTON, sm_SourceAddrNPI = sourceAddrNPI,
          sm_SourceAddr = sourceAddr, sm_Destinations = destinations, sm_ESMClass = esmClass,
          sm_ProtocolID = protocolID, sm_PriorityFlag = priorityFlag,
          sm_ScheduleDeliveryTime = scheduleDeliveryTime, sm_ValidityPeriod = validityPeriod,
          sm_RegisteredDelivery = registeredDelivery, sm_ReplaceIfPresentFlag = replaceIfPresentFlag,
          sm_DataCoding = coding, sm_SMDefaultMsgID = smDefaultMsgID, sm_ShortMessage = shortMessage,
          sm_Optional = parameters\<rparr>)))))))))))))))))))) ) body)"

fun appendDestinations :: "bytes \<Rightarrow> SubmitMultiDestination list \<Rightarrow> goerr + bytes" where
  "appendDestinations dst [] = Inr dst"
| "appendDestinations dst (d # ds) =
     (let dst = dst @ [smd_Flag d] in
      if smd_Flag d = DestinationSME then
        let dst = dst @ [smd_TON d, smd_NPI d] in
        bindE (AppendCString dst (smd_Address d) maxAddressLen) (\<lambda>dst. appendDestinations dst ds)
      else if smd_Flag d = DestinationDistributionList then
        bindE (AppendCString dst (smd_Address d) maxDLNameLen) (\<lambda>dst. appendDestinations dst ds)
      else Inl (Wrapped ''invalid submit_multi dest_flag %d'' ErrInvalidPDUValue))"

definition encodeSubmitMulti :: "bytes \<Rightarrow> 'v any \<Rightarrow> goerr + bytes" where
  "encodeSubmitMulti dst value =
     bindE (typeSwitch ''SubmitMulti'' asSubmitMulti value) (\<lambda>v.
     if length (sm_Destinations v) = 0 \<or> length (sm_Destinations v) > 254
     then Inl (Wrapped ''submit_multi destinations must be 1..254'' ErrInvalidPDUValue)
     else if length (sm_ShortMessage v) > maxShortMessageLength
     then Inl (Wrapped ''short_message length %d exceeds 254'' ErrFieldTooLong)
     else if hasNonEmptyMessagePayload (sm_Optional v) \<and> length (sm_ShortMessage v) \<noteq> 0
     then Inl ErrConflictingMessageData
     else
     bindE (AppendCString dst (sm_ServiceType v) maxServiceTypeLen) (\<lambda>dst.
     let dst = dst @ [sm_SourceAddrTON v, sm_SourceAddrNPI v] in
     bindE (AppendCString dst (sm_SourceAddr v) maxAddressLen) (\<lambda>dst.
     let dst = dst @ [of_nat (length (sm_Destinations v))] in
     bindE (appendDestinations dst (sm_Destinations v)) (\<lambda>dst.
     let dst = dst @ [sm_ESMClass v, sm_ProtocolID v, sm_PriorityFlag v] in
     bindE (AppendCString dst (sm_ScheduleDeliveryTime v) maxTimeFieldLen) (\<lambda>dst.
     bindE (AppendCString dst (sm_ValidityPeriod v) maxTimeFieldLen) (\<lambda>dst.
     let dst = dst @ [sm_RegisteredDelivery v, sm_ReplaceIfPresentFlag v, sm_DataCoding v,
                      sm_SMDefaultMsgID v, of_nat (length (sm_ShortMessage v))] in
     let dst = dst @ sm_ShortMessage v in
     appendOptional dst (sm_Optional v)))))))"

definition decodeUnsuccessfulSME :: "UnsuccessfulSME reader" where
  "decodeUnsuccessfulSME =
     bindR uint8 (\<lambda>ton.
     bindR uint8 (\<lambda>npi.
     bindR (cString maxAddressLen) (\<lambda>address.
     bindR uint32 (\<lambda>status.
     returnR \<lparr>us_DestAddrTON = ton, us_DestAddrNPI = npi, us_DestinationAddr = address,
              us_ErrorStatusCode = status\<rparr>))))"

definition decodeSubmitMultiResp :: "Header \<Rightarrow> bytes \<Rightarrow> goerr + 'v any" where
  "decodeSubmitMultiResp header body =
     errorResponseOr (SubmitMultiRespB \<lparr>smr_MessageID = [], smr_Unsuccessful = [], smr_Optional = []\<rparr>) header body (runR (
       bindR (cString maxMessageIDLen) (\<lambda>messageID.
       bindR uint8 (\<lambda>count.
       bindR (repeatR (unat count) decodeUnsuccessfulSME) (\<lambda>unsuccessful.
       bindR optional (\<lambda>parameters.
       returnR (Val (SubmitMultiRespB
         \<lparr>smr_MessageID = messageID, smr_Unsuccessful = unsuccessful, smr_Optional = parameters\<rparr>))))))) body)"

fun appendUnsuccessful :: "bytes \<Rightarrow> UnsuccessfulSME list \<Rightarrow> goerr + bytes" where
  "appendUnsuccessful dst [] = Inr dst"
| "appendUnsuccessful dst (u # us) =
     (let dst = dst @ [us_DestAddrTON u, us_DestAddrNPI u] in
      bindE (AppendCString dst (us_DestinationAddr u) maxAddressLen) (\<lambda>dst.
      appendUnsuccessful (dst @ be32 (us_ErrorStatusCode u)) us))"

definition encodeSubmitMultiResp :: "bytes \<Rightarrow> 'v any \<Rightarrow> goerr + bytes" where
  "encodeSubmitMultiResp dst value =
     bindE (responseSwitch ''SubmitMultiResp'' asSubmitMultiResp value) (\<lambda>typed.
       case typed of
         Omitted \<Rightarrow> Inr dst
       | TLVs parameters \<Rightarrow> appendOptional dst parameters
       | Typed v \<Rightarrow>
           if length (smr_Unsuccessful v) > 255
           then Inl (Wrapped ''no_unsuccess exceeds 255'' ErrInvalidPDUValue)
           else
           bindE (AppendCString dst (smr_MessageID v) maxMessageIDLen) (\<lambda>dst.
           let dst = dst @ [of_nat (length (smr_Unsuccessful v))] in
           bindE (appendUnsuccessful dst (smr_Unsuccessful v)) (\<lambda>dst.
           appendOptional dst (smr_Optional v))))"

section \<open>Wire forms\<close>

definition dataSM_valid :: "DataSM \<Rightarrow> bool" where
  "dataSM_valid v \<longleftrightarrow> cstr maxServiceTypeLen (data_ServiceType v) \<and> cstr maxDataAddressLen (data_SourceAddr v)
     \<and> cstr maxDataAddressLen (data_DestinationAddr v) \<and> opts_ok (data_Optional v)"

definition dataSM_wire :: "DataSM \<Rightarrow> bytes" where
  "dataSM_wire v = data_ServiceType v @ [0] @ [data_SourceAddrTON v, data_SourceAddrNPI v] @ data_SourceAddr v @ [0]
     @ [data_DestAddrTON v, data_DestAddrNPI v] @ data_DestinationAddr v @ [0] @ [data_ESMClass v, data_RegisteredDelivery v, data_DataCoding v]
     @ opts_wire (data_Optional v)"

definition dataSMResp_valid :: "DataSMResp \<Rightarrow> bool" where
  "dataSMResp_valid v \<longleftrightarrow> cstr maxMessageIDLen (datar_MessageID v) \<and> opts_ok (datar_Optional v)"

definition dataSMResp_wire :: "DataSMResp \<Rightarrow> bytes" where
  "dataSMResp_wire v = datar_MessageID v @ [0] @ opts_wire (datar_Optional v)"

definition querySM_valid :: "QuerySM \<Rightarrow> bool" where
  "querySM_valid v \<longleftrightarrow> cstr maxMessageIDLen (q_MessageID v) \<and> cstr maxAddressLen (q_SourceAddr v)"

definition querySM_wire :: "QuerySM \<Rightarrow> bytes" where
  "querySM_wire v = q_MessageID v @ [0] @ [q_SourceAddrTON v, q_SourceAddrNPI v] @ q_SourceAddr v @ [0]"

definition querySMResp_valid :: "QuerySMResp \<Rightarrow> bool" where
  "querySMResp_valid v \<longleftrightarrow> cstr maxMessageIDLen (qr_MessageID v) \<and> cstr maxTimeFieldLen (qr_FinalDate v)
     \<and> opts_ok (qr_Optional v)"

definition querySMResp_wire :: "QuerySMResp \<Rightarrow> bytes" where
  "querySMResp_wire v = qr_MessageID v @ [0] @ qr_FinalDate v @ [0] @ [qr_MessageState v, qr_ErrorCode v]
     @ opts_wire (qr_Optional v)"

definition cancelSM_valid :: "CancelSM \<Rightarrow> bool" where
  "cancelSM_valid v \<longleftrightarrow> cstr maxServiceTypeLen (c_ServiceType v) \<and> cstr maxMessageIDLen (c_MessageID v)
     \<and> cstr maxAddressLen (c_SourceAddr v) \<and> cstr maxAddressLen (c_DestinationAddr v)"

definition cancelSM_wire :: "CancelSM \<Rightarrow> bytes" where
  "cancelSM_wire v = c_ServiceType v @ [0] @ c_MessageID v @ [0] @ [c_SourceAddrTON v, c_SourceAddrNPI v]
     @ c_SourceAddr v @ [0] @ [c_DestAddrTON v, c_DestAddrNPI v] @ c_DestinationAddr v @ [0]"

definition replaceSM_valid :: "ReplaceSM \<Rightarrow> bool" where
  "replaceSM_valid v \<longleftrightarrow> cstr maxMessageIDLen (r_MessageID v) \<and> cstr maxAddressLen (r_SourceAddr v)
     \<and> cstr maxTimeFieldLen (r_ScheduleDeliveryTime v) \<and> cstr maxTimeFieldLen (r_ValidityPeriod v)
     \<and> length (r_ShortMessage v) \<le> 254"

definition replaceSM_wire :: "ReplaceSM \<Rightarrow> bytes" where
  "replaceSM_wire v = r_MessageID v @ [0] @ [r_SourceAddrTON v, r_SourceAddrNPI v] @ r_SourceAddr v @ [0]
     @ r_ScheduleDeliveryTime v @ [0] @ r_ValidityPeriod v @ [0] @ [r_RegisteredDelivery v, r_SMDefaultMsgID v, of_nat (length (r_ShortMessage v))]
     @ r_ShortMessage v"

definition alertNotification_valid :: "AlertNotification \<Rightarrow> bool" where
  "alertNotification_valid v \<longleftrightarrow> cstr maxDataAddressLen (an_SourceAddr v) \<and> cstr maxDataAddressLen (an_ESMEAddr v)
     \<and> opts_ok (an_Optional v)"

definition alertNotification_wire :: "AlertNotification \<Rightarrow> bytes" where
  "alertNotification_wire v = [an_SourceAddrTON v, an_SourceAddrNPI v] @ an_SourceAddr v @ [0] @ [an_ESMEAddrTON v, an_ESMEAddrNPI v]
     @ an_ESMEAddr v @ [0] @ opts_wire (an_Optional v)"

definition outbind_valid :: "Outbind \<Rightarrow> bool" where
  "outbind_valid v \<longleftrightarrow> cstr maxSystemIDLen (ob_SystemID v) \<and> cstr maxPasswordLen (ob_Password v)"

definition outbind_wire :: "Outbind \<Rightarrow> bytes" where
  "outbind_wire v = ob_SystemID v @ [0] @ ob_Password v @ [0]"

section \<open>The codecs on the wire forms\<close>

lemma encodeDataSM_Inr:
  "encodeDataSM dst value = Inr out \<longleftrightarrow>
     (\<exists>v. holds value (DataSMB v) \<and> dataSM_valid v \<and> out = dst @ dataSM_wire v)"
  by (simp add: encodeDataSM_def Let_def wire_simps dataSM_valid_def dataSM_wire_def)

lemma decodeDataSM_Inr:
  "decodeDataSM h body = Inr x \<longleftrightarrow> h_CommandStatus h = 0 \<and>
     (\<exists>v. x = Val (DataSMB v) \<and> dataSM_valid v \<and> True \<and> body = dataSM_wire v)"
  by (simp add: decodeDataSM_def wire_simps dataSM_valid_def dataSM_wire_def
      DataSM.splits) (auto)

interpretation dataSM: request_codec DataSMB encodeDataSM decodeDataSM dataSM_valid "\<lambda>_. True" dataSM_wire
  by unfold_locales (simp_all add: encodeDataSM_Inr decodeDataSM_Inr)

lemma encodeDataSMResp_Inr:
  "encodeDataSMResp dst value = Inr out \<longleftrightarrow>
     (holdsNothing value \<and> out = dst @ []) \<or>
     (\<exists>v. holds value (DataSMRespB v) \<and> dataSMResp_valid v \<and> out = dst @ dataSMResp_wire v) \<or>
     (\<exists>ps. holds value (OptionalResponseB \<lparr>or_Optional = ps\<rparr>) \<and> opts_ok ps \<and> out = dst @ opts_wire ps)"
  by (simp add: encodeDataSMResp_def response_ex appendDataSMResp_def responseSwitch_Inr Let_def wire_simps
      dataSMResp_valid_def dataSMResp_wire_def) auto

lemma decodeDataSMResp_ok:
  "h_CommandStatus h = 0 \<Longrightarrow> decodeDataSMResp h body = Inr x \<longleftrightarrow>
     (\<exists>v. x = Val (DataSMRespB v) \<and> dataSMResp_valid v \<and> True \<and> body = dataSMResp_wire v)"
  by (simp add: decodeDataSMResp_def errorResponseOr_ok wire_simps dataSMResp_valid_def dataSMResp_wire_def
      DataSMResp.splits) auto

lemma decodeDataSMResp_error:
  "h_CommandStatus h \<noteq> 0 \<Longrightarrow> decodeDataSMResp h body = Inr x \<longleftrightarrow>
     error_body (DataSMRespB \<lparr>datar_MessageID = [], datar_Optional = []\<rparr>) body x"
  by (simp add: decodeDataSMResp_def errorResponseOr_error)

interpretation dataSMResp: response_codec DataSMRespB encodeDataSMResp decodeDataSMResp dataSMResp_valid "\<lambda>_. True" dataSMResp_wire
  "\<lparr>datar_MessageID = [], datar_Optional = []\<rparr>" "[]" False
  by unfold_locales
    (simp_all add: encodeDataSMResp_Inr decodeDataSMResp_ok decodeDataSMResp_error dataSMResp_wire_def)

lemma encodeQuerySM_Inr:
  "encodeQuerySM dst value = Inr out \<longleftrightarrow>
     (\<exists>v. holds value (QuerySMB v) \<and> querySM_valid v \<and> out = dst @ querySM_wire v)"
  by (simp add: encodeQuerySM_def Let_def wire_simps querySM_valid_def querySM_wire_def)

lemma decodeQuerySM_Inr:
  "decodeQuerySM h body = Inr x \<longleftrightarrow> h_CommandStatus h = 0 \<and>
     (\<exists>v. x = Val (QuerySMB v) \<and> querySM_valid v \<and> True \<and> body = querySM_wire v)"
  by (simp add: decodeQuerySM_def wire_simps querySM_valid_def querySM_wire_def
      QuerySM.splits) (auto)

interpretation querySM: request_codec QuerySMB encodeQuerySM decodeQuerySM querySM_valid "\<lambda>_. True" querySM_wire
  by unfold_locales (simp_all add: encodeQuerySM_Inr decodeQuerySM_Inr)

lemma encodeQuerySMResp_Inr:
  "encodeQuerySMResp dst value = Inr out \<longleftrightarrow>
     (holdsNothing value \<and> out = dst @ []) \<or>
     (\<exists>v. holds value (QuerySMRespB v) \<and> querySMResp_valid v \<and> out = dst @ querySMResp_wire v) \<or>
     (\<exists>ps. holds value (OptionalResponseB \<lparr>or_Optional = ps\<rparr>) \<and> opts_ok ps \<and> out = dst @ opts_wire ps)"
  by (simp add: encodeQuerySMResp_def response_ex responseSwitch_Inr Let_def wire_simps
      querySMResp_valid_def querySMResp_wire_def) auto

lemma decodeQuerySMResp_ok:
  "h_CommandStatus h = 0 \<Longrightarrow> decodeQuerySMResp h body = Inr x \<longleftrightarrow>
     (\<exists>v. x = Val (QuerySMRespB v) \<and> querySMResp_valid v \<and> True \<and> body = querySMResp_wire v)"
  by (simp add: decodeQuerySMResp_def errorResponseOr_ok wire_simps querySMResp_valid_def querySMResp_wire_def
      QuerySMResp.splits) auto

lemma decodeQuerySMResp_error:
  "h_CommandStatus h \<noteq> 0 \<Longrightarrow> decodeQuerySMResp h body = Inr x \<longleftrightarrow>
     error_body (QuerySMRespB \<lparr>qr_MessageID = [], qr_FinalDate = [], qr_MessageState = 0, qr_ErrorCode = 0, qr_Optional = []\<rparr>) body x"
  by (simp add: decodeQuerySMResp_def errorResponseOr_error)

interpretation querySMResp: response_codec QuerySMRespB encodeQuerySMResp decodeQuerySMResp querySMResp_valid "\<lambda>_. True" querySMResp_wire
  "\<lparr>qr_MessageID = [], qr_FinalDate = [], qr_MessageState = 0, qr_ErrorCode = 0, qr_Optional = []\<rparr>" "[]" False
  by unfold_locales
    (simp_all add: encodeQuerySMResp_Inr decodeQuerySMResp_ok decodeQuerySMResp_error querySMResp_wire_def)

lemma encodeCancelSM_Inr:
  "encodeCancelSM dst value = Inr out \<longleftrightarrow>
     (\<exists>v. holds value (CancelSMB v) \<and> cancelSM_valid v \<and> out = dst @ cancelSM_wire v)"
  by (simp add: encodeCancelSM_def Let_def wire_simps cancelSM_valid_def cancelSM_wire_def)

lemma decodeCancelSM_Inr:
  "decodeCancelSM h body = Inr x \<longleftrightarrow> h_CommandStatus h = 0 \<and>
     (\<exists>v. x = Val (CancelSMB v) \<and> cancelSM_valid v \<and> True \<and> body = cancelSM_wire v)"
  by (simp add: decodeCancelSM_def wire_simps cancelSM_valid_def cancelSM_wire_def
      CancelSM.splits) (auto)

interpretation cancelSM: request_codec CancelSMB encodeCancelSM decodeCancelSM cancelSM_valid "\<lambda>_. True" cancelSM_wire
  by unfold_locales (simp_all add: encodeCancelSM_Inr decodeCancelSM_Inr)

lemma encodeReplaceSM_Inr:
  "encodeReplaceSM dst value = Inr out \<longleftrightarrow>
     (\<exists>v. holds value (ReplaceSMB v) \<and> replaceSM_valid v \<and> out = dst @ replaceSM_wire v)"
  by (simp add: encodeReplaceSM_def Let_def wire_simps replaceSM_valid_def replaceSM_wire_def) auto

lemma decodeReplaceSM_Inr:
  "decodeReplaceSM h body = Inr x \<longleftrightarrow> h_CommandStatus h = 0 \<and>
     (\<exists>v. x = Val (ReplaceSMB v) \<and> replaceSM_valid v \<and> True \<and> body = replaceSM_wire v)"
  by (simp add: decodeReplaceSM_def wire_simps byte_of_length replaceSM_valid_def replaceSM_wire_def
      ReplaceSM.splits) (auto simp: byte_of_length_255)

interpretation replaceSM: request_codec ReplaceSMB encodeReplaceSM decodeReplaceSM replaceSM_valid "\<lambda>_. True" replaceSM_wire
  by unfold_locales (simp_all add: encodeReplaceSM_Inr decodeReplaceSM_Inr)

lemma encodeAlertNotification_Inr:
  "encodeAlertNotification dst value = Inr out \<longleftrightarrow>
     (\<exists>v. holds value (AlertNotificationB v) \<and> alertNotification_valid v \<and> out = dst @ alertNotification_wire v)"
  by (simp add: encodeAlertNotification_def Let_def wire_simps alertNotification_valid_def alertNotification_wire_def)

lemma decodeAlertNotification_Inr:
  "decodeAlertNotification h body = Inr x \<longleftrightarrow> h_CommandStatus h = 0 \<and>
     (\<exists>v. x = Val (AlertNotificationB v) \<and> alertNotification_valid v \<and> True \<and> body = alertNotification_wire v)"
  by (simp add: decodeAlertNotification_def wire_simps alertNotification_valid_def alertNotification_wire_def
      AlertNotification.splits) (auto)

interpretation alertNotification: request_codec AlertNotificationB encodeAlertNotification decodeAlertNotification alertNotification_valid "\<lambda>_. True" alertNotification_wire
  by unfold_locales (simp_all add: encodeAlertNotification_Inr decodeAlertNotification_Inr)

lemma encodeOutbind_Inr:
  "encodeOutbind dst value = Inr out \<longleftrightarrow>
     (\<exists>v. holds value (OutbindB v) \<and> outbind_valid v \<and> out = dst @ outbind_wire v)"
  by (simp add: encodeOutbind_def Let_def wire_simps outbind_valid_def outbind_wire_def)

lemma decodeOutbind_Inr:
  "decodeOutbind h body = Inr x \<longleftrightarrow> h_CommandStatus h = 0 \<and>
     (\<exists>v. x = Val (OutbindB v) \<and> outbind_valid v \<and> True \<and> body = outbind_wire v)"
  by (simp add: decodeOutbind_def wire_simps outbind_valid_def outbind_wire_def
      Outbind.splits) (auto)

interpretation outbind: request_codec OutbindB encodeOutbind decodeOutbind outbind_valid "\<lambda>_. True" outbind_wire
  by unfold_locales (simp_all add: encodeOutbind_Inr decodeOutbind_Inr)

section \<open>Multiple destinations on the wire\<close>

definition destination_valid :: "SubmitMultiDestination \<Rightarrow> bool" where
  "destination_valid d \<longleftrightarrow>
     (smd_Flag d = DestinationSME \<or> smd_Flag d = DestinationDistributionList) \<and> cstr maxAddressLen (smd_Address d)"

definition destination_canonical :: "SubmitMultiDestination \<Rightarrow> bool" where
  "destination_canonical d \<longleftrightarrow> (smd_Flag d = DestinationDistributionList \<longrightarrow> smd_TON d = 0 \<and> smd_NPI d = 0)"

definition destination_wire :: "SubmitMultiDestination \<Rightarrow> bytes" where
  "destination_wire d =
     (if smd_Flag d = DestinationSME then [smd_Flag d, smd_TON d, smd_NPI d] else [smd_Flag d])
     @ smd_Address d @ [0]"

definition submitMulti_valid :: "SubmitMulti \<Rightarrow> bool" where
  "submitMulti_valid v \<longleftrightarrow> cstr maxServiceTypeLen (sm_ServiceType v) \<and> cstr maxAddressLen (sm_SourceAddr v)
     \<and> sm_Destinations v \<noteq> [] \<and> length (sm_Destinations v) \<le> 254 \<and> list_all destination_valid (sm_Destinations v)
     \<and> cstr maxTimeFieldLen (sm_ScheduleDeliveryTime v) \<and> cstr maxTimeFieldLen (sm_ValidityPeriod v)
     \<and> length (sm_ShortMessage v) \<le> 254 \<and> opts_ok (sm_Optional v)
     \<and> \<not> (hasNonEmptyMessagePayload (sm_Optional v) \<and> sm_ShortMessage v \<noteq> [])"

definition submitMulti_canonical :: "SubmitMulti \<Rightarrow> bool" where
  "submitMulti_canonical v \<longleftrightarrow> list_all destination_canonical (sm_Destinations v)"

definition submitMulti_wire :: "SubmitMulti \<Rightarrow> bytes" where
  "submitMulti_wire v = sm_ServiceType v @ [0] @ [sm_SourceAddrTON v, sm_SourceAddrNPI v] @ sm_SourceAddr v @ [0]
     @ [of_nat (length (sm_Destinations v))] @ concat (map destination_wire (sm_Destinations v))
     @ [sm_ESMClass v, sm_ProtocolID v, sm_PriorityFlag v] @ sm_ScheduleDeliveryTime v @ [0]
     @ sm_ValidityPeriod v @ [0]
     @ [sm_RegisteredDelivery v, sm_ReplaceIfPresentFlag v, sm_DataCoding v, sm_SMDefaultMsgID v,
        of_nat (length (sm_ShortMessage v))] @ sm_ShortMessage v @ opts_wire (sm_Optional v)"

definition unsuccessful_valid :: "UnsuccessfulSME \<Rightarrow> bool" where
  "unsuccessful_valid u \<longleftrightarrow> cstr maxAddressLen (us_DestinationAddr u)"

definition unsuccessful_wire :: "UnsuccessfulSME \<Rightarrow> bytes" where
  "unsuccessful_wire u = [us_DestAddrTON u, us_DestAddrNPI u] @ us_DestinationAddr u @ [0] @ be32 (us_ErrorStatusCode u)"

definition submitMultiResp_valid :: "SubmitMultiResp \<Rightarrow> bool" where
  "submitMultiResp_valid v \<longleftrightarrow> cstr maxMessageIDLen (smr_MessageID v) \<and> length (smr_Unsuccessful v) \<le> 255
     \<and> list_all unsuccessful_valid (smr_Unsuccessful v) \<and> opts_ok (smr_Optional v)"

definition submitMultiResp_wire :: "SubmitMultiResp \<Rightarrow> bytes" where
  "submitMultiResp_wire v = smr_MessageID v @ [0] @ [of_nat (length (smr_Unsuccessful v))]
     @ concat (map unsuccessful_wire (smr_Unsuccessful v)) @ opts_wire (smr_Optional v)"

lemma appendDestinations_Inr [wire_simps]:
  "appendDestinations dst ds = Inr out \<longleftrightarrow> list_all destination_valid ds \<and> out = dst @ concat (map destination_wire ds)"
  by (induction ds arbitrary: dst)
    (auto simp: Let_def wire_simps destination_valid_def destination_wire_def split: if_splits)

lemma appendUnsuccessful_Inr [wire_simps]:
  "appendUnsuccessful dst us = Inr out \<longleftrightarrow> list_all unsuccessful_valid us \<and> out = dst @ concat (map unsuccessful_wire us)"
  by (induction us arbitrary: dst) (auto simp: Let_def wire_simps unsuccessful_valid_def unsuccessful_wire_def)

lemma decodeDestination_rd:
  "decodeDestination h (rd pre xs) = Inr (d, r') \<longleftrightarrow>
     (\<exists>ys. xs = destination_wire d @ ys \<and> (destination_valid d \<and> destination_canonical d)
        \<and> r' = rd (pre @ destination_wire d) ys)"
proof (cases d)
  case (fields flag ton npi a)
  have *: "(if c then m else m') r = Inr z \<longleftrightarrow> c \<and> m r = Inr z \<or> \<not> c \<and> m' r = Inr z"
    for c and m m' :: "SubmitMultiDestination reader" and r z by simp
  show ?thesis
    unfolding fields
    by (simp add: decodeDestination_def wire_simps * destination_wire_def destination_valid_def
        destination_canonical_def del: if_failR) auto
qed

lemma decodeUnsuccessfulSME_rd:
  "decodeUnsuccessfulSME (rd pre xs) = Inr (u, r') \<longleftrightarrow>
     (\<exists>ys. xs = unsuccessful_wire u @ ys \<and> unsuccessful_valid u \<and> r' = rd (pre @ unsuccessful_wire u) ys)"
  by (cases u, simp add: decodeUnsuccessfulSME_def wire_simps unsuccessful_wire_def unsuccessful_valid_def) (auto, blast)

lemma bindR_repeatR_rd [wire_simps]:
  "bindR (repeatR n (decodeDestination h)) f (rd pre xs) = Inr z \<longleftrightarrow>
     (\<exists>ds ys. xs = concat (map destination_wire ds) @ ys \<and> list_all destination_valid ds
        \<and> list_all destination_canonical ds \<and> length ds = n \<and> f ds (rd (pre @ concat (map destination_wire ds)) ys) = Inr z)"
  "bindR (repeatR n decodeUnsuccessfulSME) g (rd pre xs) = Inr z \<longleftrightarrow>
     (\<exists>us ys. xs = concat (map unsuccessful_wire us) @ ys \<and> list_all unsuccessful_valid us
        \<and> length us = n \<and> g us (rd (pre @ concat (map unsuccessful_wire us)) ys) = Inr z)"
  by (cases z; simp add: bindR_Inr list_all_iff repeatR_rd [where m = "decodeDestination h", OF decodeDestination_rd]
      repeatR_rd [where m = decodeUnsuccessfulSME, OF decodeUnsuccessfulSME_rd]; blast)+

lemma byte_of_count: "n = unat (b :: byte) \<longleftrightarrow> b = of_nat n \<and> n \<le> 255"
proof
  assume *: "n = unat b"
  have "unat b < 2 ^ LENGTH(8)" by (rule unsigned_less)
  then show "b = of_nat n \<and> n \<le> 255" using * by simp
qed (simp add: unat_of_nat take_bit_nat_eq_self)

lemma byte_of_count_0: "n \<le> 255 \<Longrightarrow> (of_nat n :: byte) = 0 \<longleftrightarrow> n = 0"
  using byte_of_length [of 0 n] by auto

lemma encodeSubmitMulti_Inr:
  "encodeSubmitMulti dst value = Inr out \<longleftrightarrow>
     (\<exists>v. holds value (SubmitMultiB v) \<and> submitMulti_valid v \<and> out = dst @ submitMulti_wire v)"
  by (simp add: encodeSubmitMulti_def Let_def wire_simps submitMulti_valid_def submitMulti_wire_def) auto

lemma decodeSubmitMulti_Inr:
  "decodeSubmitMulti h body = Inr x \<longleftrightarrow> h_CommandStatus h = 0 \<and>
     (\<exists>v. x = Val (SubmitMultiB v) \<and> submitMulti_valid v \<and> submitMulti_canonical v \<and> body = submitMulti_wire v)"
  by (simp add: decodeSubmitMulti_def wire_simps byte_of_length byte_of_count submitMulti_valid_def
      submitMulti_canonical_def submitMulti_wire_def SubmitMulti.splits)
    (auto simp: byte_of_length_255 byte_of_count_0)

interpretation submitMulti: request_codec SubmitMultiB encodeSubmitMulti decodeSubmitMulti
  submitMulti_valid submitMulti_canonical submitMulti_wire
  by unfold_locales (simp_all add: encodeSubmitMulti_Inr decodeSubmitMulti_Inr)

lemma encodeSubmitMultiResp_Inr:
  "encodeSubmitMultiResp dst value = Inr out \<longleftrightarrow>
     (holdsNothing value \<and> out = dst @ []) \<or>
     (\<exists>v. holds value (SubmitMultiRespB v) \<and> submitMultiResp_valid v \<and> out = dst @ submitMultiResp_wire v) \<or>
     (\<exists>ps. holds value (OptionalResponseB \<lparr>or_Optional = ps\<rparr>) \<and> opts_ok ps \<and> out = dst @ opts_wire ps)"
  by (simp add: encodeSubmitMultiResp_def response_ex responseSwitch_Inr Let_def wire_simps
      submitMultiResp_valid_def submitMultiResp_wire_def) auto

lemma decodeSubmitMultiResp_ok:
  "h_CommandStatus h = 0 \<Longrightarrow> decodeSubmitMultiResp h body = Inr x \<longleftrightarrow>
     (\<exists>v. x = Val (SubmitMultiRespB v) \<and> submitMultiResp_valid v \<and> True \<and> body = submitMultiResp_wire v)"
  by (simp add: decodeSubmitMultiResp_def errorResponseOr_ok wire_simps byte_of_count
      submitMultiResp_valid_def submitMultiResp_wire_def SubmitMultiResp.splits) auto

lemma decodeSubmitMultiResp_error:
  "h_CommandStatus h \<noteq> 0 \<Longrightarrow> decodeSubmitMultiResp h body = Inr x \<longleftrightarrow>
     error_body (SubmitMultiRespB \<lparr>smr_MessageID = [], smr_Unsuccessful = [], smr_Optional = []\<rparr>) body x"
  by (simp add: decodeSubmitMultiResp_def errorResponseOr_error)

interpretation submitMultiResp: response_codec SubmitMultiRespB encodeSubmitMultiResp decodeSubmitMultiResp
  submitMultiResp_valid "\<lambda>_. True" submitMultiResp_wire
  "\<lparr>smr_MessageID = [], smr_Unsuccessful = [], smr_Optional = []\<rparr>" "[]" False
  by unfold_locales
    (simp_all add: encodeSubmitMultiResp_Inr decodeSubmitMultiResp_ok decodeSubmitMultiResp_error submitMultiResp_wire_def)

end
