(* ===== verification/Smpp50.thy ===== *)
theory Smpp50
  imports Smpp34_Extra
begin

text \<open>
  The SMPP 5.0 additions (\<^verbatim>\<open>codec/smpp50.go\<close>): the broadcast codecs, organised as
  theory \<open>Smpp34\<close>.
\<close>

section \<open>Broadcast\<close>

definition decodeBroadcastSM :: "Header \<Rightarrow> bytes \<Rightarrow> goerr + 'v any" where
  "decodeBroadcastSM header body =
     bindE (requestStatusMustBeZero header) (\<lambda>_. runR (
       bindR (cString maxServiceTypeLen) (\<lambda>serviceType.
       bindR uint8 (\<lambda>sourceAddrTON.
       bindR uint8 (\<lambda>sourceAddrNPI.
       bindR (cString maxAddressLen) (\<lambda>sourceAddr.
       bindR (cString maxMessageIDLen) (\<lambda>messageID.
       bindR uint8 (\<lambda>priorityFlag.
       bindR (cString maxTimeFieldLen) (\<lambda>scheduleDeliveryTime.
       bindR (cString maxTimeFieldLen) (\<lambda>validityPeriod.
       bindR uint8 (\<lambda>replaceIfPresentFlag.
       bindR uint8 (\<lambda>dataCoding.
       bindR uint8 (\<lambda>smDefaultMsgID.
       bindR optional (\<lambda>parameters.
       returnR (Val (BroadcastSMB
         \<lparr>b_ServiceType = serviceType, b_SourceAddrTON = sourceAddrTON, b_SourceAddrNPI = sourceAddrNPI,
          b_SourceAddr = sourceAddr, b_MessageID = messageID, b_PriorityFlag = priorityFlag,
          b_ScheduleDeliveryTime = scheduleDeliveryTime, b_ValidityPeriod = validityPeriod, b_ReplaceIfPresentFlag = replaceIfPresentFlag,
          b_DataCoding = dataCoding, b_SMDefaultMsgID = smDefaultMsgID, b_Optional = parameters\<rparr>))))))))))))))) body)"

definition encodeBroadcastSM :: "bytes \<Rightarrow> 'v any \<Rightarrow> goerr + bytes" where
  "encodeBroadcastSM dst value =
     bindE (typeSwitch ''BroadcastSM'' asBroadcastSM value) (\<lambda>v.
     bindE (AppendCString dst (b_ServiceType v) maxServiceTypeLen) (\<lambda>dst.
     let dst = dst @ [b_SourceAddrTON v, b_SourceAddrNPI v] in
     bindE (AppendCString dst (b_SourceAddr v) maxAddressLen) (\<lambda>dst.
     bindE (AppendCString dst (b_MessageID v) maxMessageIDLen) (\<lambda>dst.
     let dst = dst @ [b_PriorityFlag v] in
     bindE (AppendCString dst (b_ScheduleDeliveryTime v) maxTimeFieldLen) (\<lambda>dst.
     bindE (AppendCString dst (b_ValidityPeriod v) maxTimeFieldLen) (\<lambda>dst.
     let dst = dst @ [b_ReplaceIfPresentFlag v, b_DataCoding v, b_SMDefaultMsgID v] in
     appendOptional dst (b_Optional v)))))))"

definition decodeBroadcastSMResp :: "Header \<Rightarrow> bytes \<Rightarrow> goerr + 'v any" where
  "decodeBroadcastSMResp header body =
     errorResponseOr (BroadcastSMRespB \<lparr>bcr_MessageID = [], bcr_Optional = []\<rparr>) header body (runR (
       bindR (cString maxMessageIDLen) (\<lambda>messageID.
       bindR optional (\<lambda>parameters.
       returnR (Val (BroadcastSMRespB
         \<lparr>bcr_MessageID = messageID, bcr_Optional = parameters\<rparr>))))) body)"

definition encodeBroadcastSMResp :: "bytes \<Rightarrow> 'v any \<Rightarrow> goerr + bytes" where
  "encodeBroadcastSMResp dst value =
     bindE (responseSwitch ''BroadcastSMResp'' asBroadcastSMResp value) (\<lambda>typed.
       case typed of
         Omitted \<Rightarrow> Inr dst
       | Typed v \<Rightarrow> (
           bindE (AppendCString dst (bcr_MessageID v) maxMessageIDLen) (\<lambda>dst.
           appendOptional dst (bcr_Optional v)))
       | TLVs parameters \<Rightarrow> appendOptional dst parameters)"

definition decodeQueryBroadcastSM :: "Header \<Rightarrow> bytes \<Rightarrow> goerr + 'v any" where
  "decodeQueryBroadcastSM header body =
     bindE (requestStatusMustBeZero header) (\<lambda>_. runR (
       bindR (cString maxMessageIDLen) (\<lambda>messageID.
       bindR uint8 (\<lambda>sourceAddrTON.
       bindR uint8 (\<lambda>sourceAddrNPI.
       bindR (cString maxAddressLen) (\<lambda>sourceAddr.
       bindR optional (\<lambda>parameters.
       returnR (Val (QueryBroadcastSMB
         \<lparr>qb_MessageID = messageID, qb_SourceAddrTON = sourceAddrTON, qb_SourceAddrNPI = sourceAddrNPI,
          qb_SourceAddr = sourceAddr, qb_Optional = parameters\<rparr>)))))))) body)"

definition encodeQueryBroadcastSM :: "bytes \<Rightarrow> 'v any \<Rightarrow> goerr + bytes" where
  "encodeQueryBroadcastSM dst value =
     bindE (typeSwitch ''QueryBroadcastSM'' asQueryBroadcastSM value) (\<lambda>v.
     bindE (AppendCString dst (qb_MessageID v) maxMessageIDLen) (\<lambda>dst.
     let dst = dst @ [qb_SourceAddrTON v, qb_SourceAddrNPI v] in
     bindE (AppendCString dst (qb_SourceAddr v) maxAddressLen) (\<lambda>dst.
     appendOptional dst (qb_Optional v))))"

definition decodeQueryBroadcastSMResp :: "Header \<Rightarrow> bytes \<Rightarrow> goerr + 'v any" where
  "decodeQueryBroadcastSMResp header body =
     errorResponseOr (QueryBroadcastSMRespB \<lparr>qbr_MessageID = [], qbr_Optional = []\<rparr>) header body (runR (
       bindR (cString maxMessageIDLen) (\<lambda>messageID.
       bindR optional (\<lambda>parameters.
       returnR (Val (QueryBroadcastSMRespB
         \<lparr>qbr_MessageID = messageID, qbr_Optional = parameters\<rparr>))))) body)"

definition encodeQueryBroadcastSMResp :: "bytes \<Rightarrow> 'v any \<Rightarrow> goerr + bytes" where
  "encodeQueryBroadcastSMResp dst value =
     bindE (responseSwitch ''QueryBroadcastSMResp'' asQueryBroadcastSMResp value) (\<lambda>typed.
       case typed of
         Omitted \<Rightarrow> Inr dst
       | Typed v \<Rightarrow> (
           bindE (AppendCString dst (qbr_MessageID v) maxMessageIDLen) (\<lambda>dst.
           appendOptional dst (qbr_Optional v)))
       | TLVs parameters \<Rightarrow> appendOptional dst parameters)"

definition decodeCancelBroadcastSM :: "Header \<Rightarrow> bytes \<Rightarrow> goerr + 'v any" where
  "decodeCancelBroadcastSM header body =
     bindE (requestStatusMustBeZero header) (\<lambda>_. runR (
       bindR (cString maxServiceTypeLen) (\<lambda>serviceType.
       bindR (cString maxMessageIDLen) (\<lambda>messageID.
       bindR uint8 (\<lambda>sourceAddrTON.
       bindR uint8 (\<lambda>sourceAddrNPI.
       bindR (cString maxAddressLen) (\<lambda>sourceAddr.
       bindR optional (\<lambda>parameters.
       returnR (Val (CancelBroadcastSMB
         \<lparr>cb_ServiceType = serviceType, cb_MessageID = messageID, cb_SourceAddrTON = sourceAddrTON,
          cb_SourceAddrNPI = sourceAddrNPI, cb_SourceAddr = sourceAddr, cb_Optional = parameters\<rparr>))))))))) body)"

definition encodeCancelBroadcastSM :: "bytes \<Rightarrow> 'v any \<Rightarrow> goerr + bytes" where
  "encodeCancelBroadcastSM dst value =
     bindE (typeSwitch ''CancelBroadcastSM'' asCancelBroadcastSM value) (\<lambda>v.
     bindE (AppendCString dst (cb_ServiceType v) maxServiceTypeLen) (\<lambda>dst.
     bindE (AppendCString dst (cb_MessageID v) maxMessageIDLen) (\<lambda>dst.
     let dst = dst @ [cb_SourceAddrTON v, cb_SourceAddrNPI v] in
     bindE (AppendCString dst (cb_SourceAddr v) maxAddressLen) (\<lambda>dst.
     appendOptional dst (cb_Optional v)))))"

section \<open>Wire forms\<close>

definition broadcastSM_valid :: "BroadcastSM \<Rightarrow> bool" where
  "broadcastSM_valid v \<longleftrightarrow> cstr maxServiceTypeLen (b_ServiceType v) \<and> cstr maxAddressLen (b_SourceAddr v)
     \<and> cstr maxMessageIDLen (b_MessageID v) \<and> cstr maxTimeFieldLen (b_ScheduleDeliveryTime v)
     \<and> cstr maxTimeFieldLen (b_ValidityPeriod v) \<and> opts_ok (b_Optional v)"

definition broadcastSM_wire :: "BroadcastSM \<Rightarrow> bytes" where
  "broadcastSM_wire v = b_ServiceType v @ [0] @ [b_SourceAddrTON v, b_SourceAddrNPI v] @ b_SourceAddr v @ [0]
     @ b_MessageID v @ [0] @ [b_PriorityFlag v] @ b_ScheduleDeliveryTime v @ [0]
     @ b_ValidityPeriod v @ [0] @ [b_ReplaceIfPresentFlag v, b_DataCoding v, b_SMDefaultMsgID v] @ opts_wire (b_Optional v)"

definition broadcastSMResp_valid :: "BroadcastSMResp \<Rightarrow> bool" where
  "broadcastSMResp_valid v \<longleftrightarrow> cstr maxMessageIDLen (bcr_MessageID v) \<and> opts_ok (bcr_Optional v)"

definition broadcastSMResp_wire :: "BroadcastSMResp \<Rightarrow> bytes" where
  "broadcastSMResp_wire v = bcr_MessageID v @ [0] @ opts_wire (bcr_Optional v)"

definition queryBroadcastSM_valid :: "QueryBroadcastSM \<Rightarrow> bool" where
  "queryBroadcastSM_valid v \<longleftrightarrow> cstr maxMessageIDLen (qb_MessageID v) \<and> cstr maxAddressLen (qb_SourceAddr v)
     \<and> opts_ok (qb_Optional v)"

definition queryBroadcastSM_wire :: "QueryBroadcastSM \<Rightarrow> bytes" where
  "queryBroadcastSM_wire v = qb_MessageID v @ [0] @ [qb_SourceAddrTON v, qb_SourceAddrNPI v] @ qb_SourceAddr v @ [0]
     @ opts_wire (qb_Optional v)"

definition queryBroadcastSMResp_valid :: "QueryBroadcastSMResp \<Rightarrow> bool" where
  "queryBroadcastSMResp_valid v \<longleftrightarrow> cstr maxMessageIDLen (qbr_MessageID v) \<and> opts_ok (qbr_Optional v)"

definition queryBroadcastSMResp_wire :: "QueryBroadcastSMResp \<Rightarrow> bytes" where
  "queryBroadcastSMResp_wire v = qbr_MessageID v @ [0] @ opts_wire (qbr_Optional v)"

definition cancelBroadcastSM_valid :: "CancelBroadcastSM \<Rightarrow> bool" where
  "cancelBroadcastSM_valid v \<longleftrightarrow> cstr maxServiceTypeLen (cb_ServiceType v) \<and> cstr maxMessageIDLen (cb_MessageID v)
     \<and> cstr maxAddressLen (cb_SourceAddr v) \<and> opts_ok (cb_Optional v)"

definition cancelBroadcastSM_wire :: "CancelBroadcastSM \<Rightarrow> bytes" where
  "cancelBroadcastSM_wire v = cb_ServiceType v @ [0] @ cb_MessageID v @ [0] @ [cb_SourceAddrTON v, cb_SourceAddrNPI v]
     @ cb_SourceAddr v @ [0] @ opts_wire (cb_Optional v)"

section \<open>The codecs on the wire forms\<close>

lemma encodeBroadcastSM_Inr:
  "encodeBroadcastSM dst value = Inr out \<longleftrightarrow>
     (\<exists>v. holds value (BroadcastSMB v) \<and> broadcastSM_valid v \<and> out = dst @ broadcastSM_wire v)"
  by (simp add: encodeBroadcastSM_def Let_def wire_simps broadcastSM_valid_def broadcastSM_wire_def)

lemma decodeBroadcastSM_Inr:
  "decodeBroadcastSM h body = Inr x \<longleftrightarrow> h_CommandStatus h = 0 \<and>
     (\<exists>v. x = Val (BroadcastSMB v) \<and> broadcastSM_valid v \<and> True \<and> body = broadcastSM_wire v)"
  by (simp add: decodeBroadcastSM_def wire_simps broadcastSM_valid_def broadcastSM_wire_def
      BroadcastSM.splits) (auto)

interpretation broadcastSM: request_codec BroadcastSMB encodeBroadcastSM decodeBroadcastSM broadcastSM_valid "\<lambda>_. True" broadcastSM_wire
  by unfold_locales (simp_all add: encodeBroadcastSM_Inr decodeBroadcastSM_Inr)

lemma encodeBroadcastSMResp_Inr:
  "encodeBroadcastSMResp dst value = Inr out \<longleftrightarrow>
     (holdsNothing value \<and> out = dst @ []) \<or>
     (\<exists>v. holds value (BroadcastSMRespB v) \<and> broadcastSMResp_valid v \<and> out = dst @ broadcastSMResp_wire v) \<or>
     (\<exists>ps. holds value (OptionalResponseB \<lparr>or_Optional = ps\<rparr>) \<and> opts_ok ps \<and> out = dst @ opts_wire ps)"
  by (simp add: encodeBroadcastSMResp_def response_ex responseSwitch_Inr Let_def wire_simps
      broadcastSMResp_valid_def broadcastSMResp_wire_def) auto

lemma decodeBroadcastSMResp_ok:
  "h_CommandStatus h = 0 \<Longrightarrow> decodeBroadcastSMResp h body = Inr x \<longleftrightarrow>
     (\<exists>v. x = Val (BroadcastSMRespB v) \<and> broadcastSMResp_valid v \<and> True \<and> body = broadcastSMResp_wire v)"
  by (simp add: decodeBroadcastSMResp_def errorResponseOr_ok wire_simps broadcastSMResp_valid_def broadcastSMResp_wire_def
      BroadcastSMResp.splits) auto

lemma decodeBroadcastSMResp_error:
  "h_CommandStatus h \<noteq> 0 \<Longrightarrow> decodeBroadcastSMResp h body = Inr x \<longleftrightarrow>
     error_body (BroadcastSMRespB \<lparr>bcr_MessageID = [], bcr_Optional = []\<rparr>) body x"
  by (simp add: decodeBroadcastSMResp_def errorResponseOr_error)

interpretation broadcastSMResp: response_codec BroadcastSMRespB encodeBroadcastSMResp decodeBroadcastSMResp broadcastSMResp_valid "\<lambda>_. True" broadcastSMResp_wire
  "\<lparr>bcr_MessageID = [], bcr_Optional = []\<rparr>" "[]" False
  by unfold_locales
    (simp_all add: encodeBroadcastSMResp_Inr decodeBroadcastSMResp_ok decodeBroadcastSMResp_error broadcastSMResp_wire_def)

lemma encodeQueryBroadcastSM_Inr:
  "encodeQueryBroadcastSM dst value = Inr out \<longleftrightarrow>
     (\<exists>v. holds value (QueryBroadcastSMB v) \<and> queryBroadcastSM_valid v \<and> out = dst @ queryBroadcastSM_wire v)"
  by (simp add: encodeQueryBroadcastSM_def Let_def wire_simps queryBroadcastSM_valid_def queryBroadcastSM_wire_def)

lemma decodeQueryBroadcastSM_Inr:
  "decodeQueryBroadcastSM h body = Inr x \<longleftrightarrow> h_CommandStatus h = 0 \<and>
     (\<exists>v. x = Val (QueryBroadcastSMB v) \<and> queryBroadcastSM_valid v \<and> True \<and> body = queryBroadcastSM_wire v)"
  by (simp add: decodeQueryBroadcastSM_def wire_simps queryBroadcastSM_valid_def queryBroadcastSM_wire_def
      QueryBroadcastSM.splits) (auto)

interpretation queryBroadcastSM: request_codec QueryBroadcastSMB encodeQueryBroadcastSM decodeQueryBroadcastSM queryBroadcastSM_valid "\<lambda>_. True" queryBroadcastSM_wire
  by unfold_locales (simp_all add: encodeQueryBroadcastSM_Inr decodeQueryBroadcastSM_Inr)

lemma encodeQueryBroadcastSMResp_Inr:
  "encodeQueryBroadcastSMResp dst value = Inr out \<longleftrightarrow>
     (holdsNothing value \<and> out = dst @ []) \<or>
     (\<exists>v. holds value (QueryBroadcastSMRespB v) \<and> queryBroadcastSMResp_valid v \<and> out = dst @ queryBroadcastSMResp_wire v) \<or>
     (\<exists>ps. holds value (OptionalResponseB \<lparr>or_Optional = ps\<rparr>) \<and> opts_ok ps \<and> out = dst @ opts_wire ps)"
  by (simp add: encodeQueryBroadcastSMResp_def response_ex responseSwitch_Inr Let_def wire_simps
      queryBroadcastSMResp_valid_def queryBroadcastSMResp_wire_def) auto

lemma decodeQueryBroadcastSMResp_ok:
  "h_CommandStatus h = 0 \<Longrightarrow> decodeQueryBroadcastSMResp h body = Inr x \<longleftrightarrow>
     (\<exists>v. x = Val (QueryBroadcastSMRespB v) \<and> queryBroadcastSMResp_valid v \<and> True \<and> body = queryBroadcastSMResp_wire v)"
  by (simp add: decodeQueryBroadcastSMResp_def errorResponseOr_ok wire_simps queryBroadcastSMResp_valid_def queryBroadcastSMResp_wire_def
      QueryBroadcastSMResp.splits) auto

lemma decodeQueryBroadcastSMResp_error:
  "h_CommandStatus h \<noteq> 0 \<Longrightarrow> decodeQueryBroadcastSMResp h body = Inr x \<longleftrightarrow>
     error_body (QueryBroadcastSMRespB \<lparr>qbr_MessageID = [], qbr_Optional = []\<rparr>) body x"
  by (simp add: decodeQueryBroadcastSMResp_def errorResponseOr_error)

interpretation queryBroadcastSMResp: response_codec QueryBroadcastSMRespB encodeQueryBroadcastSMResp decodeQueryBroadcastSMResp queryBroadcastSMResp_valid "\<lambda>_. True" queryBroadcastSMResp_wire
  "\<lparr>qbr_MessageID = [], qbr_Optional = []\<rparr>" "[]" False
  by unfold_locales
    (simp_all add: encodeQueryBroadcastSMResp_Inr decodeQueryBroadcastSMResp_ok decodeQueryBroadcastSMResp_error queryBroadcastSMResp_wire_def)

lemma encodeCancelBroadcastSM_Inr:
  "encodeCancelBroadcastSM dst value = Inr out \<longleftrightarrow>
     (\<exists>v. holds value (CancelBroadcastSMB v) \<and> cancelBroadcastSM_valid v \<and> out = dst @ cancelBroadcastSM_wire v)"
  by (simp add: encodeCancelBroadcastSM_def Let_def wire_simps cancelBroadcastSM_valid_def cancelBroadcastSM_wire_def)

lemma decodeCancelBroadcastSM_Inr:
  "decodeCancelBroadcastSM h body = Inr x \<longleftrightarrow> h_CommandStatus h = 0 \<and>
     (\<exists>v. x = Val (CancelBroadcastSMB v) \<and> cancelBroadcastSM_valid v \<and> True \<and> body = cancelBroadcastSM_wire v)"
  by (simp add: decodeCancelBroadcastSM_def wire_simps cancelBroadcastSM_valid_def cancelBroadcastSM_wire_def
      CancelBroadcastSM.splits) (auto)

interpretation cancelBroadcastSM: request_codec CancelBroadcastSMB encodeCancelBroadcastSM decodeCancelBroadcastSM cancelBroadcastSM_valid "\<lambda>_. True" cancelBroadcastSM_wire
  by unfold_locales (simp_all add: encodeCancelBroadcastSM_Inr decodeCancelBroadcastSM_Inr)

end
