(* ===== verification/Registry.thy ===== *)
theory Registry
  imports Smpp50
begin

text \<open>
  The command and TLV registry (\<^verbatim>\<open>codec/registry.go\<close>) and the tables of the two
  protocol versions (\<^verbatim>\<open>codec/smpp34.go\<close>, \<^verbatim>\<open>codec/smpp50.go\<close>). A
  builder collects definitions, \<open>Freeze\<close> takes a snapshot once. The mutex only serialises the
  calls, so each call is one step on the builder. A registered decoder or encoder may be a
  caller's function, which may panic.
\<close>

section \<open>Definitions, builder and registry\<close>

definition ErrRegistryFrozen :: goerr where
  "ErrRegistryFrozen = Sentinel ''smpp codec: registry is frozen''"

definition ErrDuplicateCommand :: goerr where
  "ErrDuplicateCommand = Sentinel ''smpp codec: duplicate command registration''"

definition ErrDuplicateTLV :: goerr where
  "ErrDuplicateTLV = Sentinel ''smpp codec: duplicate TLV registration''"

definition ErrUnknownCommand :: goerr where
  "ErrUnknownCommand = Sentinel ''smpp codec: unknown command''"

definition ErrUnknownTLV :: goerr where
  "ErrUnknownTLV = Sentinel ''smpp codec: unknown TLV''"

definition ErrInvalidRegistryMode :: goerr where
  "ErrInvalidRegistryMode = Sentinel ''smpp codec: invalid registry mode''"

definition ErrInvalidRegistryDefinition :: goerr where
  "ErrInvalidRegistryDefinition = Sentinel ''smpp codec: invalid registry definition''"

type_synonym RegistryMode = byte

abbreviation (input) RegistryCompatible :: RegistryMode where "RegistryCompatible \<equiv> 0"
abbreviation (input) RegistryStrict :: RegistryMode where "RegistryStrict \<equiv> 1"

definition RegistryModeValid :: "RegistryMode \<Rightarrow> bool" where
  "RegistryModeValid m = (m = RegistryCompatible \<or> m = RegistryStrict)"

type_synonym 'v CommandDecoder = "Header \<Rightarrow> bytes \<Rightarrow> (goerr, 'v any) outcome"
type_synonym 'v CommandEncoder = "bytes \<Rightarrow> 'v any \<Rightarrow> (goerr, bytes) outcome"
type_synonym 'v TLVDecoder = "bytes \<Rightarrow> (goerr, 'v any) outcome"
type_synonym 'v TLVEncoder = "bytes \<Rightarrow> 'v any \<Rightarrow> (goerr, bytes) outcome"

datatype CommandActor = ActorAny | ActorESME | ActorSMSC

record 'v CommandDefinition =
  cd_ID            :: CommandID
  cd_Name          :: string
  cd_Decode        :: "'v CommandDecoder option"
  cd_Encode        :: "'v CommandEncoder option"
  cd_Actor         :: CommandActor
  cd_AllowedStates :: "SessionState list"

record 'v TLVDefinition =
  td_Tag    :: u16
  td_Name   :: string
  td_Decode :: "'v TLVDecoder option"
  td_Encode :: "'v TLVEncoder option"

record 'v Registry =
  reg_mode     :: RegistryMode
  reg_commands :: "CommandID \<rightharpoonup> 'v CommandDefinition"
  reg_tlvs     :: "u16 \<rightharpoonup> 'v TLVDefinition"

record 'v RegistryBuilder =
  rb_mode     :: RegistryMode
  rb_frozen   :: bool
  rb_snapshot :: "'v Registry option"
  rb_commands :: "CommandID \<rightharpoonup> 'v CommandDefinition"
  rb_tlvs     :: "u16 \<rightharpoonup> 'v TLVDefinition"

definition NewRegistryBuilder :: "RegistryMode \<Rightarrow> 'v RegistryBuilder" where
  "NewRegistryBuilder mode =
     \<lparr>rb_mode = mode, rb_frozen = False, rb_snapshot = None, rb_commands = Map.empty, rb_tlvs = Map.empty\<rparr>"

definition RegisterCommand :: "'v RegistryBuilder \<Rightarrow> 'v CommandDefinition \<Rightarrow> goerr + 'v RegistryBuilder" where
  "RegisterCommand b d =
     (if cd_Name d = [] then Inl (Wrapped ''command 0x%08x has empty name'' ErrInvalidRegistryDefinition)
      else if rb_frozen b then Inl ErrRegistryFrozen
      else if rb_commands b (cd_ID d) \<noteq> None then Inl (Wrapped ''0x%08x'' ErrDuplicateCommand)
      else Inr (b\<lparr>rb_commands := (rb_commands b)(cd_ID d \<mapsto> d)\<rparr>))"

definition RegisterTLV :: "'v RegistryBuilder \<Rightarrow> 'v TLVDefinition \<Rightarrow> goerr + 'v RegistryBuilder" where
  "RegisterTLV b d =
     (if td_Name d = [] then Inl (Wrapped ''TLV 0x%04x has empty name'' ErrInvalidRegistryDefinition)
      else if rb_frozen b then Inl ErrRegistryFrozen
      else if rb_tlvs b (td_Tag d) \<noteq> None then Inl (Wrapped ''0x%04x'' ErrDuplicateTLV)
      else Inr (b\<lparr>rb_tlvs := (rb_tlvs b)(td_Tag d \<mapsto> d)\<rparr>))"

definition Freeze :: "'v RegistryBuilder \<Rightarrow> goerr + 'v Registry \<times> 'v RegistryBuilder" where
  "Freeze b =
     (if \<not> RegistryModeValid (rb_mode b) then Inl ErrInvalidRegistryMode
      else case rb_snapshot b of
        Some r \<Rightarrow> Inr (r, b)
      | None \<Rightarrow>
          let r = \<lparr>reg_mode = rb_mode b, reg_commands = rb_commands b, reg_tlvs = rb_tlvs b\<rparr> in
          Inr (r, b\<lparr>rb_frozen := True, rb_snapshot := Some r\<rparr>))"

definition AllowsState :: "'v CommandDefinition \<Rightarrow> SessionState \<Rightarrow> bool" where
  "AllowsState d state = list_ex (\<lambda>s. s = state) (cd_AllowedStates d)"

text \<open>A nil registry is \<^const>\<open>None\<close>.\<close>

definition Command :: "'v Registry option \<Rightarrow> CommandID \<Rightarrow> 'v CommandDefinition option" where
  "Command r i = (case r of None \<Rightarrow> None | Some r \<Rightarrow> reg_commands r i)"

definition TLVOf :: "'v Registry option \<Rightarrow> u16 \<Rightarrow> 'v TLVDefinition option" where
  "TLVOf r tag = (case r of None \<Rightarrow> None | Some r \<Rightarrow> reg_tlvs r tag)"

text \<open>\<^const>\<open>None\<close> on the right: unknown, and left unresolved.\<close>

definition ResolveCommand :: "'v Registry option \<Rightarrow> CommandID \<Rightarrow> goerr + 'v CommandDefinition option" where
  "ResolveCommand r i =
     (case Command r i of
        Some d \<Rightarrow> Inr (Some d)
      | None \<Rightarrow>
          if r \<noteq> None \<and> reg_mode (the r) = RegistryStrict
          then Inl (Wrapped ''0x%08x'' ErrUnknownCommand) else Inr None)"

definition ResolveTLV :: "'v Registry option \<Rightarrow> u16 \<Rightarrow> goerr + 'v TLVDefinition option" where
  "ResolveTLV r tag =
     (case TLVOf r tag of
        Some d \<Rightarrow> Inr (Some d)
      | None \<Rightarrow>
          if r \<noteq> None \<and> reg_mode (the r) = RegistryStrict
          then Inl (Wrapped ''0x%04x'' ErrUnknownTLV) else Inr None)"

section \<open>The tables of SMPP 3.4 and 5.0\<close>

text \<open>An entry of the tables: a library codec, which does not panic, and no actor or state policy.\<close>

definition commandDefinition :: "CommandID \<Rightarrow> string \<Rightarrow> (Header \<Rightarrow> bytes \<Rightarrow> goerr + 'v any)
    \<Rightarrow> (bytes \<Rightarrow> 'v any \<Rightarrow> goerr + bytes) \<Rightarrow> 'v CommandDefinition" where
  "commandDefinition i name dec enc =
     \<lparr>cd_ID = i, cd_Name = name, cd_Decode = Some (\<lambda>h body. returning (dec h body)),
      cd_Encode = Some (\<lambda>dst value. returning (enc dst value)), cd_Actor = ActorAny, cd_AllowedStates = []\<rparr>"

definition tlvDefinition :: "u16 \<Rightarrow> string \<Rightarrow> 'v TLVDefinition" where
  "tlvDefinition tag name = \<lparr>td_Tag = tag, td_Name = name, td_Decode = None, td_Encode = None\<rparr>"

definition smpp34Commands :: "'v CommandDefinition list" where
  "smpp34Commands = [
     commandDefinition CommandGenericNACK ''generic_nack'' decodeResponseEmpty encodeResponseEmpty,
     commandDefinition CommandBindReceiver ''bind_receiver'' decodeBindRequest encodeBindRequest,
     commandDefinition CommandBindReceiverResp ''bind_receiver_resp'' decodeBindResponse encodeBindResponse,
     commandDefinition CommandBindTransmitter ''bind_transmitter'' decodeBindRequest encodeBindRequest,
     commandDefinition CommandBindTransmitterResp ''bind_transmitter_resp'' decodeBindResponse encodeBindResponse,
     commandDefinition CommandQuerySM ''query_sm'' decodeQuerySM encodeQuerySM,
     commandDefinition CommandQuerySMResp ''query_sm_resp'' decodeQuerySMResp encodeQuerySMResp,
     commandDefinition CommandSubmitSM ''submit_sm'' decodeSubmitSM encodeSubmitSM,
     commandDefinition CommandSubmitSMResp ''submit_sm_resp'' decodeSubmitSMResp encodeSubmitSMResp,
     commandDefinition CommandDeliverSM ''deliver_sm'' decodeDeliverSM encodeDeliverSM,
     commandDefinition CommandDeliverSMResp ''deliver_sm_resp'' decodeDeliverSMResp encodeDeliverSMResp,
     commandDefinition CommandUnbind ''unbind'' decodeRequestEmpty encodeEmpty,
     commandDefinition CommandUnbindResp ''unbind_resp'' decodeResponseEmpty encodeResponseEmpty,
     commandDefinition CommandReplaceSM ''replace_sm'' decodeReplaceSM encodeReplaceSM,
     commandDefinition CommandReplaceSMResp ''replace_sm_resp'' decodeResponseEmpty encodeResponseEmpty,
     commandDefinition CommandCancelSM ''cancel_sm'' decodeCancelSM encodeCancelSM,
     commandDefinition CommandCancelSMResp ''cancel_sm_resp'' decodeResponseEmpty encodeResponseEmpty,
     commandDefinition CommandBindTransceiver ''bind_transceiver'' decodeBindRequest encodeBindRequest,
     commandDefinition CommandBindTransceiverResp ''bind_transceiver_resp'' decodeBindResponse encodeBindResponse,
     commandDefinition CommandOutbind ''outbind'' decodeOutbind encodeOutbind,
     commandDefinition CommandEnquireLink ''enquire_link'' decodeRequestEmpty encodeEmpty,
     commandDefinition CommandEnquireLinkResp ''enquire_link_resp'' decodeResponseEmpty encodeResponseEmpty,
     commandDefinition CommandSubmitMulti ''submit_multi'' decodeSubmitMulti encodeSubmitMulti,
     commandDefinition CommandSubmitMultiResp ''submit_multi_resp'' decodeSubmitMultiResp encodeSubmitMultiResp,
     commandDefinition CommandAlertNotification ''alert_notification'' decodeAlertNotification encodeAlertNotification,
     commandDefinition CommandDataSM ''data_sm'' decodeDataSM encodeDataSM,
     commandDefinition CommandDataSMResp ''data_sm_resp'' decodeDataSMResp encodeDataSMResp]"

definition smpp34TLVs :: "'v TLVDefinition list" where
  "smpp34TLVs = [
     tlvDefinition TLVTagDestAddrSubunit ''dest_addr_subunit'',
     tlvDefinition TLVTagDestNetworkType ''dest_network_type'',
     tlvDefinition TLVTagDestBearerType ''dest_bearer_type'',
     tlvDefinition TLVTagDestTelematicsID ''dest_telematics_id'',
     tlvDefinition TLVTagSourceAddrSubunit ''source_addr_subunit'',
     tlvDefinition TLVTagSourceNetworkType ''source_network_type'',
     tlvDefinition TLVTagSourceBearerType ''source_bearer_type'',
     tlvDefinition TLVTagSourceTelematicsID ''source_telematics_id'',
     tlvDefinition TLVTagQOSTimeToLive ''qos_time_to_live'',
     tlvDefinition TLVTagPayloadType ''payload_type'',
     tlvDefinition TLVTagAdditionalStatusInfoText ''additional_status_info_text'',
     tlvDefinition TLVTagReceiptedMessageID ''receipted_message_id'',
     tlvDefinition TLVTagMSMsgWaitFacilities ''ms_msg_wait_facilities'',
     tlvDefinition TLVTagPrivacyIndicator ''privacy_indicator'',
     tlvDefinition TLVTagSourceSubaddress ''source_subaddress'',
     tlvDefinition TLVTagDestSubaddress ''dest_subaddress'',
     tlvDefinition TLVTagUserMessageReference ''user_message_reference'',
     tlvDefinition TLVTagUserResponseCode ''user_response_code'',
     tlvDefinition TLVTagSourcePort ''source_port'',
     tlvDefinition TLVTagDestinationPort ''destination_port'',
     tlvDefinition TLVTagSARMsgRefNum ''sar_msg_ref_num'',
     tlvDefinition TLVTagLanguageIndicator ''language_indicator'',
     tlvDefinition TLVTagSARTotalSegments ''sar_total_segments'',
     tlvDefinition TLVTagSARSegmentSeqnum ''sar_segment_seqnum'',
     tlvDefinition TLVTagSCInterfaceVersion ''sc_interface_version'',
     tlvDefinition TLVTagCallbackNumPresInd ''callback_num_pres_ind'',
     tlvDefinition TLVTagCallbackNumAtag ''callback_num_atag'',
     tlvDefinition TLVTagNumberOfMessages ''number_of_messages'',
     tlvDefinition TLVTagCallbackNum ''callback_num'',
     tlvDefinition TLVTagDPFResult ''dpf_result'',
     tlvDefinition TLVTagSetDPF ''set_dpf'',
     tlvDefinition TLVTagMSAvailabilityStatus ''ms_availability_status'',
     tlvDefinition TLVTagNetworkErrorCode ''network_error_code'',
     tlvDefinition TLVTagMessagePayload ''message_payload'',
     tlvDefinition TLVTagDeliveryFailureReason ''delivery_failure_reason'',
     tlvDefinition TLVTagMoreMessagesToSend ''more_messages_to_send'',
     tlvDefinition TLVTagMessageState ''message_state'',
     tlvDefinition TLVTagUSSDServiceOp ''ussd_service_op'',
     tlvDefinition TLVTagDisplayTime ''display_time'',
     tlvDefinition TLVTagSMSSignal ''sms_signal'',
     tlvDefinition TLVTagMSValidity ''ms_validity'',
     tlvDefinition TLVTagAlertOnMessageDelivery ''alert_on_message_delivery'',
     tlvDefinition TLVTagITSReplyType ''its_reply_type'',
     tlvDefinition TLVTagITSSessionInfo ''its_session_info'']"

definition smpp50Commands :: "'v CommandDefinition list" where
  "smpp50Commands = [
     commandDefinition CommandBroadcastSM ''broadcast_sm'' decodeBroadcastSM encodeBroadcastSM,
     commandDefinition CommandBroadcastSMResp ''broadcast_sm_resp'' decodeBroadcastSMResp encodeBroadcastSMResp,
     commandDefinition CommandQueryBroadcastSM ''query_broadcast_sm'' decodeQueryBroadcastSM encodeQueryBroadcastSM,
     commandDefinition CommandQueryBroadcastSMResp ''query_broadcast_sm_resp'' decodeQueryBroadcastSMResp encodeQueryBroadcastSMResp,
     commandDefinition CommandCancelBroadcastSM ''cancel_broadcast_sm'' decodeCancelBroadcastSM encodeCancelBroadcastSM,
     commandDefinition CommandCancelBroadcastSMResp ''cancel_broadcast_sm_resp'' decodeResponseEmpty encodeResponseEmpty]"

definition smpp50TLVs :: "'v TLVDefinition list" where
  "smpp50TLVs = [
     tlvDefinition TLVTagCongestionState ''congestion_state'',
     tlvDefinition TLVTagBroadcastChannelIndicator ''broadcast_channel_indicator'',
     tlvDefinition TLVTagBroadcastContentType ''broadcast_content_type'',
     tlvDefinition TLVTagBroadcastContentTypeInfo ''broadcast_content_type_info'',
     tlvDefinition TLVTagBroadcastMessageClass ''broadcast_message_class'',
     tlvDefinition TLVTagBroadcastRepNum ''broadcast_rep_num'',
     tlvDefinition TLVTagBroadcastFrequencyInterval ''broadcast_frequency_interval'',
     tlvDefinition TLVTagBroadcastAreaIdentifier ''broadcast_area_identifier'',
     tlvDefinition TLVTagBroadcastErrorStatus ''broadcast_error_status'',
     tlvDefinition TLVTagBroadcastAreaSuccess ''broadcast_area_success'',
     tlvDefinition TLVTagBroadcastEndTime ''broadcast_end_time'',
     tlvDefinition TLVTagBroadcastServiceGroup ''broadcast_service_group'',
     tlvDefinition TLVTagBillingIdentification ''billing_identification'',
     tlvDefinition TLVTagSourceNetworkID ''source_network_id'',
     tlvDefinition TLVTagDestNetworkID ''dest_network_id'',
     tlvDefinition TLVTagSourceNodeID ''source_node_id'',
     tlvDefinition TLVTagDestNodeID ''dest_node_id'',
     tlvDefinition TLVTagDestAddrNPResolution ''dest_addr_np_resolution'',
     tlvDefinition TLVTagDestAddrNPInformation ''dest_addr_np_information'',
     tlvDefinition TLVTagDestAddrNPCountry ''dest_addr_np_country'']"

text \<open>The loop of the four registration functions: it stops at the first error.\<close>

fun registerAll :: "('b \<Rightarrow> 'd \<Rightarrow> 'e + 'b) \<Rightarrow> 'b \<Rightarrow> 'd list \<Rightarrow> 'e + 'b" where
  "registerAll register b [] = Inr b"
| "registerAll register b (d # ds) = bindE (register b d) (\<lambda>b. registerAll register b ds)"

definition registerSMPP34Commands :: "'v RegistryBuilder \<Rightarrow> goerr + 'v RegistryBuilder" where
  "registerSMPP34Commands b = registerAll RegisterCommand b smpp34Commands"

definition registerSMPP34TLVs :: "'v RegistryBuilder \<Rightarrow> goerr + 'v RegistryBuilder" where
  "registerSMPP34TLVs b = registerAll RegisterTLV b smpp34TLVs"

definition registerSMPP50Commands :: "'v RegistryBuilder \<Rightarrow> goerr + 'v RegistryBuilder" where
  "registerSMPP50Commands b = registerAll RegisterCommand b smpp50Commands"

definition registerSMPP50TLVs :: "'v RegistryBuilder \<Rightarrow> goerr + 'v RegistryBuilder" where
  "registerSMPP50TLVs b = registerAll RegisterTLV b smpp50TLVs"

definition NewSMPP34RegistryBuilder :: "RegistryMode \<Rightarrow> goerr + 'v RegistryBuilder" where
  "NewSMPP34RegistryBuilder mode =
     bindE (registerSMPP34Commands (NewRegistryBuilder mode)) (\<lambda>b. registerSMPP34TLVs b)"

definition NewSMPP34Registry :: "RegistryMode \<Rightarrow> goerr + 'v Registry" where
  "NewSMPP34Registry mode =
     bindE (NewSMPP34RegistryBuilder mode) (\<lambda>b. bindE (Freeze b) (\<lambda>(r, _). Inr r))"

definition NewSMPP50RegistryBuilder :: "RegistryMode \<Rightarrow> goerr + 'v RegistryBuilder" where
  "NewSMPP50RegistryBuilder mode =
     bindE (NewSMPP34RegistryBuilder mode) (\<lambda>b.
     bindE (registerSMPP50Commands b) (\<lambda>b. registerSMPP50TLVs b))"

definition NewSMPP50Registry :: "RegistryMode \<Rightarrow> goerr + 'v Registry" where
  "NewSMPP50Registry mode =
     bindE (NewSMPP50RegistryBuilder mode) (\<lambda>b. bindE (Freeze b) (\<lambda>(r, _). Inr r))"

section \<open>Registration\<close>

text \<open>
  The contract of a registration operation: an admissible definition under a fresh key is added
  under its key and changes nothing else; any other one is refused.
\<close>

locale registrar =
  fixes register :: "'b \<Rightarrow> 'd \<Rightarrow> 'e + 'b"
    and entries :: "'b \<Rightarrow> ('k \<rightharpoonup> 'd)"
    and enter :: "('k \<rightharpoonup> 'd) \<Rightarrow> 'b \<Rightarrow> 'b"
    and key :: "'d \<Rightarrow> 'k"
    and admissible :: "'b \<Rightarrow> 'd \<Rightarrow> bool"
  assumes register_Inr: "register b d = Inr b' \<longleftrightarrow>
      admissible b d \<and> key d \<notin> dom (entries b) \<and> b' = enter ((entries b)(key d \<mapsto> d)) b"
    and entries_enter [simp]: "entries (enter m b) = m"
    and enter_enter [simp]: "enter m (enter n b) = enter m b"
    and enter_entries [simp]: "enter (entries b) b = b"
    and admissible_enter [simp]: "admissible (enter m b) d = admissible b d"
begin

lemma register_refused: "key d \<in> dom (entries b) \<Longrightarrow> \<exists>e. register b d = Inl e"
  by (cases "register b d") (auto simp: register_Inr)

lemma register_lookup: "register b d = Inr b' \<Longrightarrow> entries b' (key d) = Some d \<and> (\<forall>k. k \<noteq> key d \<longrightarrow> entries b' k = entries b k)"
  by (auto simp: register_Inr)

lemma registerAll_fresh:
  "\<lbrakk>list_all (admissible b) ds; distinct (map key ds); set (map key ds) \<inter> dom (entries b) = {}\<rbrakk>
     \<Longrightarrow> registerAll register b ds = Inr (enter (entries b ++ map_of (map (\<lambda>d. (key d, d)) ds)) b)"
proof (induction ds arbitrary: b)
  case (Cons d ds)
  let ?b = "enter ((entries b)(key d \<mapsto> d)) b"
  have "register b d = Inr ?b" using Cons.prems by (simp add: register_Inr)
  moreover have disj: "set (map key ds) \<inter> dom (entries ?b) = {}"
    using Cons.prems unfolding entries_enter dom_fun_upd by auto
  have "registerAll register ?b ds = Inr (enter (entries ?b ++ map_of (map (\<lambda>d. (key d, d)) ds)) ?b)"
  proof (rule Cons.IH)
    show "list_all (admissible ?b) ds" "distinct (map key ds)"
      using Cons.prems by (simp_all add: list_all_iff)
  qed (rule disj)
  moreover have "map_of (map (\<lambda>d. (key d, d)) ds) (key d) = None"
    using Cons.prems by (auto simp: map_of_eq_None_iff)
  then have "(entries b)(key d \<mapsto> d) ++ map_of (map (\<lambda>d. (key d, d)) ds)
      = entries b ++ map_of (map (\<lambda>d. (key d, d)) (d # ds))"
    by (auto simp: fun_eq_iff map_add_def split: option.splits)
  ultimately show ?case by (simp only: registerAll.simps bindE_Inr entries_enter enter_enter)
qed simp

end

interpretation commands: registrar RegisterCommand rb_commands "\<lambda>m b. b\<lparr>rb_commands := m\<rparr>" cd_ID
  "\<lambda>b d. cd_Name d \<noteq> [] \<and> \<not> rb_frozen b"
  by unfold_locales (auto simp: RegisterCommand_def)

interpretation tlvs: registrar RegisterTLV rb_tlvs "\<lambda>m b. b\<lparr>rb_tlvs := m\<rparr>" td_Tag
  "\<lambda>b d. td_Name d \<noteq> [] \<and> \<not> rb_frozen b"
  by unfold_locales (auto simp: RegisterTLV_def)

section \<open>The standard registries\<close>

definition commandTable :: "'v CommandDefinition list \<Rightarrow> CommandID \<rightharpoonup> 'v CommandDefinition" where
  "commandTable ds = map_of (map (\<lambda>d. (cd_ID d, d)) ds)"

definition tlvTable :: "'v TLVDefinition list \<Rightarrow> u16 \<rightharpoonup> 'v TLVDefinition" where
  "tlvTable ds = map_of (map (\<lambda>d. (td_Tag d, d)) ds)"

lemma commandDefinition_simps [simp]:
  "cd_ID (commandDefinition i n dec enc) = i"
  "cd_Name (commandDefinition i n dec enc) = n"
  "cd_Decode (commandDefinition i n dec enc) = Some (\<lambda>h body. returning (dec h body))"
  "cd_Encode (commandDefinition i n dec enc) = Some (\<lambda>dst value. returning (enc dst value))"
  by (simp_all add: commandDefinition_def)

lemma tlvDefinition_simps [simp]:
  "td_Tag (tlvDefinition t n) = t" "td_Name (tlvDefinition t n) = n"
  by (simp_all add: tlvDefinition_def)

lemma dom_commandTable: "dom (commandTable ds) = cd_ID ` set ds"
  by (simp add: commandTable_def dom_map_of_conv_image_fst image_image)

lemma dom_tlvTable: "dom (tlvTable ds) = td_Tag ` set ds"
  by (simp add: tlvTable_def dom_map_of_conv_image_fst image_image)

lemma registerCommands_fresh:
  "\<lbrakk>list_all (\<lambda>d. cd_Name d \<noteq> []) ds; \<not> rb_frozen b; distinct (map cd_ID ds);
    set (map cd_ID ds) \<inter> dom (rb_commands b) = {}\<rbrakk>
     \<Longrightarrow> registerAll RegisterCommand b ds = Inr (b\<lparr>rb_commands := rb_commands b ++ commandTable ds\<rparr>)"
  unfolding commandTable_def by (rule commands.registerAll_fresh) (auto simp: list_all_iff)

lemma registerTLVs_fresh:
  "\<lbrakk>list_all (\<lambda>d. td_Name d \<noteq> []) ds; \<not> rb_frozen b; distinct (map td_Tag ds);
    set (map td_Tag ds) \<inter> dom (rb_tlvs b) = {}\<rbrakk>
     \<Longrightarrow> registerAll RegisterTLV b ds = Inr (b\<lparr>rb_tlvs := rb_tlvs b ++ tlvTable ds\<rparr>)"
  unfolding tlvTable_def by (rule tlvs.registerAll_fresh) (auto simp: list_all_iff)

lemma tables34:
  "list_all (\<lambda>d. cd_Name d \<noteq> []) smpp34Commands" "distinct (map cd_ID smpp34Commands)"
  "list_all (\<lambda>d. td_Name d \<noteq> []) smpp34TLVs" "distinct (map td_Tag smpp34TLVs)"
  by (simp_all add: smpp34Commands_def smpp34TLVs_def)

lemma tables50:
  "list_all (\<lambda>d. cd_Name d \<noteq> []) smpp50Commands" "distinct (map cd_ID smpp50Commands)"
  "list_all (\<lambda>d. td_Name d \<noteq> []) smpp50TLVs" "distinct (map td_Tag smpp50TLVs)"
  "cd_ID ` set smpp50Commands \<inter> cd_ID ` set smpp34Commands = {}"
  "td_Tag ` set smpp50TLVs \<inter> td_Tag ` set smpp34TLVs = {}"
  by (simp_all add: smpp34Commands_def smpp34TLVs_def smpp50Commands_def smpp50TLVs_def)

lemma NewSMPP34RegistryBuilder_eq:
  "NewSMPP34RegistryBuilder mode =
     Inr \<lparr>rb_mode = mode, rb_frozen = False, rb_snapshot = None,
          rb_commands = commandTable smpp34Commands, rb_tlvs = tlvTable smpp34TLVs\<rparr>"
  by (simp add: NewSMPP34RegistryBuilder_def registerSMPP34Commands_def registerSMPP34TLVs_def
      NewRegistryBuilder_def registerCommands_fresh registerTLVs_fresh tables34)

lemma NewSMPP50RegistryBuilder_eq:
  "NewSMPP50RegistryBuilder mode =
     Inr \<lparr>rb_mode = mode, rb_frozen = False, rb_snapshot = None,
          rb_commands = commandTable smpp34Commands ++ commandTable smpp50Commands,
          rb_tlvs = tlvTable smpp34TLVs ++ tlvTable smpp50TLVs\<rparr>"
  by (simp add: NewSMPP50RegistryBuilder_def NewSMPP34RegistryBuilder_eq registerSMPP50Commands_def
      registerSMPP50TLVs_def registerCommands_fresh registerTLVs_fresh tables50 dom_commandTable dom_tlvTable)

definition smpp34Registry :: "RegistryMode \<Rightarrow> 'v Registry" where
  "smpp34Registry mode = \<lparr>reg_mode = mode, reg_commands = commandTable smpp34Commands, reg_tlvs = tlvTable smpp34TLVs\<rparr>"

definition smpp50Registry :: "RegistryMode \<Rightarrow> 'v Registry" where
  "smpp50Registry mode = \<lparr>reg_mode = mode,
     reg_commands = commandTable smpp34Commands ++ commandTable smpp50Commands,
     reg_tlvs = tlvTable smpp34TLVs ++ tlvTable smpp50TLVs\<rparr>"

lemma NewSMPP34Registry_eq:
  "RegistryModeValid mode \<Longrightarrow> NewSMPP34Registry mode = Inr (smpp34Registry mode)"
  by (simp add: NewSMPP34Registry_def NewSMPP34RegistryBuilder_eq Freeze_def smpp34Registry_def Let_def)

lemma NewSMPP50Registry_eq:
  "RegistryModeValid mode \<Longrightarrow> NewSMPP50Registry mode = Inr (smpp50Registry mode)"
  by (simp add: NewSMPP50Registry_def NewSMPP50RegistryBuilder_eq Freeze_def smpp50Registry_def Let_def)

lemma smpp50Registry_command:
  "reg_commands (smpp50Registry mode) i = Some d \<Longrightarrow> d \<in> set (smpp34Commands @ smpp50Commands) \<and> cd_ID d = i"
  by (auto simp: smpp50Registry_def commandTable_def map_add_Some_iff dest!: map_of_SomeD)

end
