(* ===== verification/PduCodec.thy ===== *)
theory PduCodec
  imports Registry
begin

text \<open>
  Whole PDUs (\<^verbatim>\<open>codec/pdu.go\<close>, \<^verbatim>\<open>codec/error_response.go\<close>,
  \<^verbatim>\<open>codec/recover.go\<close>): header and body, dispatched through the registry. The laws of
  one registered command are stated as predicates on its definition; every entry of the standard
  tables satisfies them, and the properties of \<open>DecodePDU\<close> and \<open>EncodePDU\<close> follow for all
  commands at once.
\<close>

section \<open>Decoding and encoding\<close>

definition ErrPDUFrameLengthMismatch :: goerr where
  "ErrPDUFrameLengthMismatch = Sentinel ''smpp codec: PDU frame length does not match command_length''"

record 'v DecodedPDU =
  dp_Header :: Header
  dp_Body   :: "'v any"

definition decodeBody :: "'v CommandDecoder \<Rightarrow> Header \<Rightarrow> bytes \<Rightarrow> goerr + 'v any" where
  "decodeBody dec header body =
     (case dec header body of
        Returns v \<Rightarrow> Inr v
      | Raises err \<Rightarrow> Inl err
      | Panics r \<Rightarrow> Inl (SemanticError StatusSystemError (h_CommandID header) (h_SequenceNumber header)
          ''command decoder panicked'' (Some (PanicError ''codec.CommandDecoder'' r))))"

definition encodeBody :: "'v CommandEncoder \<Rightarrow> bytes \<Rightarrow> 'v any \<Rightarrow> goerr + bytes" where
  "encodeBody enc dst body =
     (case enc dst body of
        Returns out \<Rightarrow> Inr out
      | Raises err \<Rightarrow> Inl err
      | Panics r \<Rightarrow> Inl (PanicError ''codec.CommandEncoder'' r))"

text \<open>The field \<^verbatim>\<open>Optional\<close> of a body, found by reflection; empty when the type has none.\<close>

definition optionalOf :: "'v body \<Rightarrow> OptionalParameter list" where
  "optionalOf b =
     (case b of
        OptionalResponseB v \<Rightarrow> or_Optional v
      | BindResponseB v \<Rightarrow> bresp_Optional v
      | SubmitSMB v \<Rightarrow> ssm_Optional v
      | SubmitSMRespB v \<Rightarrow> ssmr_Optional v
      | DeliverSMB v \<Rightarrow> dsm_Optional v
      | DeliverSMRespB v \<Rightarrow> dsmr_Optional v
      | SubmitMultiB v \<Rightarrow> sm_Optional v
      | SubmitMultiRespB v \<Rightarrow> smr_Optional v
      | DataSMB v \<Rightarrow> data_Optional v
      | DataSMRespB v \<Rightarrow> datar_Optional v
      | QuerySMRespB v \<Rightarrow> qr_Optional v
      | AlertNotificationB v \<Rightarrow> an_Optional v
      | BroadcastSMB v \<Rightarrow> b_Optional v
      | BroadcastSMRespB v \<Rightarrow> bcr_Optional v
      | QueryBroadcastSMB v \<Rightarrow> qb_Optional v
      | QueryBroadcastSMRespB v \<Rightarrow> qbr_Optional v
      | CancelBroadcastSMB v \<Rightarrow> cb_Optional v
      | VendorB v ps \<Rightarrow> ps
      | _ \<Rightarrow> [])"

definition optionalParametersOf :: "'v any \<Rightarrow> OptionalParameter list" where
  "optionalParametersOf body = (case body of Val b \<Rightarrow> optionalOf b | Ptr b \<Rightarrow> optionalOf b | _ \<Rightarrow> [])"

definition appendErrorResponseBody :: "bytes \<Rightarrow> 'v CommandEncoder \<Rightarrow> 'v any \<Rightarrow> goerr + bytes" where
  "appendErrorResponseBody dst enc body =
     bindE (encodeBody enc [] body) (\<lambda>_. appendOptional dst (optionalParametersOf body))"

definition DecodePDU :: "bytes \<Rightarrow> 'v Registry option \<Rightarrow> goerr + 'v DecodedPDU" where
  "DecodePDU frame registry =
     bindE (DecodeHeader frame) (\<lambda>header.
     let declared = unat (CommandLength header) in
     if length frame < declared
     then Inl (FatalError FatalTruncatedFrame (CommandLength header) (h_CommandID header)
            (h_SequenceNumber header) ''frame ended before command_length'' None)
     else if length frame \<noteq> declared
     then Inl (semantic StatusInvalidCommandLength ''declared=%d actual=%d'' ErrPDUFrameLengthMismatch)
     else
       let bodyBytes = go_slice frame HeaderSize declared in
       bindE (ResolveCommand registry (h_CommandID header)) (\<lambda>def.
         case Option.bind def cd_Decode of
           None \<Rightarrow> Inr \<lparr>dp_Header = header, dp_Body = Val (RawBodyB bodyBytes)\<rparr>
         | Some dec \<Rightarrow> bindE (decodeBody dec header bodyBytes) (\<lambda>body.
             Inr \<lparr>dp_Header = header, dp_Body = body\<rparr>)))"

text \<open>
  The end of \<open>EncodePDU\<close>: the header is written over the sixteen octets reserved at \<open>start\<close>. What
  these octets hold before (zeros here) does not matter to an encoder that only appends. An encoder of the user that hands
  back fewer octets than it was given breaks the contract of an appending encoder; the slice expression of the source then depends on the
  spare capacity of the buffer, which is not modelled, and the model returns the error of a short buffer.
\<close>

definition finishPDU :: "nat \<Rightarrow> bytes \<Rightarrow> Header \<Rightarrow> goerr + bytes" where
  "finishPDU start dst header =
     (let header = header\<lparr>CommandLength := of_nat (length dst - start)\<rparr> in
      bindE (EncodeHeader (go_slice dst start (start + HeaderSize)) header) (\<lambda>hdr.
        Inr (take start dst @ hdr @ drop (start + HeaderSize) dst)))"

definition asRawBody :: "'v any \<Rightarrow> bytes option" where
  "asRawBody body = (case body of Val (RawBodyB raw) \<Rightarrow> Some raw | _ \<Rightarrow> None)"

definition EncodePDU :: "bytes \<Rightarrow> Header \<Rightarrow> 'v any \<Rightarrow> 'v Registry option \<Rightarrow> goerr + bytes" where
  "EncodePDU dst header body registry =
     bindE (ResolveCommand registry (h_CommandID header)) (\<lambda>def.
       let start = length dst; reserved = dst @ replicate HeaderSize 0 in
       case Option.bind def cd_Encode of
         None \<Rightarrow>
           (case asRawBody body of
              None \<Rightarrow> Inl (Wrapped ''no encoder for command 0x%08x'' ErrInvalidPDUValue)
            | Some raw \<Rightarrow> finishPDU start (reserved @ raw) header)
       | Some enc \<Rightarrow>
           bindE (if IsResponse (h_CommandID header) \<and> \<not> OK (h_CommandStatus header)
                  then appendErrorResponseBody reserved enc body
                  else encodeBody enc reserved body) (\<lambda>dst.
           finishPDU start dst header))"

definition ResponseHeader :: "Header \<Rightarrow> CommandID \<Rightarrow> CommandStatus \<Rightarrow> Header" where
  "ResponseHeader request responseID status =
     \<lparr>CommandLength = 0, h_CommandID = responseID, h_CommandStatus = status,
      h_SequenceNumber = h_SequenceNumber request\<rparr>"

section \<open>The laws of a registered command\<close>

definition decodes :: "'v CommandDefinition \<Rightarrow> Header \<Rightarrow> bytes \<Rightarrow> 'v any \<Rightarrow> bool" where
  "decodes d h body x \<longleftrightarrow> (\<exists>f. cd_Decode d = Some f \<and> f h body = Returns x)"

definition encodes :: "'v CommandDefinition \<Rightarrow> bytes \<Rightarrow> 'v any \<Rightarrow> bytes \<Rightarrow> bool" where
  "encodes d dst x out \<longleftrightarrow> (\<exists>f. cd_Encode d = Some f \<and> f dst x = Returns out)"

lemma returning_eq_Returns [simp]: "returning m = Returns a \<longleftrightarrow> m = Inr a"
  by (cases m) simp_all

lemma decodes_library [simp]: "decodes (commandDefinition i n dec enc) h body x \<longleftrightarrow> dec h body = Inr x"
  by (simp add: decodes_def)

lemma encodes_library [simp]: "encodes (commandDefinition i n dec enc) dst x = (\<lambda>out. enc dst x = Inr out)"
  by (rule ext) (simp add: encodes_def)

lemma optionalOf_simps [simp]: "optionalOf EmptyB = []" "optionalOf (OptionalResponseB v) = or_Optional v"
  by (simp_all add: optionalOf_def)

lemma optionalParametersOf_holds:
  "holds x b \<Longrightarrow> optionalParametersOf x = optionalOf b" "holdsNothing x \<Longrightarrow> optionalParametersOf x = []"
  "optionalParametersOf (Val b) = optionalOf b"
  by (auto simp: holds_def holdsNothing_def optionalParametersOf_def)

text \<open>The commands without mandatory body fields, and the bodies in the form a decoder returns.\<close>

definition bareResponse :: "CommandID \<Rightarrow> bool" where
  "bareResponse i \<longleftrightarrow> i \<in> {CommandGenericNACK, CommandUnbindResp, CommandReplaceSMResp, CommandCancelSMResp,
     CommandEnquireLinkResp, CommandCancelBroadcastSMResp}"

definition bareRequest :: "CommandID \<Rightarrow> bool" where
  "bareRequest i \<longleftrightarrow> i \<in> {CommandUnbind, CommandEnquireLink}"

definition canonicalBody :: "CommandID \<Rightarrow> 'v body \<Rightarrow> bool" where
  "canonicalBody i b \<longleftrightarrow>
     (case b of
        EmptyB \<Rightarrow> bareResponse i \<or> bareRequest i
      | OptionalResponseB v \<Rightarrow> bareResponse i \<and> or_Optional v \<noteq> []
      | BindResponseB v \<Rightarrow> scInterfaceVersionOk (bresp_Optional v)
      | SubmitMultiB v \<Rightarrow> submitMulti_canonical v
      | _ \<Rightarrow> True)"

definition appends_law :: "'v CommandDefinition \<Rightarrow> bool" where
  "appends_law d \<longleftrightarrow> cd_Decode d \<noteq> None \<and> cd_Encode d \<noteq> None \<and>
     (\<forall>dst x out. encodes d dst x out \<longleftrightarrow> (\<exists>w. encodes d [] x w \<and> out = dst @ w))"

definition reencode_law :: "'v CommandDefinition \<Rightarrow> bool" where
  "reencode_law d \<longleftrightarrow> (\<forall>h body x. decodes d h body x \<longrightarrow> (h_CommandStatus h = 0 \<or> \<not> IsResponse (cd_ID d)) \<longrightarrow>
     (body = [] \<longrightarrow> cd_ID d \<noteq> CommandDeliverSMResp) \<longrightarrow> encodes d [] x body)"

definition redecode_law :: "'v CommandDefinition \<Rightarrow> bool" where
  "redecode_law d \<longleftrightarrow> (\<forall>h b w. encodes d [] (Val b) w \<longrightarrow> h_CommandStatus h = 0 \<longrightarrow> canonicalBody (cd_ID d) b \<longrightarrow>
     decodes d h w (Val b))"

definition error_law :: "'v CommandDefinition \<Rightarrow> bool" where
  "error_law d \<longleftrightarrow> (IsResponse (cd_ID d) \<longrightarrow> (\<forall>h. h_CommandStatus h \<noteq> 0 \<longrightarrow>
     (\<forall>body x. decodes d h body x \<longrightarrow> (\<exists>w. encodes d [] x w) \<and> body = opts_wire (optionalParametersOf x)) \<and>
     (\<forall>x w. encodes d [] x w \<longrightarrow> opts_ok (optionalParametersOf x) \<and>
        (\<exists>y. decodes d h (opts_wire (optionalParametersOf x)) y \<and> optionalParametersOf y = optionalParametersOf x))))"

definition pdu_laws :: "'v CommandDefinition \<Rightarrow> bool" where
  "pdu_laws d \<longleftrightarrow> appends_law d \<and> reencode_law d \<and> redecode_law d \<and> error_law d"

lemma reencodeD:
  "\<lbrakk>pdu_laws d; decodes d h w x; h_CommandStatus h = 0 \<or> \<not> IsResponse (cd_ID d);
    w = [] \<longrightarrow> cd_ID d \<noteq> CommandDeliverSMResp\<rbrakk> \<Longrightarrow> encodes d [] x w"
  unfolding pdu_laws_def reencode_law_def by blast

lemma redecodeD:
  "\<lbrakk>pdu_laws d; encodes d [] (Val b) w; h_CommandStatus h = 0; canonicalBody (cd_ID d) b\<rbrakk> \<Longrightarrow> decodes d h w (Val b)"
  unfolding pdu_laws_def redecode_law_def by blast

lemma error_encodedD:
  assumes "pdu_laws d" "IsResponse (cd_ID d)" "h_CommandStatus h \<noteq> 0" "encodes d [] x w"
  shows "opts_ok (optionalParametersOf x)"
    "\<exists>y. decodes d h (opts_wire (optionalParametersOf x)) y \<and> optionalParametersOf y = optionalParametersOf x"
  using assms unfolding pdu_laws_def error_law_def by blast+

lemma error_decodedD:
  assumes "pdu_laws d" "IsResponse (cd_ID d)" "h_CommandStatus h \<noteq> 0" "decodes d h body x"
  shows "\<exists>w. encodes d [] x w" "body = opts_wire (optionalParametersOf x)" "opts_ok (optionalParametersOf x)"
proof -
  show enc: "\<exists>w. encodes d [] x w" and "body = opts_wire (optionalParametersOf x)"
    using assms unfolding pdu_laws_def error_law_def by simp_all
  then show "opts_ok (optionalParametersOf x)" using error_encodedD(1) [OF assms(1-3)] by blast
qed

context request_codec
begin

lemma request_laws:
  assumes "\<not> IsResponse i" "\<And>v. canonicalBody i (inject v) \<Longrightarrow> canonical v"
  shows "pdu_laws (commandDefinition i n dec enc)"
proof -
  have "appends_law (commandDefinition i n dec enc)"
    unfolding appends_law_def encodes_library by (simp add: enc_appends [symmetric])
  moreover have "reencode_law (commandDefinition i n dec enc)"
    using dec_then_enc [where dst = "[]"] by (simp add: reencode_law_def)
  moreover have "redecode_law (commandDefinition i n dec enc)"
    unfolding redecode_law_def
    using assms(2) by (auto simp: enc_Inr dec_Inr holds_def inject)
  ultimately show ?thesis using assms(1) by (simp add: pdu_laws_def error_law_def)
qed

end

context response_codec
begin

lemma response_reencode:
  assumes "IsResponse i" and lenient: "lenient \<Longrightarrow> i = CommandDeliverSMResp"
  shows "reencode_law (commandDefinition i n dec enc)"
  unfolding reencode_law_def decodes_library encodes_library commandDefinition_simps
proof (intro allI impI)
  fix h :: Header and body x
  assume *: "dec h body = Inr x" "h_CommandStatus h = 0 \<or> \<not> IsResponse i" "body = [] \<longrightarrow> i \<noteq> CommandDeliverSMResp"
  then have "h_CommandStatus h = 0" using assms(1) by simp
  from *(1) [unfolded dec_ok [OF this]] show "enc [] x = Inr body"
  proof (elim disjE exE conjE)
    fix v assume "x = Val (inject v)" "valid v" "body = wire v"
    then show ?thesis by (simp add: enc_Val)
  next
    assume "lenient" "body = []"
    with lenient *(3) show ?thesis by simp
  qed
qed

lemma response_redecode:
  assumes typed: "\<not> bareResponse i" "\<not> bareRequest i"
    and canonical: "\<And>v. canonicalBody i (inject v) \<Longrightarrow> canonical v"
  shows "redecode_law (commandDefinition i n dec enc)"
  unfolding redecode_law_def decodes_library encodes_library commandDefinition_simps
proof (intro allI impI)
  fix h :: Header and b w
  assume "enc [] (Val b) = Inr w" and st: "h_CommandStatus h = 0" and c: "canonicalBody i b"
  then have *: "(\<exists>v. b = inject v \<and> valid v \<and> w = wire v) \<or> b = EmptyB \<or> (\<exists>ps. b = OptionalResponseB ps)"
    unfolding enc_Inr holds_def holdsNothing_def by auto
  moreover have "b \<noteq> EmptyB" "b \<noteq> OptionalResponseB ps" for ps
    using c typed unfolding canonicalBody_def by auto
  ultimately obtain v where "b = inject v" "valid v" "w = wire v" by blast
  then show "dec h w = Inr (Val b)"
    unfolding dec_ok [OF st] using canonical [of v] c by (simp add: inject)
qed

lemma response_error_decoded:
  assumes "valid zero" "optionalOf (inject zero) = []" "h_CommandStatus h \<noteq> 0" "dec h body = Inr x"
  shows "\<exists>w. enc [] x = Inr w" "body = opts_wire (optionalParametersOf x)"
proof -
  have *: "error_body (inject zero) body x" using assms(3,4) by (simp add: dec_error)
  show "\<exists>w. enc [] x = Inr w"
    using * unfolding error_body_def
  proof (elim disjE exE conjE)
    assume "x = Val (inject zero)"
    then show ?thesis using assms(1) by (simp add: enc_Val)
  next
    fix ps assume "opts_ok ps" "x = Val (OptionalResponseB \<lparr>or_Optional = ps\<rparr>)"
    then show ?thesis unfolding enc_Inr holds_def by blast
  qed
  show "body = opts_wire (optionalParametersOf x)"
    using * assms(2) unfolding error_body_def
    by (elim disjE exE conjE) (simp_all add: optionalParametersOf_holds(3))
qed

lemma response_error_encoded:
  assumes zero: "optionalOf (inject zero) = []" and st: "h_CommandStatus h \<noteq> 0"
    and opts: "\<And>v. valid v \<Longrightarrow> opts_ok (optionalOf (inject v))" and "enc [] x = Inr w"
  shows "opts_ok (optionalParametersOf x)"
    "\<exists>y. dec h (opts_wire (optionalParametersOf x)) = Inr y \<and> optionalParametersOf y = optionalParametersOf x"
proof -
  show ok: "opts_ok (optionalParametersOf x)"
    using assms(4) unfolding enc_Inr
    by (elim disjE exE conjE) (simp_all add: optionalParametersOf_holds opts)
  let ?y = "if optionalParametersOf x = [] then Val (inject zero)
    else Val (OptionalResponseB \<lparr>or_Optional = optionalParametersOf x\<rparr>)"
  have "error_body (inject zero) (opts_wire (optionalParametersOf x)) ?y"
    unfolding error_body_def using ok by simp
  then have "dec h (opts_wire (optionalParametersOf x)) = Inr ?y"
    unfolding dec_error [OF st] .
  moreover have "optionalParametersOf ?y = optionalParametersOf x"
    using zero by (simp add: optionalParametersOf_holds(3))
  ultimately show "\<exists>y. dec h (opts_wire (optionalParametersOf x)) = Inr y \<and> optionalParametersOf y = optionalParametersOf x"
    by blast
qed

lemma response_laws:
  assumes "IsResponse i" "\<not> bareResponse i" "\<not> bareRequest i"
    and "\<And>v. canonicalBody i (inject v) \<Longrightarrow> canonical v"
    and "lenient \<Longrightarrow> i = CommandDeliverSMResp"
    and "valid zero" "optionalOf (inject zero) = []"
    and "\<And>v. valid v \<Longrightarrow> opts_ok (optionalOf (inject v))"
  shows "pdu_laws (commandDefinition i n dec enc)"
  unfolding pdu_laws_def
proof (intro conjI)
  show "appends_law (commandDefinition i n dec enc)"
    unfolding appends_law_def encodes_library by (simp add: enc_appends [symmetric])
  show "reencode_law (commandDefinition i n dec enc)" using assms(1,5) by (rule response_reencode)
  show "redecode_law (commandDefinition i n dec enc)" using assms(2-4) by (rule response_redecode)
  show "error_law (commandDefinition i n dec enc)"
    unfolding error_law_def decodes_library encodes_library
    using response_error_decoded [OF assms(6,7)] response_error_encoded [OF assms(7) _ assms(8)] by blast
qed

end

lemma empty_request_laws:
  assumes "bareRequest i"
  shows "pdu_laws (commandDefinition i n decodeRequestEmpty encodeEmpty)"
proof -
  have "\<not> IsResponse i" using assms by (auto simp: bareRequest_def IsResponse_def responseMask_def)
  moreover have "b = EmptyB" if "canonicalBody i b" "holdsNothing (Val b)" for b
    using that by (simp add: holdsNothing_def)
  ultimately show ?thesis
    by (auto simp: pdu_laws_def appends_law_def reencode_law_def redecode_law_def error_law_def
        decodeRequestEmpty_Inr encodeEmpty_Inr holdsNothing_def)
qed

lemma empty_response_laws:
  assumes "bareResponse i"
  shows "pdu_laws (commandDefinition i n decodeResponseEmpty encodeResponseEmpty)"
proof -
  let ?d = "commandDefinition i n decodeResponseEmpty encodeResponseEmpty :: 'v CommandDefinition"
  have "appends_law ?d"
    unfolding appends_law_def encodes_library encodeResponseEmpty_Inr commandDefinition_simps by auto
  moreover have "reencode_law ?d"
    unfolding reencode_law_def decodes_library encodes_library decodeResponseEmpty_Inr encodeResponseEmpty_Inr
      error_body_def holds_def holdsNothing_def by auto
  moreover have "redecode_law ?d"
    unfolding redecode_law_def decodes_library encodes_library decodeResponseEmpty_Inr encodeResponseEmpty_Inr
      error_body_def holds_def holdsNothing_def by (auto simp: canonicalBody_def)
  moreover have "error_law ?d"
    unfolding error_law_def decodes_library encodes_library decodeResponseEmpty_Inr encodeResponseEmpty_Inr
      commandDefinition_simps
  proof (intro impI allI conjI)
    fix h :: Header and body and x :: "'v any"
    assume *: "error_body EmptyB body x"
    show "\<exists>w. holdsNothing x \<and> w = [] \<or> (\<exists>ps. holds x (OptionalResponseB \<lparr>or_Optional = ps\<rparr>) \<and> opts_ok ps \<and> w = [] @ opts_wire ps)"
      using * unfolding error_body_def holds_def holdsNothing_def by auto
    show "body = opts_wire (optionalParametersOf x)"
      using * unfolding error_body_def by (elim disjE exE conjE) (simp_all add: optionalParametersOf_holds)
  next
    fix h :: Header and x :: "'v any" and w
    assume *: "holdsNothing x \<and> w = [] \<or> (\<exists>ps. holds x (OptionalResponseB \<lparr>or_Optional = ps\<rparr>) \<and> opts_ok ps \<and> w = [] @ opts_wire ps)"
    then show ok: "opts_ok (optionalParametersOf x)"
      by (elim disjE exE conjE) (simp_all add: optionalParametersOf_holds)
    show "\<exists>y :: 'v any. error_body EmptyB (opts_wire (optionalParametersOf x)) y \<and> optionalParametersOf y = optionalParametersOf x"
    proof (cases "optionalParametersOf x")
      case Nil
      then show ?thesis by (intro exI [of _ "Val EmptyB"]) (simp add: error_body_def optionalParametersOf_holds)
    next
      case (Cons p ps)
      then show ?thesis using ok
        by (intro exI [of _ "Val (OptionalResponseB \<lparr>or_Optional = optionalParametersOf x\<rparr>)"])
           (simp add: error_body_def optionalParametersOf_holds)
    qed
  qed
  ultimately show ?thesis by (simp add: pdu_laws_def)
qed

section \<open>The standard tables satisfy the laws\<close>

lemmas bare_simps = bareResponse_def bareRequest_def canonicalBody_def IsResponse_def responseMask_def

lemma smpp34_laws: "list_all pdu_laws smpp34Commands"
  unfolding smpp34Commands_def list.pred_inject
  by (intro conjI TrueI empty_request_laws empty_response_laws
      bindRequest.request_laws bindResponse.response_laws submitSM.request_laws submitSMResp.response_laws
      deliverSM.request_laws deliverSMResp.response_laws querySM.request_laws querySMResp.response_laws
      replaceSM.request_laws cancelSM.request_laws outbind.request_laws submitMulti.request_laws
      submitMultiResp.response_laws alertNotification.request_laws dataSM.request_laws dataSMResp.response_laws)
    (simp_all add: bare_simps optionalOf_def bindResponse_valid_def messageID_valid_def querySMResp_valid_def
      submitMultiResp_valid_def dataSMResp_valid_def cstr_def)

lemma smpp50_laws: "list_all pdu_laws smpp50Commands"
  unfolding smpp50Commands_def list.pred_inject
  by (intro conjI TrueI empty_response_laws broadcastSM.request_laws broadcastSMResp.response_laws
      queryBroadcastSM.request_laws queryBroadcastSMResp.response_laws cancelBroadcastSM.request_laws)
    (simp_all add: bare_simps optionalOf_def broadcastSMResp_valid_def queryBroadcastSMResp_valid_def cstr_def)

lemma standard_laws:
  assumes "reg_commands (smpp50Registry mode) i = Some d"
  shows "pdu_laws d" "cd_ID d = i"
proof -
  have "d \<in> set (smpp34Commands @ smpp50Commands)" and id: "cd_ID d = i"
    using smpp50Registry_command [OF assms] by simp_all
  moreover have "list_all pdu_laws (smpp34Commands @ smpp50Commands :: 'a CommandDefinition list)"
    unfolding list_all_append using smpp34_laws smpp50_laws by (rule conjI)
  ultimately show "pdu_laws d" unfolding list_all_iff by (intro bspec [of _ pdu_laws])
  show "cd_ID d = i" by (rule id)
qed

section \<open>Frames\<close>

definition frame_of :: "Header \<Rightarrow> bytes \<Rightarrow> bytes" where
  "frame_of h w = header_wire (h\<lparr>CommandLength := of_nat (16 + length w)\<rparr>) @ w"

lemma length_frame_of [simp]: "length (frame_of h w) = 16 + length w"
  by (simp add: frame_of_def)

lemma CommandLength_self: "CommandLength h = n \<Longrightarrow> h\<lparr>CommandLength := n\<rparr> = h"
  by (cases h) simp

lemma frame_length_wraps: "16 + n < 2 ^ 32 \<Longrightarrow> unat (of_nat (16 + n) :: u32) = 16 + n"
  unfolding unat_of_nat by (rule mod_less) simp

lemma frame_length_le: "16 + n < 2 ^ 32 \<Longrightarrow> (16 :: u32) \<le> of_nat (16 + n)"
  unfolding word_le_nat_alt frame_length_wraps by simp

lemma finishPDU_Inr:
  assumes "16 + length w < 2 ^ 32"
  shows "finishPDU (length dst) (dst @ replicate 16 0 @ w) h = Inr (dst @ frame_of h w)"
proof -
  have "length (dst @ replicate 16 0 @ w) - length dst = 16 + length w" by simp
  then show ?thesis
    using frame_length_le [OF assms]
    by (simp add: finishPDU_def Let_def wire_simps go_slice_def frame_of_def)
qed

lemma finishPDU_length: "finishPDU start dst h = Inr out \<Longrightarrow> length out = length dst"
  by (auto simp: finishPDU_def Let_def wire_simps go_slice_def)

lemma decodeBody_Inr: "decodeBody dec h w = Inr x \<longleftrightarrow> dec h w = Returns x"
  by (cases "dec h w") (simp_all add: decodeBody_def)

lemma DecodePDU_steps:
  "DecodePDU frame registry = Inr \<lparr>dp_Header = h, dp_Body = x\<rparr> \<longleftrightarrow>
     DecodeHeader frame = Inr h \<and> length frame = unat (CommandLength h) \<and>
     (\<exists>def. ResolveCommand registry (h_CommandID h) = Inr def \<and>
        (case Option.bind def cd_Decode of
           None \<Rightarrow> x = Val (RawBodyB (drop 16 frame)) | Some dec \<Rightarrow> dec h (drop 16 frame) = Returns x))"
proof (cases "DecodeHeader frame")
  case (Inr header)
  show ?thesis
  proof (cases "length frame = unat (CommandLength header)")
    case True
    then have body: "go_slice frame 16 (unat (CommandLength header)) = drop 16 frame"
      by (simp add: go_slice_def)
    show ?thesis
    proof (cases "ResolveCommand registry (h_CommandID header)")
      case (Inr "def")
      show ?thesis
        using \<open>DecodeHeader frame = Inr header\<close> Inr True body
        by (cases "Option.bind def cd_Decode") (auto simp: DecodePDU_def bindE_eq_Inr decodeBody_Inr)
    qed (use Inr in \<open>auto simp: DecodePDU_def Let_def\<close>)
  qed (use Inr in \<open>auto simp: DecodePDU_def Let_def\<close>)
qed (simp add: DecodePDU_def)

lemma DecodeHeader_exact:
  "DecodeHeader frame = Inr h \<and> length frame = unat (CommandLength h) \<longleftrightarrow>
     (\<exists>w. 16 + length w < 2 ^ 32 \<and> frame = header_wire h @ w \<and> CommandLength h = of_nat (16 + length w))"
proof
  assume *: "DecodeHeader frame = Inr h \<and> length frame = unat (CommandLength h)"
  then obtain w where w: "frame = header_wire h @ w" unfolding DecodeHeader_Inr by blast
  then have len: "16 + length w = unat (CommandLength h)" using * by simp
  moreover have "unat (CommandLength h) < 2 ^ LENGTH(32)" by (rule unsigned_less)
  moreover have "CommandLength h = of_nat (16 + length w)" unfolding len by simp
  ultimately show "\<exists>w. 16 + length w < 2 ^ 32 \<and> frame = header_wire h @ w \<and> CommandLength h = of_nat (16 + length w)"
    using w by (intro exI [of _ w]) simp
next
  assume "\<exists>w. 16 + length w < 2 ^ 32 \<and> frame = header_wire h @ w \<and> CommandLength h = of_nat (16 + length w)"
  then obtain w where w: "16 + length w < 2 ^ 32" "frame = header_wire h @ w" "CommandLength h = of_nat (16 + length w)"
    by blast
  then show "DecodeHeader frame = Inr h \<and> length frame = unat (CommandLength h)"
    unfolding DecodeHeader_Inr using frame_length_le [OF w(1)] frame_length_wraps [OF w(1)] by simp
qed

lemma DecodePDU_Inr:
  "DecodePDU frame registry = Inr \<lparr>dp_Header = h, dp_Body = x\<rparr> \<longleftrightarrow>
     (\<exists>w def. 16 + length w < 2 ^ 32 \<and> frame = header_wire h @ w \<and> CommandLength h = of_nat (16 + length w) \<and>
        ResolveCommand registry (h_CommandID h) = Inr def \<and>
        (case Option.bind def cd_Decode of None \<Rightarrow> x = Val (RawBodyB w) | Some dec \<Rightarrow> dec h w = Returns x))"
  unfolding DecodePDU_steps using DecodeHeader_exact [of frame h] by (auto 4 4 split: option.splits)

lemma encodeBody_Inr: "encodeBody enc dst x = Inr out \<longleftrightarrow> enc dst x = Returns out"
  by (cases "enc dst x") (simp_all add: encodeBody_def)

text \<open>What the encoder of a registered command writes after the header.\<close>

definition bodyWire :: "'v CommandDefinition \<Rightarrow> Header \<Rightarrow> 'v any \<Rightarrow> bytes \<Rightarrow> bool" where
  "bodyWire d h x w \<longleftrightarrow>
     (if IsResponse (h_CommandID h) \<and> h_CommandStatus h \<noteq> 0
      then (\<exists>u. encodes d [] x u) \<and> opts_ok (optionalParametersOf x) \<and> w = opts_wire (optionalParametersOf x)
      else encodes d [] x w)"

lemma EncodePDU_known:
  assumes d: "Command registry (h_CommandID h) = Some d" and "appends_law d"
  shows "EncodePDU dst h x registry = Inr out \<longleftrightarrow>
    (\<exists>w. bodyWire d h x w \<and> finishPDU (length dst) (dst @ replicate 16 0 @ w) h = Inr out)"
proof -
  obtain enc where enc: "cd_Encode d = Some enc" using assms(2) unfolding appends_law_def by blast
  have encs: "encodes d ds x = (\<lambda>w. enc ds x = Returns w)" for ds
    by (rule ext) (simp add: encodes_def enc)
  have app: "enc ds x = Returns out \<longleftrightarrow> (\<exists>w. enc [] x = Returns w \<and> out = ds @ w)" for ds out
    using assms(2) unfolding appends_law_def encodes_def enc option.inject by blast
  have "EncodePDU dst h x registry = Inr out \<longleftrightarrow> (\<exists>body.
      (if IsResponse (h_CommandID h) \<and> h_CommandStatus h \<noteq> 0
       then appendErrorResponseBody (dst @ replicate 16 0) enc x else encodeBody enc (dst @ replicate 16 0) x) = Inr body
      \<and> finishPDU (length dst) body h = Inr out)"
    by (simp add: EncodePDU_def ResolveCommand_def d enc Let_def bindE_eq_Inr)
  also have "\<dots> \<longleftrightarrow> (\<exists>body. (\<exists>w. bodyWire d h x w \<and> body = dst @ replicate 16 0 @ w)
      \<and> finishPDU (length dst) body h = Inr out)"
  proof (cases "IsResponse (h_CommandID h) \<and> h_CommandStatus h \<noteq> 0")
    case True
    then show ?thesis
      by (simp add: bodyWire_def encs appendErrorResponseBody_def bindE_eq_Inr encodeBody_Inr appendOptional_Inr)
  next
    case False
    then have "(\<exists>w. bodyWire d h x w \<and> body = dst @ replicate 16 0 @ w) \<longleftrightarrow>
        encodeBody enc (dst @ replicate 16 0) x = Inr body" for body
      unfolding bodyWire_def encs encodeBody_Inr app [of "dst @ replicate 16 0"] append_assoc by (simp only: if_False)
    then show ?thesis unfolding if_not_P [OF False] by (simp only:)
  qed
  finally show ?thesis by blast
qed

lemma asRawBody_Some: "asRawBody x = Some w \<longleftrightarrow> x = Val (RawBodyB w)"
proof (cases x)
  case (Val b)
  then show ?thesis by (cases b) (simp_all add: asRawBody_def)
qed (simp_all add: asRawBody_def)

lemma EncodePDU_unknown:
  assumes "ResolveCommand registry (h_CommandID h) = Inr None"
  shows "EncodePDU dst h x registry = Inr out \<longleftrightarrow>
    (\<exists>w. x = Val (RawBodyB w) \<and> finishPDU (length dst) (dst @ replicate 16 0 @ w) h = Inr out)"
  using assms by (cases "asRawBody x") (auto simp: EncodePDU_def Let_def simp flip: asRawBody_Some)

lemma EncodePDU_finish:
  assumes "finishPDU (length dst) (dst @ replicate 16 0 @ w) h = Inr out" "length out < length dst + 2 ^ 32"
  shows "16 + length w < 2 ^ 32" "out = dst @ frame_of h w"
proof -
  show *: "16 + length w < 2 ^ 32" using finishPDU_length [OF assms(1)] assms(2) by simp
  show "out = dst @ frame_of h w" using assms(1) unfolding finishPDU_Inr [OF *] by simp
qed

section \<open>Round trips over every standard command\<close>

lemma NewSMPP50Registry_Inr:
  "NewSMPP50Registry mode = Inr reg \<longleftrightarrow> RegistryModeValid mode \<and> reg = smpp50Registry mode"
proof (cases "RegistryModeValid mode")
  case False
  then have "Freeze b = Inl ErrInvalidRegistryMode" if "rb_mode b = mode" for b :: "'a RegistryBuilder"
    using that by (simp add: Freeze_def)
  with False show ?thesis by (simp add: NewSMPP50Registry_def NewSMPP50RegistryBuilder_eq)
qed (auto simp: NewSMPP50Registry_eq)

lemma ResolveCommand_Inr:
  "ResolveCommand (Some r) i = Inr def \<longleftrightarrow>
     def = reg_commands r i \<and> (def = None \<longrightarrow> reg_mode r \<noteq> RegistryStrict)"
  by (cases "reg_commands r i") (auto simp: ResolveCommand_def Command_def)

lemma smpp50Registry_mode [simp]: "reg_mode (smpp50Registry mode) = mode"
  by (simp add: smpp50Registry_def)

lemma decode_then_encode_known:
  assumes d: "Command registry (h_CommandID h) = Some d" and laws: "pdu_laws d" "cd_ID d = h_CommandID h"
    and w: "16 + length w < 2 ^ 32" "CommandLength h = of_nat (16 + length w)" and "decodes d h w x"
    and not_lenient: "\<not> (h_CommandID h = CommandDeliverSMResp \<and> h_CommandStatus h = 0 \<and> w = [])"
  shows "EncodePDU dst h x registry = Inr (dst @ header_wire h @ w)"
proof -
  have "bodyWire d h x w"
  proof (cases "IsResponse (h_CommandID h) \<and> h_CommandStatus h \<noteq> 0")
    case True
    then have "(\<exists>u. encodes d [] x u)" "w = opts_wire (optionalParametersOf x)" "opts_ok (optionalParametersOf x)"
      using error_decodedD [OF laws(1) _ _ assms(6)] laws(2) by simp_all
    with True show ?thesis by (simp add: bodyWire_def)
  next
    case False
    moreover have "h_CommandStatus h = 0 \<or> cd_ID d \<noteq> CommandDeliverSMResp"
      using False laws(2) by (auto simp: IsResponse_def responseMask_def)
    ultimately have "encodes d [] x w"
      using reencodeD [OF laws(1) assms(6)] laws(2) not_lenient by auto
    with False show ?thesis by (auto simp: bodyWire_def)
  qed
  moreover have "frame_of h w = header_wire h @ w"
    unfolding frame_of_def CommandLength_self [OF w(2)] ..
  ultimately show ?thesis
    using finishPDU_Inr [OF w(1), of dst h] laws(1) unfolding EncodePDU_known [OF d] pdu_laws_def
    by (auto simp: EncodePDU_known [OF d])
qed

text \<open>C1: Decoding then encoding gives back the received frame, octet for octet, for every command of
  the SMPP 5.0 registry (and so of SMPP 3.4), error responses and, in compatible mode, unknown
  commands included. The one exception is the successful deliver_sm_resp without a body, which the
  decoder accepts and the encoder completes with an empty message_id.\<close>

theorem decode_then_encode:
  assumes "NewSMPP50Registry mode = Inr reg"
    and "DecodePDU frame (Some reg) = Inr pdu"
    and "\<not> (h_CommandID (dp_Header pdu) = CommandDeliverSMResp \<and> h_CommandStatus (dp_Header pdu) = StatusOK
          \<and> length frame = HeaderSize)"
  shows "EncodePDU dst (dp_Header pdu) (dp_Body pdu) (Some reg) = Inr (dst @ frame)"
proof -
  obtain h x where pdu: "pdu = \<lparr>dp_Header = h, dp_Body = x\<rparr>" by (cases pdu) simp
  have reg: "reg = smpp50Registry mode" using assms(1) by (simp add: NewSMPP50Registry_Inr)
  from assms(2) [unfolded pdu DecodePDU_Inr] obtain w "def" where
    w: "16 + length w < 2 ^ 32" "CommandLength h = of_nat (16 + length w)" "frame = header_wire h @ w"
    and "def": "ResolveCommand (Some reg) (h_CommandID h) = Inr def"
    and x: "case Option.bind def cd_Decode of None \<Rightarrow> x = Val (RawBodyB w) | Some dec \<Rightarrow> dec h w = Returns x"
    by blast
  show ?thesis
  proof (cases "def")
    case None
    then have "x = Val (RawBodyB w)" using x by simp
    moreover have "frame_of h w = frame" unfolding frame_of_def CommandLength_self [OF w(2)] w(3) ..
    ultimately show ?thesis
      using "def" finishPDU_Inr [OF w(1), of dst h] by (simp add: pdu None EncodePDU_unknown)
  next
    case (Some d)
    then have d: "reg_commands reg (h_CommandID h) = Some d" using "def" by (simp add: ResolveCommand_Inr)
    note laws = standard_laws [OF d [unfolded reg]]
    have "decodes d h w x"
      using x laws(1) Some unfolding decodes_def pdu_laws_def appends_law_def by (auto split: option.splits)
    moreover have "\<not> (h_CommandID h = CommandDeliverSMResp \<and> h_CommandStatus h = 0 \<and> w = [])"
      using assms(3) by (auto simp: pdu w)
    ultimately show ?thesis
      using decode_then_encode_known [OF _ laws w(1,2), of "Some reg" x dst] d by (simp add: pdu w Command_def)
  qed
qed

theorem decode_then_encode_witness:
  "\<exists>reg :: unit Registry. NewSMPP50Registry RegistryStrict = Inr reg \<and>
     EncodePDU [] \<lparr>CommandLength = 18, h_CommandID = CommandSubmitSMResp, h_CommandStatus = StatusOK, h_SequenceNumber = 7\<rparr>
       (Val (SubmitSMRespB \<lparr>ssmr_MessageID = [65], ssmr_Optional = []\<rparr>)) (Some reg)
     = Inr [0, 0, 0, 18, 0x80, 0, 0, 4, 0, 0, 0, 0, 0, 0, 0, 7, 65, 0]"
proof (intro exI conjI)
  let ?reg = "smpp50Registry RegistryStrict :: unit Registry"
  let ?frame = "[0, 0, 0, 18, 0x80, 0, 0, 4, 0, 0, 0, 0, 0, 0, 0, 7, 65, 0] :: bytes"
  let ?pdu = "\<lparr>dp_Header = \<lparr>CommandLength = 18, h_CommandID = CommandSubmitSMResp, h_CommandStatus = StatusOK, h_SequenceNumber = 7\<rparr>,
    dp_Body = Val (SubmitSMRespB \<lparr>ssmr_MessageID = [65], ssmr_Optional = []\<rparr>)\<rparr> :: unit DecodedPDU"
  show reg: "NewSMPP50Registry RegistryStrict = Inr ?reg"
    by (rule NewSMPP50Registry_eq) (simp add: RegistryModeValid_def)
  have "DecodePDU ?frame (Some ?reg) = Inr ?pdu" by code_simp
  from decode_then_encode [OF reg this, of "[]"] show "EncodePDU []
      \<lparr>CommandLength = 18, h_CommandID = CommandSubmitSMResp, h_CommandStatus = StatusOK, h_SequenceNumber = 7\<rparr>
      (Val (SubmitSMRespB \<lparr>ssmr_MessageID = [65], ssmr_Optional = []\<rparr>)) (Some ?reg) = Inr ?frame"
    by simp
qed

lemma decode_frame_of:
  assumes "16 + length w < 2 ^ 32" "ResolveCommand registry (h_CommandID h) = Inr def"
    and "case Option.bind def cd_Decode of
      None \<Rightarrow> x = Val (RawBodyB w) | Some dec \<Rightarrow> dec (h\<lparr>CommandLength := of_nat (16 + length w)\<rparr>) w = Returns x"
  shows "DecodePDU (frame_of h w) registry = Inr \<lparr>dp_Header = h\<lparr>CommandLength := of_nat (16 + length w)\<rparr>, dp_Body = x\<rparr>"
  unfolding DecodePDU_Inr
  by (intro exI [of _ w] exI [of _ "def"] conjI) (use assms in \<open>simp_all add: frame_of_def\<close>)

lemma decodes_case: "decodes d h w x \<Longrightarrow> case cd_Decode d of None \<Rightarrow> P | Some dec \<Rightarrow> dec h w = Returns x"
  by (auto simp: decodes_def)

text \<open>C2: Encoding then decoding returns the body, for every typed body of every standard command that
  is in the form a decoder produces, in a PDU with status zero; the header comes back with the
  length of the frame. The encoder appends to the buffer it is given.\<close>

theorem encode_then_decode:
  assumes "NewSMPP50Registry mode = Inr reg"
    and "EncodePDU dst h (Val b) (Some reg) = Inr out"
    and "h_CommandStatus h = StatusOK" and "canonicalBody (h_CommandID h) b"
    and "length out < length dst + 2 ^ 32"
  shows "\<exists>frame. out = dst @ frame \<and> DecodePDU frame (Some reg)
    = Inr \<lparr>dp_Header = h\<lparr>CommandLength := of_nat (length frame)\<rparr>, dp_Body = Val b\<rparr>"
proof -
  have reg: "reg = smpp50Registry mode" using assms(1) by (simp add: NewSMPP50Registry_Inr)
  obtain "def" where "def": "ResolveCommand (Some reg) (h_CommandID h) = Inr def"
    using assms(2) by (auto simp: EncodePDU_def bindE_eq_Inr)
  have "\<exists>w. finishPDU (length dst) (dst @ replicate 16 0 @ w) h = Inr out \<and>
    (case Option.bind def cd_Decode of
       None \<Rightarrow> Val b = Val (RawBodyB w) | Some dec \<Rightarrow> dec (h\<lparr>CommandLength := of_nat (16 + length w)\<rparr>) w = Returns (Val b))"
  proof (cases "def")
    case None
    then show ?thesis using assms(2) "def" by (auto simp: EncodePDU_unknown)
  next
    case (Some d)
    then have d: "reg_commands reg (h_CommandID h) = Some d" using "def" by (simp add: ResolveCommand_Inr)
    note laws = standard_laws [OF d [unfolded reg]]
    have "appends_law d" using laws(1) by (simp add: pdu_laws_def)
    with assms(2) d obtain w where w: "bodyWire d h (Val b) w" "finishPDU (length dst) (dst @ replicate 16 0 @ w) h = Inr out"
      using EncodePDU_known [of "Some reg" h d dst "Val b" out] by (auto simp: Command_def)
    then have "encodes d [] (Val b) w" using assms(3) by (simp add: bodyWire_def)
    then have "decodes d (h\<lparr>CommandLength := of_nat (16 + length w)\<rparr>) w (Val b)"
      using redecodeD [OF laws(1)] laws(2) assms(3,4) by simp
    then show ?thesis using w(2) Some decodes_case by (intro exI [of _ w]) fastforce
  qed
  then obtain w where w: "finishPDU (length dst) (dst @ replicate 16 0 @ w) h = Inr out"
    "case Option.bind def cd_Decode of
       None \<Rightarrow> Val b = Val (RawBodyB w) | Some dec \<Rightarrow> dec (h\<lparr>CommandLength := of_nat (16 + length w)\<rparr>) w = Returns (Val b)"
    by blast
  show ?thesis
    using EncodePDU_finish [OF w(1) assms(5)] decode_frame_of [OF _ "def" w(2)]
    by (intro exI [of _ "frame_of h w"]) simp
qed

theorem encode_then_decode_witness:
  "\<exists>reg :: unit Registry. NewSMPP50Registry RegistryCompatible = Inr reg \<and>
     DecodePDU [0, 0, 0, 18, 0, 0, 0, 3, 0, 0, 0, 0, 0, 0, 0, 1, 66, 0, 1, 2, 0] (Some reg) \<noteq>
     DecodePDU [0, 0, 0, 21, 0, 0, 0, 3, 0, 0, 0, 0, 0, 0, 0, 1, 66, 0, 1, 2, 0] (Some reg) \<and>
     DecodePDU [0, 0, 0, 21, 0, 0, 0, 3, 0, 0, 0, 0, 0, 0, 0, 1, 66, 0, 1, 2, 0] (Some reg)
     = Inr \<lparr>dp_Header = \<lparr>CommandLength = 21, h_CommandID = CommandQuerySM, h_CommandStatus = StatusOK, h_SequenceNumber = 1\<rparr>,
            dp_Body = Val (QuerySMB \<lparr>q_MessageID = [66], q_SourceAddrTON = 1, q_SourceAddrNPI = 2, q_SourceAddr = []\<rparr>)\<rparr>"
proof (intro exI conjI)
  let ?reg = "smpp50Registry RegistryCompatible :: unit Registry"
  let ?h = "\<lparr>CommandLength = 0, h_CommandID = CommandQuerySM, h_CommandStatus = StatusOK, h_SequenceNumber = 1\<rparr>"
  let ?b = "QuerySMB \<lparr>q_MessageID = [66], q_SourceAddrTON = 1, q_SourceAddrNPI = 2, q_SourceAddr = []\<rparr> :: unit body"
  let ?frame = "[0, 0, 0, 21, 0, 0, 0, 3, 0, 0, 0, 0, 0, 0, 0, 1, 66, 0, 1, 2, 0] :: bytes"
  show reg: "NewSMPP50Registry RegistryCompatible = Inr ?reg"
    by (rule NewSMPP50Registry_eq) (simp add: RegistryModeValid_def)
  have "EncodePDU [] ?h (Val ?b) (Some ?reg) = Inr ?frame" by code_simp
  then have "\<exists>frame. ?frame = [] @ frame \<and> DecodePDU frame (Some ?reg)
      = Inr \<lparr>dp_Header = ?h\<lparr>CommandLength := of_nat (length frame)\<rparr>, dp_Body = Val ?b\<rparr>"
    by (rule encode_then_decode [OF reg]) (simp_all add: canonicalBody_def)
  then show *: "DecodePDU ?frame (Some ?reg)
      = Inr \<lparr>dp_Header = \<lparr>CommandLength = 21, h_CommandID = CommandQuerySM, h_CommandStatus = StatusOK, h_SequenceNumber = 1\<rparr>, dp_Body = Val ?b\<rparr>"
    by simp
  have "isl (DecodePDU [0, 0, 0, 18, 0, 0, 0, 3, 0, 0, 0, 0, 0, 0, 0, 1, 66, 0, 1, 2, 0] (Some ?reg))" by code_simp
  then show "DecodePDU [0, 0, 0, 18, 0, 0, 0, 3, 0, 0, 0, 0, 0, 0, 0, 1, 66, 0, 1, 2, 0] (Some ?reg) \<noteq> DecodePDU ?frame (Some ?reg)"
    unfolding * by (auto simp: isl_def)
qed

text \<open>C4: A response with an error status is written as the header and the optional parameters of the
  body and nothing else, whatever mandatory fields the body has; the decoder reads such a frame, and
  the optional parameters come back.\<close>

theorem error_response_roundtrip:
  assumes "NewSMPP50Registry mode = Inr reg"
    and "reg_commands reg (h_CommandID h) \<noteq> None"
    and "IsResponse (h_CommandID h)" and "h_CommandStatus h \<noteq> StatusOK"
    and "EncodePDU dst h x (Some reg) = Inr out" and "length out < length dst + 2 ^ 32"
  shows "\<exists>header frame y. out = dst @ frame \<and> header = h\<lparr>CommandLength := of_nat (length frame)\<rparr> \<and>
    frame = header_wire header @ opts_wire (optionalParametersOf x) \<and>
    DecodePDU frame (Some reg) = Inr \<lparr>dp_Header = header, dp_Body = y\<rparr> \<and> optionalParametersOf y = optionalParametersOf x"
proof -
  have reg: "reg = smpp50Registry mode" using assms(1) by (simp add: NewSMPP50Registry_Inr)
  obtain d where d: "reg_commands reg (h_CommandID h) = Some d" using assms(2) by blast
  then have "def": "ResolveCommand (Some reg) (h_CommandID h) = Inr (Some d)" by (simp add: ResolveCommand_Inr)
  note laws = standard_laws [OF d [unfolded reg]]
  let ?w = "opts_wire (optionalParametersOf x)"
  let ?h = "h\<lparr>CommandLength := of_nat (16 + length ?w)\<rparr>"
  obtain u where u: "encodes d [] x u" and fin: "finishPDU (length dst) (dst @ replicate 16 0 @ ?w) h = Inr out"
    using assms(3-5) laws(1) d EncodePDU_known [of "Some reg" h d dst x out]
    by (auto simp: Command_def bodyWire_def pdu_laws_def)
  obtain y where y: "decodes d ?h ?w y" "optionalParametersOf y = optionalParametersOf x"
    using error_encodedD(2) [OF laws(1) _ _ u, of ?h] laws(2) assms(3,4) by auto
  have "DecodePDU (frame_of h ?w) (Some reg) = Inr \<lparr>dp_Header = ?h, dp_Body = y\<rparr>"
    by (rule decode_frame_of [OF EncodePDU_finish(1) [OF fin assms(6)] "def"]) (use decodes_case [OF y(1)] in simp)
  then show ?thesis
    using EncodePDU_finish(2) [OF fin assms(6)] y(2)
    by (intro exI [of _ ?h] exI [of _ "frame_of h ?w"] exI [of _ y]) (simp add: frame_of_def)
qed

theorem error_response_roundtrip_witness:
  "\<exists>(reg :: unit Registry) y. NewSMPP50Registry RegistryStrict = Inr reg \<and>
     DecodePDU [0, 0, 0, 21, 0x80, 0, 0, 4, 0, 0, 0, 8, 0, 0, 0, 9, 2, 4, 0, 1, 7] (Some reg)
     = Inr \<lparr>dp_Header = \<lparr>CommandLength = 21, h_CommandID = CommandSubmitSMResp, h_CommandStatus = StatusSystemError, h_SequenceNumber = 9\<rparr>,
            dp_Body = y\<rparr> \<and>
     optionalParametersOf y = [\<lparr>op_Tag = TLVTagUserMessageReference, op_Value = [7]\<rparr>]"
proof -
  let ?reg = "smpp50Registry RegistryStrict :: unit Registry"
  let ?d = "commandDefinition CommandSubmitSMResp ''submit_sm_resp'' decodeSubmitSMResp encodeSubmitSMResp :: unit CommandDefinition"
  let ?h = "\<lparr>CommandLength = 0, h_CommandID = CommandSubmitSMResp, h_CommandStatus = StatusSystemError, h_SequenceNumber = 9\<rparr>"
  let ?x = "Val (SubmitSMRespB \<lparr>ssmr_MessageID = [65], ssmr_Optional = [\<lparr>op_Tag = TLVTagUserMessageReference, op_Value = [7]\<rparr>]\<rparr>) :: unit any"
  let ?frame = "[0, 0, 0, 21, 0x80, 0, 0, 4, 0, 0, 0, 8, 0, 0, 0, 9, 2, 4, 0, 1, 7] :: bytes"
  have reg: "NewSMPP50Registry RegistryStrict = Inr ?reg"
    by (rule NewSMPP50Registry_eq) (simp add: RegistryModeValid_def)
  have d: "reg_commands ?reg CommandSubmitSMResp = Some ?d"
    by (simp add: smpp50Registry_def commandTable_def map_add_def smpp34Commands_def smpp50Commands_def)
  have "bodyWire ?d ?h ?x [2, 4, 0, 1, 7]"
    by (simp add: bodyWire_def submitSMResp.enc_Val messageID_valid_def cstr_def opts_ok_def optionalParametersOf_def
      optionalOf_def IsResponse_def responseMask_def tlv_wire_def toTLV_def be16_def)
  moreover have "finishPDU (length []) ([] @ replicate 16 0 @ [2, 4, 0, 1, 7]) ?h = Inr ?frame" by code_simp
  ultimately have enc: "EncodePDU [] ?h ?x (Some ?reg) = Inr ?frame"
    using EncodePDU_known [of "Some ?reg" ?h ?d "[]" ?x ?frame] d standard_laws(1) [OF d]
    unfolding pdu_laws_def Command_def option.case Header.select_convs by blast
  have known: "reg_commands ?reg (h_CommandID ?h) \<noteq> None" using d by simp
  have resp: "IsResponse (h_CommandID ?h)" "h_CommandStatus ?h \<noteq> StatusOK" "length ?frame < length ([] :: bytes) + 2 ^ 32"
    by (simp_all add: IsResponse_def responseMask_def)
  from error_response_roundtrip [OF reg known resp(1,2) enc resp(3)] obtain header frame y where *: "?frame = [] @ frame"
    "header = ?h\<lparr>CommandLength := of_nat (length frame)\<rparr>"
    "DecodePDU frame (Some ?reg) = Inr \<lparr>dp_Header = header, dp_Body = y\<rparr>"
    "optionalParametersOf y = optionalParametersOf ?x"
    by (elim exE conjE)
  have frame: "frame = ?frame" using *(1) by simp
  show ?thesis
    using reg *(2-4) unfolding frame
    by (intro exI [of _ ?reg] exI [of _ y]) (simp add: optionalParametersOf_def optionalOf_def)
qed

section \<open>Errors of whole PDUs\<close>

lemma DecodePDU_exact:
  assumes "16 + length w < 2 ^ 32"
  shows "DecodePDU (frame_of h w) registry =
    bindE (ResolveCommand registry (h_CommandID h)) (\<lambda>def.
      case Option.bind def cd_Decode of
        None \<Rightarrow> Inr \<lparr>dp_Header = h\<lparr>CommandLength := of_nat (16 + length w)\<rparr>, dp_Body = Val (RawBodyB w)\<rparr>
      | Some dec \<Rightarrow> bindE (decodeBody dec (h\<lparr>CommandLength := of_nat (16 + length w)\<rparr>) w) (\<lambda>body.
          Inr \<lparr>dp_Header = h\<lparr>CommandLength := of_nat (16 + length w)\<rparr>, dp_Body = body\<rparr>))"
proof -
  let ?h = "h\<lparr>CommandLength := of_nat (16 + length w)\<rparr>"
  have "DecodeHeader (frame_of h w) = Inr ?h"
    unfolding DecodeHeader_Inr using frame_length_le [OF assms] by (simp add: frame_of_def)
  moreover have "unat (CommandLength ?h) = length (frame_of h w)"
    using frame_length_wraps [OF assms] by simp
  moreover have "go_slice (frame_of h w) HeaderSize (length (frame_of h w)) = w"
    by (simp add: go_slice_def frame_of_def)
  ultimately show ?thesis by (simp add: DecodePDU_def del: length_frame_of of_nat_add)
qed

text \<open>C7: A panic in a decoder or encoder supplied by the user of the library does not escape. A panic of the decoder is returned as
  a semantic error for system error that carries the command and the sequence number of the frame, with the panic as its
  cause; a panic of the encoder, on the buffer it is given (an empty one when the response has an error status), is returned as
  the bare panic error.\<close>

theorem codec_panics_contained:
  assumes "Command registry (h_CommandID h) = Some d" and "16 + length w < 2 ^ 32"
  shows "(cd_Decode d = Some dec \<and> dec (h\<lparr>CommandLength := of_nat (16 + length w)\<rparr>) w = Panics v \<longrightarrow>
      DecodePDU (frame_of h w) registry = Inl (SemanticError StatusSystemError (h_CommandID h) (h_SequenceNumber h)
        ''command decoder panicked'' (Some (PanicError ''codec.CommandDecoder'' v)))) \<and>
    (cd_Encode d = Some enc \<and>
     enc (if IsResponse (h_CommandID h) \<and> \<not> OK (h_CommandStatus h) then [] else dst @ replicate HeaderSize 0) x = Panics v \<longrightarrow>
      EncodePDU dst h x registry = Inl (PanicError ''codec.CommandEncoder'' v))"
  using assms by (auto simp: DecodePDU_exact ResolveCommand_def decodeBody_def EncodePDU_def encodeBody_def
      appendErrorResponseBody_def Let_def simp del: of_nat_add split: if_splits)

theorem codec_panics_contained_witness:
  "let d = \<lparr>cd_ID = 0x00010200, cd_Name = ''vendor'', cd_Decode = Some (\<lambda>_ _. Panics None),
      cd_Encode = Some (\<lambda>dst _. if length dst = 17 then Panics None else Returns dst), cd_Actor = ActorAny, cd_AllowedStates = []\<rparr> :: unit CommandDefinition;
     registry = Some \<lparr>reg_mode = RegistryStrict, reg_commands = [0x00010200 \<mapsto> d], reg_tlvs = Map.empty\<rparr>;
     h = \<lparr>CommandLength = 0, h_CommandID = 0x00010200, h_CommandStatus = 0, h_SequenceNumber = 5\<rparr> in
   DecodePDU (frame_of h [1, 2]) registry = Inl (SemanticError StatusSystemError 0x00010200 5
     ''command decoder panicked'' (Some (PanicError ''codec.CommandDecoder'' None))) \<and>
   EncodePDU [9] h NilAny registry = Inl (PanicError ''codec.CommandEncoder'' None)"
proof -
  let ?enc = "\<lambda>dst _. if length dst = 17 then Panics None else Returns dst"
  let ?d = "\<lparr>cd_ID = 0x00010200, cd_Name = ''vendor'', cd_Decode = Some (\<lambda>_ _. Panics None),
      cd_Encode = Some ?enc, cd_Actor = ActorAny, cd_AllowedStates = []\<rparr> :: unit CommandDefinition"
  let ?registry = "Some \<lparr>reg_mode = RegistryStrict, reg_commands = [0x00010200 \<mapsto> ?d], reg_tlvs = Map.empty\<rparr>"
  let ?h = "\<lparr>CommandLength = 0, h_CommandID = 0x00010200, h_CommandStatus = 0, h_SequenceNumber = 5\<rparr> :: Header"
  have "Command ?registry (h_CommandID ?h) = Some ?d" by (simp add: Command_def)
  from codec_panics_contained [OF this, where w = "[1, 2]" and dec = "\<lambda>_ _. Panics None" and v = None
      and enc = ?enc and x = NilAny and dst = "[9]"]
  show ?thesis by (simp add: Let_def)
qed

context response_codec
begin

lemma omitted_unreadable:
  assumes "\<not> lenient" "omitted = []"
  shows "holdsNothing x \<Longrightarrow> enc dst x = Inr dst" "h_CommandStatus h = 0 \<Longrightarrow> dec h [] \<noteq> Inr y"
  using assms by (auto simp: enc_Inr dec_ok wire_nonempty [symmetric])

end

text \<open>The responses whose encoder writes nothing for an omitted body and whose decoder wants one.\<close>

definition bodyResponses34 :: "CommandID list" where
  "bodyResponses34 = [CommandBindReceiverResp, CommandBindTransmitterResp, CommandBindTransceiverResp, CommandSubmitSMResp,
     CommandDataSMResp, CommandQuerySMResp, CommandSubmitMultiResp]"

definition bodyResponses50 :: "CommandID list" where
  "bodyResponses50 = bodyResponses34 @ [CommandBroadcastSMResp, CommandQueryBroadcastSMResp]"

definition omits :: "'v CommandDefinition \<Rightarrow> bool" where
  "omits d \<longleftrightarrow> (\<exists>enc dec. cd_Encode d = Some (\<lambda>dst x. returning (enc dst x)) \<and> cd_Decode d = Some (\<lambda>h body. returning (dec h body)) \<and>
     (\<forall>dst x. holdsNothing x \<longrightarrow> enc dst x = Inr dst) \<and> (\<forall>h y. h_CommandStatus h = 0 \<longrightarrow> dec h [] \<noteq> Inr y))"

lemma omits_library:
  assumes "\<And>dst x. holdsNothing x \<Longrightarrow> enc dst x = Inr dst" "\<And>h y. h_CommandStatus h = 0 \<Longrightarrow> dec h [] \<noteq> Inr y"
  shows "omits (commandDefinition i n dec enc)"
  unfolding omits_def by (intro exI [of _ enc] exI [of _ dec]) (use assms in \<open>simp add: commandDefinition_def\<close>)

lemma omits_responses:
  "omits (commandDefinition i n decodeBindResponse encodeBindResponse)"
  "omits (commandDefinition i n decodeSubmitSMResp encodeSubmitSMResp)"
  "omits (commandDefinition i n decodeDataSMResp encodeDataSMResp)"
  "omits (commandDefinition i n decodeQuerySMResp encodeQuerySMResp)"
  "omits (commandDefinition i n decodeSubmitMultiResp encodeSubmitMultiResp)"
  "omits (commandDefinition i n decodeBroadcastSMResp encodeBroadcastSMResp)"
  "omits (commandDefinition i n decodeQueryBroadcastSMResp encodeQueryBroadcastSMResp)"
  by (rule omits_library; simp add: bindResponse.omitted_unreadable submitSMResp.omitted_unreadable dataSMResp.omitted_unreadable
      querySMResp.omitted_unreadable submitMultiResp.omitted_unreadable broadcastSMResp.omitted_unreadable
      queryBroadcastSMResp.omitted_unreadable)+

lemma bodyResponses34_omit:
  "c \<in> set bodyResponses34 \<Longrightarrow> \<exists>d. reg_commands (smpp34Registry mode) c = Some d \<and> omits d"
  unfolding bodyResponses34_def list.set
  by (elim insertE emptyE; simp add: smpp34Registry_def commandTable_def smpp34Commands_def omits_responses)

lemma bodyResponses50_omit:
  "c \<in> set bodyResponses50 \<Longrightarrow> \<exists>d. reg_commands (smpp50Registry mode) c = Some d \<and> omits d"
  unfolding bodyResponses50_def bodyResponses34_def append.simps list.set
  by (elim insertE emptyE; simp add: smpp50Registry_def commandTable_def map_add_def smpp34Commands_def smpp50Commands_def omits_responses)

lemma NewSMPP34Registry_Inr:
  "NewSMPP34Registry mode = Inr reg \<longleftrightarrow> RegistryModeValid mode \<and> reg = smpp34Registry mode"
proof (cases "RegistryModeValid mode")
  case False
  then have "Freeze b = Inl ErrInvalidRegistryMode" if "rb_mode b = mode" for b :: "'a RegistryBuilder"
    using that by (simp add: Freeze_def)
  with False show ?thesis by (simp add: NewSMPP34Registry_def NewSMPP34RegistryBuilder_eq)
qed (auto simp: NewSMPP34Registry_eq)

text \<open>C8: A successful response can be written as a frame the decoder refuses. The encoders of bind_receiver_resp,
  bind_transmitter_resp, bind_transceiver_resp, submit_sm_resp, data_sm_resp, query_sm_resp, submit_multi_resp and, in the
  registry of version 5.0, broadcast_sm_resp and query_broadcast_sm_resp accept an omitted body (nil, or an EmptyBody) whatever the status: with
  status zero they write the bare header, which the decoder of the same registry refuses, since it wants the mandatory fields.\<close>

theorem empty_success_response_unreadable:
  assumes "NewSMPP34Registry mode = Inr reg \<and> h_CommandID h \<in> set bodyResponses34 \<or>
      NewSMPP50Registry mode = Inr reg \<and> h_CommandID h \<in> set bodyResponses50"
    and "h_CommandStatus h = StatusOK" "holdsNothing x"
  shows "EncodePDU dst h x (Some reg) = Inr (dst @ header_wire (h\<lparr>CommandLength := 16\<rparr>)) \<and>
    isl (DecodePDU (header_wire (h\<lparr>CommandLength := 16\<rparr>)) (Some reg))"
proof -
  obtain d where d: "reg_commands reg (h_CommandID h) = Some d" "omits d"
    using assms(1) bodyResponses34_omit bodyResponses50_omit unfolding NewSMPP34Registry_Inr NewSMPP50Registry_Inr by blast
  obtain enc dec where e: "cd_Encode d = Some (\<lambda>dst x. returning (enc dst x))" "cd_Decode d = Some (\<lambda>h body. returning (dec h body))"
    "\<And>dst x. holdsNothing x \<Longrightarrow> enc dst x = Inr dst" "\<And>h y. h_CommandStatus h = 0 \<Longrightarrow> dec h [] \<noteq> Inr y"
    using d(2) unfolding omits_def by blast
  have r: "ResolveCommand (Some reg) (h_CommandID h) = Inr (Some d)" using d(1) by (simp add: ResolveCommand_Inr)
  have f: "frame_of h [] = header_wire (h\<lparr>CommandLength := 16\<rparr>)" by (simp add: frame_of_def)
  have "EncodePDU dst h x (Some reg) = finishPDU (length dst) (dst @ replicate 16 0 @ []) h"
    using r assms(2) e(1) e(3) [OF assms(3)] by (simp add: EncodePDU_def encodeBody_def bindE_def)
  then have "EncodePDU dst h x (Some reg) = Inr (dst @ frame_of h [])" using finishPDU_Inr [of "[]" dst h] by simp
  moreover have "isl (DecodePDU (frame_of h []) (Some reg))"
  proof (rule ccontr)
    assume "\<not> isl (DecodePDU (frame_of h []) (Some reg))"
    then obtain pdu where "DecodePDU (frame_of h []) (Some reg) = Inr pdu" by (cases "DecodePDU (frame_of h []) (Some reg)") simp_all
    then show False using r e(2) e(4) [of "h\<lparr>CommandLength := 16\<rparr>"] assms(2)
      by (auto simp: DecodePDU_exact [of "[]", simplified] bindE_eq_Inr decodeBody_Inr)
  qed
  ultimately show ?thesis unfolding f by blast
qed

theorem empty_success_response_unreadable_witness:
  "EncodePDU [] \<lparr>CommandLength = 0, h_CommandID = CommandSubmitSMResp, h_CommandStatus = StatusOK, h_SequenceNumber = 1\<rparr>
     (NilAny :: unit any) (Some (smpp50Registry RegistryStrict))
     = Inr [0, 0, 0, 16, 0x80, 0, 0, 4, 0, 0, 0, 0, 0, 0, 0, 1] \<and>
   isl (DecodePDU [0, 0, 0, 16, 0x80, 0, 0, 4, 0, 0, 0, 0, 0, 0, 0, 1] (Some (smpp50Registry RegistryStrict :: unit Registry)))"
proof -
  let ?h = "\<lparr>CommandLength = 0, h_CommandID = CommandSubmitSMResp, h_CommandStatus = StatusOK, h_SequenceNumber = 1\<rparr> :: Header"
  have w: "header_wire (?h\<lparr>CommandLength := 16\<rparr>) = [0, 0, 0, 16, 0x80, 0, 0, 4, 0, 0, 0, 0, 0, 0, 0, 1]" by code_simp
  have "h_CommandID ?h \<in> set bodyResponses50" by (simp add: bodyResponses50_def bodyResponses34_def)
  then show ?thesis
    using empty_success_response_unreadable [of RegistryStrict "smpp50Registry RegistryStrict" ?h "NilAny :: unit any" "[]"]
    unfolding w by (simp add: holdsNothing_def NewSMPP50Registry_Inr RegistryModeValid_def)
qed

end
