(* ===== verification/Pending.thy ===== *)
theory Pending
  imports Window Deadlines PduCodec
begin

text \<open>
  The requests that wait for a response (\<^verbatim>\<open>session/pending.go\<close>). A request is an object shared by the caller, the
  table, the transmit queue and the deadline heap; \<open>pt_requests\<close> is the store of these objects and a request is
  named by its position in it. The table is kept with what finishing a request touches: the request window, of which
  every unfinished request owns a slot, and the deadline heap. The operations hold the mutex of the table or
  of the request; each is one step.
\<close>

section \<open>Requests and the table\<close>

datatype 'v requestResult = Answered "'v DecodedPDU" | Failed session_error

text \<open>
  \<open>pr_done\<close> holds the values sent on the channel \<^verbatim>\<open>done\<close>, \<open>pr_releaseWindow\<close> whether the function
  \<^verbatim>\<open>releaseWindow\<close> is still set. An unset time is 0, as in the source.
\<close>

record 'v pendingRequest =
  pr_requestID       :: CommandID
  pr_bindVersion     :: InterfaceVersion
  pr_expectedID      :: CommandID
  pr_done            :: "'v requestResult list"
  pr_dispatched      :: bool
  pr_dispatchedAt    :: int
  pr_responseAt      :: int
  pr_responseCommand :: CommandID
  pr_responseStatus  :: CommandStatus
  pr_rttRecorded     :: bool
  pr_releaseWindow   :: bool
  pr_deadline        :: "deadlineItem option"
  pr_finished        :: bool

record 'v pendingTable =
  pt_max       :: int
  pt_m         :: "(SequenceNumber \<times> nat) list"
  pt_requests  :: "'v pendingRequest list"
  pt_window    :: requestWindow
  pt_deadlines :: deadlineManager

definition newPendingTable :: "int \<Rightarrow> nat \<Rightarrow> 'v pendingTable" where
  "newPendingTable limit windowSize =
     \<lparr>pt_max = limit, pt_m = [], pt_requests = [], pt_window = newRequestWindow windowSize, pt_deadlines = newDeadlineManager\<rparr>"

text \<open>The deadline slots of the session come first: its three liveness checks have the slots 0, 1 and 2.\<close>

definition requestSlot :: "nat \<Rightarrow> nat" where
  "requestSlot r = r + 3"

definition updRequest :: "nat \<Rightarrow> ('v pendingRequest \<Rightarrow> 'v pendingRequest) \<Rightarrow> 'v pendingTable \<Rightarrow> 'v pendingTable" where
  "updRequest r f t = t\<lparr>pt_requests := (pt_requests t)[r := f (pt_requests t ! r)]\<rparr>"

definition insertRequest :: "SequenceNumber \<Rightarrow> 'v pendingRequest \<Rightarrow> 'v pendingTable \<Rightarrow> session_error + 'v pendingTable" where
  "insertRequest sequence request t =
     (if int (length (pt_m t)) \<ge> pt_max t then Inl ErrPendingLimit
      else if map_of (pt_m t) sequence \<noteq> None then Inl ErrSequenceInUse
      else Inr (t\<lparr>pt_m := pt_m t @ [(sequence, length (pt_requests t))], pt_requests := pt_requests t @ [request]\<rparr>))"

definition pendingExists :: "SequenceNumber \<Rightarrow> 'v pendingTable \<Rightarrow> bool" where
  "pendingExists sequence t \<longleftrightarrow> map_of (pt_m t) sequence \<noteq> None"

definition markDispatched :: "SequenceNumber \<Rightarrow> 'v pendingTable \<Rightarrow> (nat \<times> 'v pendingTable) option" where
  "markDispatched sequence t =
     (case map_of (pt_m t) sequence of
        None \<Rightarrow> None
      | Some r \<Rightarrow> Some (r, updRequest r (\<lambda>q. q\<lparr>pr_dispatched := True\<rparr>) t))"

definition deleteEntry :: "SequenceNumber \<Rightarrow> 'v pendingTable \<Rightarrow> 'v pendingTable" where
  "deleteEntry sequence t = t\<lparr>pt_m := filter (\<lambda>e. fst e \<noteq> sequence) (pt_m t)\<rparr>"

definition finish :: "nat \<Rightarrow> 'v pendingTable \<Rightarrow> 'v pendingTable" where
  "finish r t =
     (let q = pt_requests t ! r in
      if pr_finished q then t
      else
        let t = updRequest r (\<lambda>q. q\<lparr>pr_finished := True, pr_deadline := None, pr_releaseWindow := False\<rparr>) t;
            t = (case pr_deadline q of None \<Rightarrow> t | Some item \<Rightarrow> t\<lparr>pt_deadlines := cancelItem (pt_deadlines t) item\<rparr>) in
        if pr_releaseWindow q then t\<lparr>pt_window := snd (release (pt_window t))\<rparr> else t)"

definition sendDone :: "nat \<Rightarrow> 'v requestResult \<Rightarrow> 'v pendingTable \<Rightarrow> 'v pendingTable" where
  "sendDone r result = updRequest r (\<lambda>q. q\<lparr>pr_done := pr_done q @ [result]\<rparr>)"

definition takeResponse :: "SequenceNumber \<Rightarrow> CommandID \<Rightarrow> 'v pendingTable \<Rightarrow> (nat \<times> 'v pendingTable) option" where
  "takeResponse sequence responseID t =
     (case map_of (pt_m t) sequence of
        None \<Rightarrow> None
      | Some r \<Rightarrow>
         if responseID \<noteq> pr_expectedID (pt_requests t ! r) \<and> responseID \<noteq> CommandGenericNACK then None
         else Some (r, finish r (deleteEntry sequence t)))"

definition completeError :: "SequenceNumber \<Rightarrow> session_error \<Rightarrow> 'v pendingTable \<Rightarrow> (nat \<times> 'v pendingTable) option" where
  "completeError sequence err t =
     (case map_of (pt_m t) sequence of
        None \<Rightarrow> None
      | Some r \<Rightarrow> Some (r, sendDone r (Failed err) (finish r (deleteEntry sequence t))))"

text \<open>The order in which Go ranges over the map is not fixed; here it is the order of insertion.\<close>

definition failAll :: "session_error \<Rightarrow> 'v pendingTable \<Rightarrow> 'v pendingTable" where
  "failAll err t =
     fold (\<lambda>r t. sendDone r (Failed err) (finish r t)) (map snd (pt_m t)) (t\<lparr>pt_m := []\<rparr>)"

definition attachDeadline :: "nat \<Rightarrow> deadlineItem option \<Rightarrow> 'v pendingTable \<Rightarrow> 'v pendingTable" where
  "attachDeadline r item t =
     (case item of
        None \<Rightarrow> t
      | Some i \<Rightarrow>
         if pr_finished (pt_requests t ! r) then t\<lparr>pt_deadlines := cancelItem (pt_deadlines t) i\<rparr>
         else updRequest r (\<lambda>q. q\<lparr>pr_deadline := Some i\<rparr>) t)"

text \<open>The round trip time is claimed once, by whoever records the second of the two times.\<close>

definition claimRTT :: "'v pendingRequest \<Rightarrow> Duration option \<times> 'v pendingRequest" where
  "claimRTT q =
     (let dispatch = pr_dispatchedAt q; response = pr_responseAt q in
      if dispatch = 0 \<or> response = 0 \<or> pr_rttRecorded q then (None, q)
      else (Some (if response \<le> dispatch then 0 else response - dispatch), q\<lparr>pr_rttRecorded := True\<rparr>))"

definition markDispatchAt :: "int \<Rightarrow> 'v pendingRequest \<Rightarrow> Duration option \<times> 'v pendingRequest" where
  "markDispatchAt at q = claimRTT (q\<lparr>pr_dispatchedAt := at\<rparr>)"

definition markResponseAt :: "int \<Rightarrow> CommandID \<Rightarrow> CommandStatus \<Rightarrow> 'v pendingRequest \<Rightarrow> Duration option \<times> 'v pendingRequest" where
  "markResponseAt at command status q =
     claimRTT (q\<lparr>pr_responseCommand := command, pr_responseStatus := status, pr_responseAt := at\<rparr>)"

definition responseMetadata :: "'v pendingRequest \<Rightarrow> CommandID \<times> CommandStatus" where
  "responseMetadata q =
     (if pr_responseCommand q = 0 then pr_expectedID q else pr_responseCommand q, pr_responseStatus q)"

section \<open>The invariant of the table\<close>

text \<open>
  \<open>table_inv k F U t\<close>: sequence numbers and requests of the table are distinct; a request in the table is unfinished,
  owns its slot and has no result; a request that left it is finished, owns nothing, and has exactly one
  result, save those of \<open>U\<close> whose result is about to be sent. The slots taken of the window are those of
  the requests in the table and \<open>k\<close> more. The deadlines of requests are those in the heap or in \<open>F\<close>, which have
  fired and are about to be handled.
\<close>

definition entry_ok :: "deadlineItem set \<Rightarrow> 'v pendingTable \<Rightarrow> SequenceNumber \<times> nat \<Rightarrow> bool" where
  "entry_ok F t e \<longleftrightarrow>
     (case e of (sequence, r) \<Rightarrow> r < length (pt_requests t) \<and>
       (let q = pt_requests t ! r in
        \<not> pr_finished q \<and> pr_releaseWindow q \<and> pr_done q = [] \<and>
        (\<forall>i. pr_deadline q = Some i \<longrightarrow> di_ref i = requestSlot r \<and> di_sequence i = sequence \<and>
           i \<in> set (dm_heap (pt_deadlines t)) \<union> F)))"

definition settled :: "nat set \<Rightarrow> 'v pendingTable \<Rightarrow> nat \<Rightarrow> bool" where
  "settled U t r \<longleftrightarrow>
     (let q = pt_requests t ! r in
      pr_finished q \<and> \<not> pr_releaseWindow q \<and> pr_deadline q = None \<and> length (pr_done q) = (if r \<in> U then 0 else 1))"

definition heap_owned :: "'v pendingTable \<Rightarrow> bool" where
  "heap_owned t \<longleftrightarrow> wf_heap (pt_deadlines t) \<and>
     (\<forall>i \<in> set (dm_heap (pt_deadlines t)). 3 \<le> di_ref i \<longrightarrow>
        (\<exists>r. di_ref i = requestSlot r \<and> (di_sequence i, r) \<in> set (pt_m t) \<and> pr_deadline (pt_requests t ! r) = Some i))"

definition table_inv :: "nat \<Rightarrow> deadlineItem set \<Rightarrow> nat set \<Rightarrow> 'v pendingTable \<Rightarrow> bool" where
  "table_inv k F U t \<longleftrightarrow>
     distinct (map fst (pt_m t)) \<and> distinct (map snd (pt_m t)) \<and> int (length (pt_m t)) \<le> max 0 (pt_max t) \<and>
     (\<forall>e \<in> set (pt_m t). entry_ok F t e) \<and>
     (\<forall>r < length (pt_requests t). r \<notin> snd ` set (pt_m t) \<longrightarrow> settled U t r) \<and>
     window_inv (pt_window t) \<and> rw_tokens (pt_window t) = length (pt_m t) + k \<and> heap_owned t"

section \<open>Every operation keeps the invariant\<close>

lemma updRequest_sel [simp]:
  "pt_max (updRequest r f t) = pt_max t" "pt_m (updRequest r f t) = pt_m t" "pt_window (updRequest r f t) = pt_window t"
  "pt_deadlines (updRequest r f t) = pt_deadlines t" "length (pt_requests (updRequest r f t)) = length (pt_requests t)"
  by (simp_all add: updRequest_def)

lemma updRequest_nth:
  "r < length (pt_requests t) \<Longrightarrow> pt_requests (updRequest r f t) ! s = (if s = r then f (pt_requests t ! r) else pt_requests t ! s)"
  by (simp add: updRequest_def)

lemma table_inv_new: "\<lbrakk>n < 2 ^ 32\<rbrakk> \<Longrightarrow> table_inv 0 F U (newPendingTable limit n)"
  by (simp add: table_inv_def newPendingTable_def heap_owned_def wf_heap_def indexed_def heapOn_def newDeadlineManager_def
      window_inv_def newRequestWindow_def)

text \<open>An update of fields the invariant does not mention.\<close>

lemma table_inv_neutral:
  assumes "table_inv k F U t" "r < length (pt_requests t)"
    and f: "\<And>q. pr_finished (f q) = pr_finished q \<and> pr_releaseWindow (f q) = pr_releaseWindow q \<and> pr_done (f q) = pr_done q \<and>
      pr_deadline (f q) = pr_deadline q"
  shows "table_inv k F U (updRequest r f t)"
proof -
  let ?t = "updRequest r f t"
  have same: "pr_finished (pt_requests ?t ! s) = pr_finished (pt_requests t ! s)"
    "pr_releaseWindow (pt_requests ?t ! s) = pr_releaseWindow (pt_requests t ! s)"
    "pr_done (pt_requests ?t ! s) = pr_done (pt_requests t ! s)"
    "pr_deadline (pt_requests ?t ! s) = pr_deadline (pt_requests t ! s)" for s
    using assms(2) f [of "pt_requests t ! r"] by (simp_all add: updRequest_nth)
  show ?thesis using assms(1) unfolding table_inv_def entry_ok_def settled_def heap_owned_def Let_def same updRequest_sel by blast
qed

lemma table_inv_send:
  assumes "table_inv k F U t" "r \<in> U" "r < length (pt_requests t)" "r \<notin> snd ` set (pt_m t)"
  shows "table_inv k F (U - {r}) (sendDone r result t)"
proof -
  let ?t = "sendDone r result t"
  have sel: "pt_max ?t = pt_max t" "pt_m ?t = pt_m t" "pt_window ?t = pt_window t" "pt_deadlines ?t = pt_deadlines t"
    "length (pt_requests ?t) = length (pt_requests t)" by (simp_all add: sendDone_def)
  have same: "s \<noteq> r \<Longrightarrow> pt_requests ?t ! s = pt_requests t ! s" for s using assms(3) by (simp add: sendDone_def updRequest_nth)
  have "\<forall>e \<in> set (pt_m t). entry_ok F ?t e"
  proof
    fix e assume e: "e \<in> set (pt_m t)"
    then have "snd e \<noteq> r" using assms(4) by auto
    then show "entry_ok F ?t e" using assms(1) e same [of "snd e"]
      by (auto simp: table_inv_def entry_ok_def Let_def sel split: prod.splits)
  qed
  moreover have "settled (U - {r}) ?t s" if s: "s < length (pt_requests t)" "s \<notin> snd ` set (pt_m t)" for s
  proof -
    have "settled U t s" using assms(1) s unfolding table_inv_def by blast
    then show ?thesis using same [of s] assms(2,3) by (cases "s = r") (auto simp: settled_def Let_def sendDone_def updRequest_nth)
  qed
  moreover have "heap_owned ?t"
    unfolding heap_owned_def sel
  proof (intro conjI ballI impI)
    show "wf_heap (pt_deadlines t)" using assms(1) by (simp add: table_inv_def heap_owned_def)
    fix i assume "i \<in> set (dm_heap (pt_deadlines t))" "3 \<le> di_ref i"
    then obtain x where x: "di_ref i = requestSlot x" "(di_sequence i, x) \<in> set (pt_m t)" "pr_deadline (pt_requests t ! x) = Some i"
      using assms(1) by (auto simp: table_inv_def heap_owned_def)
    then have "x \<noteq> r" using assms(4) by force
    then show "\<exists>x. di_ref i = requestSlot x \<and> (di_sequence i, x) \<in> set (pt_m t) \<and> pr_deadline (pt_requests ?t ! x) = Some i"
      using x same by auto
  qed
  ultimately show ?thesis using assms(1) unfolding table_inv_def sel by blast
qed

lemma cancelItem_heap:
  assumes "wf_heap m" "\<And>x. x \<in> set (dm_heap m) \<Longrightarrow> di_ref x = di_ref i \<Longrightarrow> x = i"
  shows "wf_heap (cancelItem m i)" "set (dm_heap (cancelItem m i)) = {x \<in> set (dm_heap m). di_ref x \<noteq> di_ref i}"
proof -
  show "wf_heap (cancelItem m i)" using cancelItem_ok(1) [OF assms(1)] .
  show "set (dm_heap (cancelItem m i)) = {x \<in> set (dm_heap m). di_ref x \<noteq> di_ref i}"
  proof (cases "i \<in> set (dm_heap m)")
    case True
    have dist: "distinct (dm_heap m)" using assms(1) by (simp add: wf_heap_def indexed_def distinct_map)
    have "set_mset (mset (dm_heap (cancelItem m i))) = set_mset (mset (dm_heap m) - {#i#})"
      using cancelItem_ok(2) [OF assms(1) True] by simp
    also have "\<dots> = set (dm_heap m) - {i}"
      using dist True by (metis mset_remove1 set_mset_mset set_remove1_eq)
    finally show ?thesis using assms(2) by auto
  next
    case False
    then have "di_ref i \<notin> di_ref ` set (dm_heap m)" using assms(2) by force
    then show ?thesis using cancelItem_ok(3) [OF assms(1)] by (auto intro: rev_image_eqI)
  qed
qed

lemma window_inv_release_slot:
  assumes "window_inv w" "0 < rw_tokens w"
  shows "window_inv (snd (release w))" "rw_tokens (snd (release w)) = rw_tokens w - 1"
  using window_inv_release [OF assms(1), of "fst (release w)" "snd (release w)"] by simp_all

lemma map_of_entry:
  assumes "distinct (map fst xs)" "distinct (map snd xs)" "map_of xs x = Some r"
  shows "(x, r) \<in> set xs" "\<And>e. e \<in> set xs \<Longrightarrow> fst e = x \<longleftrightarrow> snd e = r"
    "set (filter (\<lambda>e. fst e \<noteq> x) xs) = set xs - {(x, r)}"
    "Suc (length (filter (\<lambda>e. fst e \<noteq> x) xs)) = length xs"
proof -
  show mem: "(x, r) \<in> set xs" using map_of_SomeD [OF assms(3)] .
  show iff: "fst e = x \<longleftrightarrow> snd e = r" if "e \<in> set xs" for e
    using assms(1,2) mem that unfolding distinct_map inj_on_def by (metis fst_conv snd_conv prod.expand)
  show "set (filter (\<lambda>e. fst e \<noteq> x) xs) = set xs - {(x, r)}" 
  proof (intro set_eqI iffI)
    fix e
    show "e \<in> set (filter (\<lambda>e. fst e \<noteq> x) xs) \<Longrightarrow> e \<in> set xs - {(x, r)}" by auto
    show "e \<in> set xs - {(x, r)} \<Longrightarrow> e \<in> set (filter (\<lambda>e. fst e \<noteq> x) xs)" using iff [of e] by (cases e) auto
  qed
  then have "card (set (filter (\<lambda>e. fst e \<noteq> x) xs)) = card (set xs) - 1" using mem by simp
  moreover have "distinct xs" using assms(1) by (simp add: distinct_map)
  ultimately show "Suc (length (filter (\<lambda>e. fst e \<noteq> x) xs)) = length xs"
    using mem length_pos_if_in_set [OF mem] by (simp add: distinct_card del: set_filter)
qed

lemma table_inv_entry:
  assumes "table_inv k F U t" "map_of (pt_m t) sequence = Some r"
  shows "entry_ok F t (sequence, r)" "r < length (pt_requests t)" "0 < rw_tokens (pt_window t)" "r \<notin> snd ` set (pt_m (deleteEntry sequence t))"
    "distinct (map fst (pt_m t))" "distinct (map snd (pt_m t))"
proof -
  show d: "distinct (map fst (pt_m t))" "distinct (map snd (pt_m t))" using assms(1) by (simp_all add: table_inv_def)
  note m = map_of_entry [OF d assms(2)]
  show e: "entry_ok F t (sequence, r)" using assms(1) m(1) unfolding table_inv_def by blast
  then show "r < length (pt_requests t)" by (simp add: entry_ok_def)
  have "rw_tokens (pt_window t) = length (pt_m t) + k" using assms(1) by (simp add: table_inv_def)
  then show "0 < rw_tokens (pt_window t)" using m(4) by linarith
  show "r \<notin> snd ` set (pt_m (deleteEntry sequence t))" using m(2,3) by (auto simp: deleteEntry_def)
qed

text \<open>What finishing an unfinished request of the table changes.\<close>

lemma finish_entry:
  assumes "table_inv k F U t" "map_of (pt_m t) sequence = Some r"
  defines "t' \<equiv> finish r (deleteEntry sequence t)"
  shows "pt_m t' = pt_m (deleteEntry sequence t)" "pt_max t' = pt_max t" "pt_window t' = snd (release (pt_window t))"
    "length (pt_requests t') = length (pt_requests t)"
    "pt_requests t' ! s = (if s = r then (pt_requests t ! r)\<lparr>pr_finished := True, pr_deadline := None, pr_releaseWindow := False\<rparr> else pt_requests t ! s)"
    "wf_heap (pt_deadlines t')" "set (dm_heap (pt_deadlines t')) = {x \<in> set (dm_heap (pt_deadlines t)). di_ref x \<noteq> requestSlot r}"
proof -
  note e = table_inv_entry [OF assms(1,2)]
  let ?q = "pt_requests t ! r"
  have q: "\<not> pr_finished ?q" "pr_releaseWindow ?q" using e(1) by (simp_all add: entry_ok_def Let_def)
  have heap: "heap_owned t" using assms(1) by (simp add: table_inv_def)
  have t': "t' = (let t1 = updRequest r (\<lambda>q. q\<lparr>pr_finished := True, pr_deadline := None, pr_releaseWindow := False\<rparr>) (deleteEntry sequence t);
      t2 = (case pr_deadline ?q of None \<Rightarrow> t1 | Some item \<Rightarrow> t1\<lparr>pt_deadlines := cancelItem (pt_deadlines t1) item\<rparr>) in
      t2\<lparr>pt_window := snd (release (pt_window t2))\<rparr>)"
    using q by (simp add: t'_def finish_def deleteEntry_def Let_def)
  have owned: "x \<in> set (dm_heap (pt_deadlines t)) \<Longrightarrow> di_ref x = requestSlot r \<Longrightarrow> pr_deadline ?q = Some x" for x
  proof -
    assume x: "x \<in> set (dm_heap (pt_deadlines t))" "di_ref x = requestSlot r"
    then have "3 \<le> di_ref x" by (simp add: requestSlot_def)
    then show "pr_deadline ?q = Some x" using heap x by (force simp: heap_owned_def requestSlot_def)
  qed
  have dl: "pt_deadlines t' = (case pr_deadline ?q of None \<Rightarrow> pt_deadlines t | Some item \<Rightarrow> cancelItem (pt_deadlines t) item)"
    by (simp add: t' Let_def deleteEntry_def split: option.splits)
  have wf: "wf_heap (pt_deadlines t)" using heap by (simp add: heap_owned_def)
  have "wf_heap (pt_deadlines t') \<and> set (dm_heap (pt_deadlines t')) = {x \<in> set (dm_heap (pt_deadlines t)). di_ref x \<noteq> requestSlot r}"
  proof (cases "pr_deadline ?q")
    case None
    then show ?thesis using owned wf dl by auto
  next
    case (Some i)
    have i: "di_ref i = requestSlot r" using e(1) Some by (simp add: entry_ok_def Let_def)
    have "x = i" if "x \<in> set (dm_heap (pt_deadlines t))" "di_ref x = di_ref i" for x using owned [of x] that Some i by simp
    then show ?thesis using cancelItem_heap [OF wf, of i] Some i dl by simp
  qed
  then show "wf_heap (pt_deadlines t')" "set (dm_heap (pt_deadlines t')) = {x \<in> set (dm_heap (pt_deadlines t)). di_ref x \<noteq> requestSlot r}"
    by blast+
  show "pt_m t' = pt_m (deleteEntry sequence t)" "pt_max t' = pt_max t" "pt_window t' = snd (release (pt_window t))"
    "length (pt_requests t') = length (pt_requests t)"
    "pt_requests t' ! s = (if s = r then ?q\<lparr>pr_finished := True, pr_deadline := None, pr_releaseWindow := False\<rparr> else pt_requests t ! s)"
    using e(2) by (simp_all add: t' Let_def deleteEntry_def updRequest_def split: option.splits)
qed

lemma table_inv_finish:
  assumes "table_inv k F U t" "map_of (pt_m t) sequence = Some r"
  shows "table_inv k F (insert r U) (finish r (deleteEntry sequence t))"
proof -
  let ?t = "finish r (deleteEntry sequence t)"
  note e = table_inv_entry [OF assms] and f = finish_entry [OF assms]
  note m = map_of_entry [OF e(5,6) assms(2)]
  have sub: "set (pt_m ?t) = set (pt_m t) - {(sequence, r)}" and len: "Suc (length (pt_m ?t)) = length (pt_m t)"
    using m(3,4) unfolding f(1) by (simp_all add: deleteEntry_def)
  have other: "x \<in> set (pt_m ?t) \<Longrightarrow> snd x \<noteq> r \<and> fst x \<noteq> sequence" for x
    using m(2) [of x] sub by (cases x) auto
  have w: "window_inv (pt_window ?t)" "rw_tokens (pt_window ?t) = length (pt_m ?t) + k"
    using window_inv_release_slot [of "pt_window t"] assms(1) e(3) len by (simp_all add: f(3) table_inv_def)
  have ent: "entry_ok F ?t x" if x: "x \<in> set (pt_m ?t)" for x
  proof -
    have "entry_ok F t x" using assms(1) x sub unfolding table_inv_def by blast
    moreover have "snd x \<noteq> r" using other [OF x] ..
    ultimately show ?thesis by (cases x) (auto simp: entry_ok_def Let_def f(4,5,7) requestSlot_def)
  qed
  have set: "settled (insert r U) ?t s" if s: "s < length (pt_requests t)" "s \<notin> snd ` set (pt_m ?t)" for s
  proof (cases "s = r")
    case True
    then show ?thesis using e(1) by (simp add: settled_def Let_def f(5) entry_ok_def)
  next
    case False
    then have "s \<notin> snd ` set (pt_m t)" using s(2) sub by auto
    then have "settled U t s" using assms(1) s(1) unfolding table_inv_def by blast
    then show ?thesis using False by (simp add: settled_def Let_def f(5))
  qed
  have "heap_owned ?t" unfolding heap_owned_def
  proof (intro conjI ballI impI)
    show "wf_heap (pt_deadlines ?t)" by (rule f(6))
    fix i assume i: "i \<in> set (dm_heap (pt_deadlines ?t))" "3 \<le> di_ref i"
    then obtain x where x: "di_ref i = requestSlot x" "(di_sequence i, x) \<in> set (pt_m t)" "pr_deadline (pt_requests t ! x) = Some i"
      using assms(1) by (auto simp: table_inv_def heap_owned_def f(7))
    then have "x \<noteq> r" using i by (auto simp: f(7))
    then show "\<exists>x. di_ref i = requestSlot x \<and> (di_sequence i, x) \<in> set (pt_m ?t) \<and> pr_deadline (pt_requests ?t ! x) = Some i"
      using x sub by (auto simp: f(5))
  qed
  moreover have "distinct (map fst (pt_m ?t))" "distinct (map snd (pt_m ?t))"
    using e(5,6) unfolding f(1) by (simp_all add: deleteEntry_def distinct_map_filter)
  ultimately show ?thesis using w ent set len assms(1) unfolding table_inv_def f(2,4) by auto
qed

lemma takeResponse_forms:
  assumes "takeResponse sequence responseID t = Some (r, t')"
  shows "map_of (pt_m t) sequence = Some r" "t' = finish r (deleteEntry sequence t)"
    "responseID = pr_expectedID (pt_requests t ! r) \<or> responseID = CommandGenericNACK"
  using assms by (auto simp: takeResponse_def split: option.splits if_splits)

lemma completeError_forms:
  assumes "completeError sequence err t = Some (r, t')"
  shows "map_of (pt_m t) sequence = Some r" "t' = sendDone r (Failed err) (finish r (deleteEntry sequence t))"
  using assms by (auto simp: completeError_def split: option.splits)

text \<open>A request leaves the table with one result, which nobody changes afterwards.\<close>

definition answered :: "nat \<Rightarrow> 'v requestResult \<Rightarrow> 'v pendingTable \<Rightarrow> 'v pendingTable \<Rightarrow> bool" where
  "answered r result t t' \<longleftrightarrow> length (pt_requests t') = length (pt_requests t) \<and> pr_done (pt_requests t' ! r) = [result] \<and>
     (\<forall>s. s \<noteq> r \<longrightarrow> pt_requests t' ! s = pt_requests t ! s)"

lemma table_inv_complete:
  fixes result :: "'v requestResult"
  assumes "table_inv k F {} t" "map_of (pt_m t) sequence = Some r"
  defines "t' \<equiv> sendDone r result (finish r (deleteEntry sequence t))"
  shows "table_inv k F {} t'" "pt_m t' = pt_m (deleteEntry sequence t)" "answered r result t t'"
    "set (dm_heap (pt_deadlines t')) \<subseteq> set (dm_heap (pt_deadlines t))"
proof -
  note e = table_inv_entry [OF assms(1,2)] and f = finish_entry [OF assms(1,2)] and i = table_inv_finish [OF assms(1,2)]
  have "r \<notin> snd ` set (pt_m (finish r (deleteEntry sequence t)))" using e(4) by (simp add: f(1))
  then show "table_inv k F {} t'" using table_inv_send [OF i, of r result] e(2) by (simp add: t'_def f(4))
  show "pt_m t' = pt_m (deleteEntry sequence t)" by (simp add: t'_def sendDone_def f(1))
  have "pr_done (pt_requests t ! r) = []" using e(1) by (simp add: entry_ok_def Let_def)
  then show "answered r result t t'" using e(2) f(4,5) by (simp add: answered_def t'_def sendDone_def updRequest_nth)
  show "set (dm_heap (pt_deadlines t')) \<subseteq> set (dm_heap (pt_deadlines t))" using f(7) by (auto simp: t'_def sendDone_def)
qed

lemma finish_pt_m: "finish r (t\<lparr>pt_m := x\<rparr>) = (finish r t)\<lparr>pt_m := x\<rparr>"
  by (simp add: finish_def Let_def updRequest_def split: option.splits)

lemma sendDone_pt_m: "sendDone r result (t\<lparr>pt_m := x\<rparr>) = (sendDone r result t)\<lparr>pt_m := x\<rparr>"
  by (simp add: sendDone_def updRequest_def)

lemma failAll_fold:
  "\<lbrakk>table_inv k F {} t; pt_m t = es\<rbrakk> \<Longrightarrow>
     \<exists>t'. fold (\<lambda>r t. sendDone r (Failed err) (finish r t)) (map snd es) (t\<lparr>pt_m := []\<rparr>) = t' \<and>
       table_inv k F {} t' \<and> pt_m t' = [] \<and> length (pt_requests t') = length (pt_requests t) \<and>
       (\<forall>r < length (pt_requests t). pr_done (pt_requests t' ! r) = (if r \<in> snd ` set es then [Failed err] else pr_done (pt_requests t ! r))) \<and>
       set (dm_heap (pt_deadlines t')) \<subseteq> set (dm_heap (pt_deadlines t))"
proof (induction es arbitrary: t)
  case Nil
  then have eq: "t\<lparr>pt_m := []\<rparr> = t" by simp
  show ?case using Nil by (simp add: eq)
next
  case (Cons e es)
  obtain sequence r where e: "e = (sequence, r)" by (cases e)
  have m: "map_of (pt_m t) sequence = Some r" using Cons.prems(2) e by simp
  let ?t1 = "sendDone r (Failed err) (finish r (deleteEntry sequence t))"
  note c = table_inv_complete [OF Cons.prems(1) m, of "Failed err"]
  have "filter (\<lambda>x. fst x \<noteq> sequence) es = es"
    using table_inv_entry(5) [OF Cons.prems(1) m] Cons.prems(2) e by (auto simp: filter_id_conv)
  then have es: "pt_m ?t1 = es" using c(2) Cons.prems(2) e by (simp add: deleteEntry_def)
  have r: "r \<notin> snd ` set es" "r < length (pt_requests t)"
    using table_inv_entry(2,6) [OF Cons.prems(1) m] Cons.prems(2) e by simp_all
  have step: "sendDone r (Failed err) (finish r (t\<lparr>pt_m := []\<rparr>)) = ?t1\<lparr>pt_m := []\<rparr>"
    by (simp add: finish_pt_m sendDone_pt_m deleteEntry_def)
  from Cons.IH [OF c(1) es] obtain t' where t': "fold (\<lambda>r t. sendDone r (Failed err) (finish r t)) (map snd es) (?t1\<lparr>pt_m := []\<rparr>) = t'"
    "table_inv k F {} t'" "pt_m t' = []" "length (pt_requests t') = length (pt_requests ?t1)"
    "\<forall>s < length (pt_requests ?t1). pr_done (pt_requests t' ! s) = (if s \<in> snd ` set es then [Failed err] else pr_done (pt_requests ?t1 ! s))"
    "set (dm_heap (pt_deadlines t')) \<subseteq> set (dm_heap (pt_deadlines ?t1))" by blast
  have "pr_done (pt_requests t' ! s) = (if s \<in> snd ` set (e # es) then [Failed err] else pr_done (pt_requests t ! s))"
    if "s < length (pt_requests t)" for s
    using t'(5) that c(3) r(1) unfolding answered_def e by (cases "s = r") auto
  then show ?case using t' c(3,4) step unfolding e answered_def by (intro exI [of _ t']) auto
qed

lemma table_inv_failAll:
  assumes "table_inv k F {} t"
  shows "table_inv k F {} (failAll err t)" "pt_m (failAll err t) = []" "length (pt_requests (failAll err t)) = length (pt_requests t)"
    "r < length (pt_requests t) \<Longrightarrow>
       pr_done (pt_requests (failAll err t) ! r) = (if r \<in> snd ` set (pt_m t) then [Failed err] else pr_done (pt_requests t ! r))"
    "set (dm_heap (pt_deadlines (failAll err t))) \<subseteq> set (dm_heap (pt_deadlines t))"
  using failAll_fold [OF assms refl, of err] unfolding failAll_def by auto

lemma table_inv_insert:
  assumes "table_inv (Suc k) F {} t" "insertRequest sequence q t = Inr t'"
    and q: "\<not> pr_finished q" "pr_releaseWindow q" "pr_done q = []" "pr_deadline q = None"
  shows "table_inv k F {} t'"
proof -
  have fresh: "sequence \<notin> fst ` set (pt_m t)" and room: "int (length (pt_m t)) < pt_max t"
    and t': "t' = t\<lparr>pt_m := pt_m t @ [(sequence, length (pt_requests t))], pt_requests := pt_requests t @ [q]\<rparr>"
    using assms(2) by (auto simp: insertRequest_def map_of_eq_None_iff split: if_splits)
  have old: "\<forall>e \<in> set (pt_m t). entry_ok F t e" using assms(1) by (simp add: table_inv_def)
  then have lt: "e \<in> set (pt_m t) \<Longrightarrow> snd e < length (pt_requests t)" for e by (cases e) (fastforce simp: entry_ok_def)
  have "entry_ok F t' e" if e: "e \<in> set (pt_m t')" for e
  proof (cases "e \<in> set (pt_m t)")
    case True
    then have "entry_ok F t e" "snd e < length (pt_requests t)" using old lt by auto
    then show ?thesis by (cases e) (simp add: entry_ok_def Let_def t' nth_append)
  next
    case False
    then show ?thesis using e q by (simp add: t' entry_ok_def Let_def)
  qed
  moreover have "settled {} t' s" if s: "s < length (pt_requests t')" "s \<notin> snd ` set (pt_m t')" for s
  proof -
    have s': "s < length (pt_requests t)" "s \<notin> snd ` set (pt_m t)" using s by (auto simp: t')
    then have "settled {} t s" using assms(1) unfolding table_inv_def by blast
    then show ?thesis using s' by (simp add: settled_def Let_def t' nth_append)
  qed
  moreover have "heap_owned t'" unfolding heap_owned_def
  proof (intro conjI ballI impI)
    show "wf_heap (pt_deadlines t')" using assms(1) by (simp add: table_inv_def heap_owned_def t')
    fix i assume "i \<in> set (dm_heap (pt_deadlines t'))" "3 \<le> di_ref i"
    then obtain x where x: "di_ref i = requestSlot x" "(di_sequence i, x) \<in> set (pt_m t)" "pr_deadline (pt_requests t ! x) = Some i"
      using assms(1) by (auto simp: table_inv_def heap_owned_def t')
    then show "\<exists>x. di_ref i = requestSlot x \<and> (di_sequence i, x) \<in> set (pt_m t') \<and> pr_deadline (pt_requests t' ! x) = Some i"
      using lt [OF x(2)] by (auto simp: t' nth_append)
  qed
  moreover have "distinct (map snd (pt_m t'))" using assms(1) lt by (force simp: table_inv_def t')
  ultimately show ?thesis using assms(1) fresh room unfolding table_inv_def by (auto simp: t')
qed

lemma table_inv_window:
  assumes "table_inv k F U t" "window_inv w" "rw_tokens w + k = rw_tokens (pt_window t) + k'"
  shows "table_inv k' F U (t\<lparr>pt_window := w\<rparr>)"
  using assms by (auto simp: table_inv_def entry_ok_def settled_def heap_owned_def Let_def)

text \<open>Arming the deadline of a request that has none.\<close>

lemma table_inv_arm:
  assumes "table_inv k F {} t" "map_of (pt_m t) sequence = Some r" "pr_deadline (pt_requests t ! r) = None"
    and "scheduleItemAt (pt_deadlines t) (requestSlot r) at after kind command sequence = (item, m)"
  shows "table_inv k F {} (attachDeadline r item (t\<lparr>pt_deadlines := m\<rparr>))"
proof (cases item)
  case None
  then have "m = pt_deadlines t" using assms(4) by (auto simp: scheduleItemAt_def Let_def split: if_splits)
  then show ?thesis using assms(1) None by (simp add: attachDeadline_def)
next
  case (Some i)
  note e = table_inv_entry [OF assms(1,2)]
  have mem: "(sequence, r) \<in> set (pt_m t)" using map_of_SomeD [OF assms(2)] .
  have heap: "heap_owned t" using assms(1) by (simp add: table_inv_def)
  have slot: "requestSlot r \<notin> di_ref ` set (dm_heap (pt_deadlines t))"
  proof
    assume "requestSlot r \<in> di_ref ` set (dm_heap (pt_deadlines t))"
    then obtain x where "x \<in> set (dm_heap (pt_deadlines t))" "di_ref x = requestSlot r" by auto
    then show False using heap assms(3) by (force simp: heap_owned_def requestSlot_def)
  qed
  have i: "di_ref i = requestSlot r" "di_sequence i = sequence"
    and m: "dm_heap m = dm_heap (heapPush (pt_deadlines t) i)" "wf_heap m"
    using assms(4) Some scheduleItemAt_ok [OF _ slot, of at after kind command sequence] heap
    by (auto simp: scheduleItemAt_def Let_def heap_owned_def split: if_splits)
  have "set_mset (mset (dm_heap m)) = set_mset (add_mset i (mset (dm_heap (pt_deadlines t))))"
    using heapPush_ok(2) [of "pt_deadlines t" i] heap slot i m(1) by (simp add: heap_owned_def)
  then have set_m: "set (dm_heap m) = insert i (set (dm_heap (pt_deadlines t)))" by simp
  let ?t = "attachDeadline r item (t\<lparr>pt_deadlines := m\<rparr>)"
  have t: "?t = updRequest r (\<lambda>q. q\<lparr>pr_deadline := Some i\<rparr>) (t\<lparr>pt_deadlines := m\<rparr>)"
    using e(1) Some by (simp add: attachDeadline_def entry_ok_def Let_def)
  have req: "pt_requests ?t ! s = (if s = r then (pt_requests t ! r)\<lparr>pr_deadline := Some i\<rparr> else pt_requests t ! s)"
    "length (pt_requests ?t) = length (pt_requests t)" "pt_m ?t = pt_m t" "pt_deadlines ?t = m" "pt_window ?t = pt_window t"
    "pt_max ?t = pt_max t" for s
    unfolding t using e(2) by (simp_all add: updRequest_def)
  have "entry_ok F ?t x" if x: "x \<in> set (pt_m t)" for x
  proof -
    have ok: "entry_ok F t x" using assms(1) x unfolding table_inv_def by blast
    have "snd x = r \<Longrightarrow> fst x = sequence" using map_of_entry(2) [OF e(5,6) assms(2) x] by simp
    then show ?thesis using ok i set_m by (cases x) (auto simp: entry_ok_def Let_def req)
  qed
  moreover have "settled {} ?t s" if s: "s < length (pt_requests t)" "s \<notin> snd ` set (pt_m t)" for s
  proof -
    have "s \<noteq> r" using s(2) mem by force
    moreover have "settled {} t s" using assms(1) s unfolding table_inv_def by blast
    ultimately show ?thesis by (simp add: settled_def Let_def req)
  qed
  moreover have "heap_owned ?t" unfolding heap_owned_def req(3,4)
  proof (intro conjI ballI impI)
    show "wf_heap m" by (rule m(2))
    fix x assume x: "x \<in> set (dm_heap m)" "3 \<le> di_ref x"
    show "\<exists>y. di_ref x = requestSlot y \<and> (di_sequence x, y) \<in> set (pt_m t) \<and> pr_deadline (pt_requests ?t ! y) = Some x"
    proof (cases "x = i")
      case True
      then show ?thesis using i mem by (auto simp: req)
    next
      case False
      then obtain y where "di_ref x = requestSlot y" "(di_sequence x, y) \<in> set (pt_m t)" "pr_deadline (pt_requests t ! y) = Some x"
        using x set_m heap by (auto simp: heap_owned_def)
      then show ?thesis using assms(3) by (intro exI [of _ y]) (auto simp: req)
    qed
  qed
  ultimately show ?thesis using assms(1) unfolding table_inv_def req(2,3,5,6) by blast
qed

text \<open>Deadlines that fired leave the heap and wait in \<open>F\<close> to be handled.\<close>

lemma table_inv_fired:
  assumes "table_inv k F {} t" "expireReady (pt_deadlines t) now = (items, m)"
  shows "table_inv k (F \<union> set items) {} (t\<lparr>pt_deadlines := m\<rparr>)"
proof -
  have wf: "wf_heap (pt_deadlines t)" using assms(1) by (simp add: table_inv_def heap_owned_def)
  note ready = takeReady_ok [OF wf order_refl, of now items m]
  have "wf_heap m" "mset items + mset (dm_heap m) = mset (dm_heap (pt_deadlines t))"
    using ready assms(2) by (simp_all add: expireReady_def)
  then have m: "wf_heap m" "set (dm_heap (pt_deadlines t)) = set items \<union> set (dm_heap m)"
    by (simp, metis set_mset_mset set_mset_union)
  then show ?thesis using assms(1) unfolding table_inv_def entry_ok_def settled_def heap_owned_def Let_def m(2) by (auto simp: table_inv_def entry_ok_def settled_def heap_owned_def Let_def)
qed

text \<open>A fired deadline that has been handled can be forgotten when its request is gone.\<close>

lemma table_inv_forget:
  assumes "table_inv k F {} t" "i \<in> F \<Longrightarrow> \<forall>r. (di_sequence i, r) \<notin> set (pt_m t)"
  shows "table_inv k (F - {i}) {} t"
  using assms by (cases "i \<in> F") (force simp: table_inv_def entry_ok_def Let_def)+

end
