(* ===== verification/Session.thy ===== *)
theory Session
  imports Framer Pending "HOL-Library.AList"
begin

text \<open>
  The session (\<^verbatim>\<open>session/session.go\<close>, \<^verbatim>\<open>rx.go\<close>, \<^verbatim>\<open>tx.go\<close>, \<^verbatim>\<open>inbound_reply.go\<close>, \<^verbatim>\<open>negotiate.go\<close>, \<^verbatim>\<open>liveness.go\<close>,
  \<^verbatim>\<open>operations.go\<close>): its state and every operation on it. A call that can block is cut at the points where it
  blocks, and where a close of the session can come between two of its steps; \<open>caller\<close> is the
  control state of a call between them. Metrics, events, traces and log records are not part of the state. The
  handler of the application is code the session does not know: the configuration says whether there is one, the
  receiving goroutine stops where it is called, and goes on with whatever answer, error or panic it ends
  with, so that a handler may keep state, take its time and call back into the session.
\<close>

section \<open>Configuration\<close>

type_synonym ResponseAction = byte

abbreviation (input) ResponseImmediate :: ResponseAction where "ResponseImmediate \<equiv> 0"
abbreviation (input) ResponseSuppress :: ResponseAction where "ResponseSuppress \<equiv> 1"
abbreviation (input) ResponseDeferred :: ResponseAction where "ResponseDeferred \<equiv> 2"

record 'v Response =
  resp_Status :: CommandStatus
  resp_Body   :: "'v any"
  resp_Action :: ResponseAction

type_synonym 'v handlerOutcome = "(goerr, 'v Response) outcome"

record 'v Config =
  cf_Role                 :: Role
  cf_Profile              :: Profile
  cf_Registry             :: "'v Registry option"
  cf_MaxPDUSize           :: u32
  cf_MaxPending           :: int
  cf_MaxDeferredResponses :: int
  cf_WindowSize           :: int
  cf_ResponseTimeout      :: Duration
  cf_SessionInitTimeout   :: Duration
  cf_EnquireLinkInterval  :: Duration
  cf_EnquireLinkTimeout   :: Duration
  cf_InactivityTimeout    :: Duration
  cf_WriteTimeout         :: Duration
  cf_TXQueueSize          :: int
  cf_TXBatchItems         :: int
  cf_TXBatchBytes         :: int
  cf_ReadBufferSize       :: int
  cf_Handler              :: bool

definition defaultDuration :: "Duration \<Rightarrow> Duration \<Rightarrow> Duration" where
  "defaultDuration v fallback = (if v = 0 then fallback else if v < 0 then 0 else v)"

abbreviation (input) seconds :: "int \<Rightarrow> Duration" where "seconds n \<equiv> n * 1000000000"

text \<open>The first half of \<^verbatim>\<open>New\<close>: the checks of the configuration and its defaults.\<close>

definition defaultRegistry :: "Profile \<Rightarrow> session_error + 'v Registry" where
  "defaultRegistry profile =
     (case (if IsSMPP50 profile then NewSMPP50Registry RegistryCompatible else NewSMPP34Registry RegistryCompatible) of
        Inl err \<Rightarrow> Inl (CodecError err) | Inr r \<Rightarrow> Inr r)"

definition normalizeBounds :: "'v Config \<Rightarrow> 'v Config" where
  "normalizeBounds c =
     (let c = (if cf_WindowSize c \<le> 0 then c\<lparr>cf_WindowSize := 1024\<rparr> else c);
          c = (if cf_MaxPending c \<le> 0 then c\<lparr>cf_MaxPending := 1024\<rparr> else c);
          c = (if cf_MaxPending c < cf_WindowSize c then c\<lparr>cf_MaxPending := cf_WindowSize c\<rparr> else c)
      in if cf_MaxDeferredResponses c \<le> 0 then c\<lparr>cf_MaxDeferredResponses := 1024\<rparr> else c)"

definition normalizeTimeouts :: "'v Config \<Rightarrow> 'v Config" where
  "normalizeTimeouts c =
     c\<lparr>cf_ResponseTimeout := defaultDuration (cf_ResponseTimeout c) (seconds 30),
       cf_SessionInitTimeout := defaultDuration (cf_SessionInitTimeout c) (seconds 30),
       cf_EnquireLinkInterval := defaultDuration (cf_EnquireLinkInterval c) (seconds 30),
       cf_EnquireLinkTimeout := defaultDuration (cf_EnquireLinkTimeout c) (seconds 10),
       cf_InactivityTimeout := defaultDuration (cf_InactivityTimeout c) (seconds 120),
       cf_WriteTimeout := defaultDuration (cf_WriteTimeout c) (seconds 30)\<rparr>"

definition normalizeQueues :: "'v Config \<Rightarrow> 'v Config" where
  "normalizeQueues c =
     (let c = (if cf_TXQueueSize c \<le> 0 then c\<lparr>cf_TXQueueSize := 1024\<rparr> else c);
          c = (if cf_TXBatchItems c \<le> 0 then c\<lparr>cf_TXBatchItems := 32\<rparr> else c);
          c = (if cf_TXBatchBytes c \<le> 0 then c\<lparr>cf_TXBatchBytes := 64 * 1024\<rparr> else c)
      in if cf_ReadBufferSize c \<le> 0 then c\<lparr>cf_ReadBufferSize := 64 * 1024\<rparr> else c)"

definition normalizeConfig :: "'v Config \<Rightarrow> session_error + 'v Config" where
  "normalizeConfig c =
     (if \<not> roleValid (cf_Role c) then Inl ErrInvalidConfig
      else
        let c = (if pf_InterfaceVersion (cf_Profile c) = 0 then c\<lparr>cf_Profile := SMPP34Profile\<rparr> else c) in
        if \<not> ProfileValid (cf_Profile c) then Inl ErrInvalidConfig
        else bindE (case cf_Registry c of Some r \<Rightarrow> Inr r | None \<Rightarrow> defaultRegistry (cf_Profile c)) (\<lambda>registry.
          Inr (normalizeQueues (normalizeTimeouts (normalizeBounds (c\<lparr>cf_Registry := Some registry\<rparr>))))))"

section \<open>The state of a session\<close>

datatype txKind = txRequest | txResponse | txOneWay

text \<open>\<open>ti_pending\<close> names the request of a request item, \<open>ti_dispatched\<close> the channel of a one-way call.\<close>

record txItem =
  ti_kind       :: txKind
  ti_header     :: Header
  ti_frame      :: bytes
  ti_sequence   :: SequenceNumber
  ti_requestID  :: CommandID
  ti_responseTo :: CommandID
  ti_status     :: CommandStatus
  ti_pending    :: "nat option"
  ti_dispatched :: "nat option"

text \<open>
  \<open>se_chans\<close> are the channels of one-way calls with what was sent on them, \<open>se_written\<close> the frames written to the
  connection, \<open>se_congestion\<close> the congestion states observed (for the metrics and the flow controller), \<open>se_probes\<close> the probes started by the
  liveness check that did not run yet.
\<close>

record 'v Session =
  se_config       :: "'v Config"
  se_machine      :: StateMachine
  se_table        :: "'v pendingTable"
  se_seq          :: u32
  se_tx           :: "txItem list"
  se_done         :: bool
  se_closeErr     :: "session_error option"
  se_deferred     :: "(SequenceNumber \<times> bool) list"
  se_peerCaps     :: PeerCapabilities
  se_lastActivity :: int
  se_lastInbound  :: int
  se_chans        :: "session_error option option list"
  se_written      :: "bytes list"
  se_congestion   :: "(CongestionState \<times> CommandID \<times> SequenceNumber) list"
  se_probes       :: nat

abbreviation (input) sessionInitDeadline :: nat where "sessionInitDeadline \<equiv> 0"
abbreviation (input) inactivityDeadline :: nat where "inactivityDeadline \<equiv> 1"
abbreviation (input) enquireLinkDeadline :: nat where "enquireLinkDeadline \<equiv> 2"

definition scheduleSlot :: "nat \<Rightarrow> int \<Rightarrow> Duration \<Rightarrow> TimeoutKind \<Rightarrow> 'v Session \<Rightarrow> 'v Session" where
  "scheduleSlot slot now after kind s =
     s\<lparr>se_table := (se_table s)\<lparr>pt_deadlines := snd (scheduleItemAt (pt_deadlines (se_table s)) slot now after kind 0 0)\<rparr>\<rparr>"

definition scheduleLivenessDeadlines :: "int \<Rightarrow> 'v Session \<Rightarrow> 'v Session" where
  "scheduleLivenessDeadlines now s =
     (let c = se_config s;
          s = (if cf_SessionInitTimeout c > 0
               then scheduleSlot sessionInitDeadline now (cf_SessionInitTimeout c) TimeoutSessionInit s else s);
          s = (if cf_InactivityTimeout c > 0
               then scheduleSlot inactivityDeadline now (cf_InactivityTimeout c) TimeoutInactivity s else s)
      in if cf_EnquireLinkInterval c > 0
         then scheduleSlot enquireLinkDeadline now (cf_EnquireLinkInterval c) TimeoutEnquireLink s else s)"

definition zeroCapabilities :: PeerCapabilities where
  "zeroCapabilities = \<lparr>PeerVersion = 0, NegotiatedVersion = 0, VersionAdvertised = False, SupportsTLV = False, SupportsSMPP50 = False\<rparr>"

definition New :: "'v Config \<Rightarrow> int \<Rightarrow> session_error + 'v Session" where
  "New config now =
     bindE (normalizeConfig config) (\<lambda>c.
       case NewFramer (cf_MaxPDUSize c) of
         Inl err \<Rightarrow> Inl (CodecError err)
       | Inr _ \<Rightarrow>
          bindE (NewStateMachine (cf_Role c)) (\<lambda>machine.
            case openMachine machine of
              (Some err, _) \<Rightarrow> Inl err
            | (None, machine) \<Rightarrow>
               Inr (scheduleLivenessDeadlines now
                 \<lparr>se_config = c, se_machine = machine,
                  se_table = newPendingTable (cf_MaxPending c) (nat (cf_WindowSize c)),
                  se_seq = 0, se_tx = [], se_done = False, se_closeErr = None, se_deferred = [],
                  se_peerCaps = zeroCapabilities, se_lastActivity = now, se_lastInbound = now, se_chans = [],
                  se_written = [], se_congestion = [], se_probes = 0\<rparr>)))"

definition requestCloseError :: "'v Session \<Rightarrow> session_error" where
  "requestCloseError s =
     (case se_closeErr s of
        None \<Rightarrow> ErrSessionClosed
      | Some err \<Rightarrow> if sessionIs err ErrSessionClosed then ErrSessionClosed else LossError (Some err))"

text \<open>Only the first call has an effect (\<^verbatim>\<open>closeOnce\<close>).\<close>

definition terminate :: "session_error \<Rightarrow> 'v Session \<Rightarrow> 'v Session" where
  "terminate cause s =
     (if se_done s then s
      else
        let pendingErr = (if sessionIs cause ErrSessionClosed then ErrSessionClosed else LossError (Some cause)) in
        s\<lparr>se_closeErr := Some cause, se_machine := closeMachine (se_machine s), se_done := True,
          se_table := failAll pendingErr (se_table s), se_deferred := []\<rparr>)"

section \<open>Capabilities\<close>

definition bindRequestVersion :: "'v any \<Rightarrow> InterfaceVersion option" where
  "bindRequestVersion body =
     (case body of
        Val (BindRequestB b) \<Rightarrow> Some (br_InterfaceVersion b)
      | Ptr (BindRequestB b) \<Rightarrow> Some (br_InterfaceVersion b)
      | _ \<Rightarrow> None)"

definition bindNegotiationProfile :: "Profile \<Rightarrow> InterfaceVersion \<Rightarrow> Profile option" where
  "bindNegotiationProfile locl advertised =
     (if advertised = InterfaceVersion34 then Some SMPP34Profile
      else if advertised = InterfaceVersion50 \<and> IsSMPP50 locl then Some SMPP50Profile
      else None)"

definition appendIfMissing :: "BindResponse \<Rightarrow> InterfaceVersion \<Rightarrow> BindResponse" where
  "appendIfMissing response version =
     (if list_ex (\<lambda>p. op_Tag p = TLVTagSCInterfaceVersion) (bresp_Optional response) then response
      else response\<lparr>bresp_Optional := bresp_Optional response @ [\<lparr>op_Tag = TLVTagSCInterfaceVersion, op_Value = [version]\<rparr>]\<rparr>)"

definition ensureSCInterfaceVersion :: "'v any \<Rightarrow> InterfaceVersion \<Rightarrow> 'v any" where
  "ensureSCInterfaceVersion body version =
     (case body of
        Val (BindResponseB b) \<Rightarrow> Val (BindResponseB (appendIfMissing b version))
      | Ptr (BindResponseB b) \<Rightarrow> Val (BindResponseB (appendIfMissing b version))
      | _ \<Rightarrow> body)"

definition requiresSMPP50 :: "CommandID \<Rightarrow> bool" where
  "requiresSMPP50 c \<longleftrightarrow>
     c = CommandBroadcastSM \<or> c = CommandBroadcastSMResp \<or> c = CommandQueryBroadcastSM \<or>
     c = CommandQueryBroadcastSMResp \<or> c = CommandCancelBroadcastSM \<or> c = CommandCancelBroadcastSMResp"

definition isOneWayCommand :: "CommandID \<Rightarrow> bool" where
  "isOneWayCommand c \<longleftrightarrow> c = CommandOutbind \<or> c = CommandAlertNotification"

definition isLifecycleRequest :: "CommandID \<Rightarrow> bool" where
  "isLifecycleRequest c \<longleftrightarrow> isBindRequest c \<or> c = CommandUnbind"

definition isBoundState :: "SessionState \<Rightarrow> bool" where
  "isBoundState state \<longleftrightarrow> state = StateBoundTX \<or> state = StateBoundRX \<or> state = StateBoundTRX"

definition actorMatchesRole :: "CommandActor \<Rightarrow> Role \<Rightarrow> bool" where
  "actorMatchesRole a role =
     (case a of ActorESME \<Rightarrow> role = RoleESME | ActorSMSC \<Rightarrow> role = RoleSMSC | ActorAny \<Rightarrow> True)"

fun isPanicError :: "goerr \<Rightarrow> bool" where
  "isPanicError (PanicError source cause) = True"
| "isPanicError (FatalError k d c s r (Some e)) = isPanicError e"
| "isPanicError (SemanticError st c s r (Some e)) = isPanicError e"
| "isPanicError (Wrapped r e) = isPanicError e"
| "isPanicError _ = False"

definition isPanic :: "session_error \<Rightarrow> bool" where
  "isPanic err = (case err of CodecError e \<Rightarrow> isPanicError e | _ \<Rightarrow> False)"

section \<open>Requests\<close>

text \<open>
  The control states of a call of \<^verbatim>\<open>request\<close>: waiting for a slot of the window; holding a slot and the reservation of
  the state machine; waiting for room in the transmit queue; waiting for the result or the end of its
  context; waiting for the result only; returned. Likewise for \<^verbatim>\<open>SendOneWay\<close> and \<^verbatim>\<open>RespondDeferred\<close>.
\<close>

datatype 'v caller =
    CWindow CommandID "'v any"
  | CBegun CommandID "'v any"
  | CQueue txItem nat
  | CResult CommandID SequenceNumber nat
  | CWait nat
  | CReturned "'v requestResult"
  | OQueue txItem nat
  | OWait nat
  | OReturned "session_error option"
  | DQueue Header txItem
  | DReturned "session_error option"

definition setWindow :: "requestWindow \<Rightarrow> 'v Session \<Rightarrow> 'v Session" where
  "setWindow w s = s\<lparr>se_table := (se_table s)\<lparr>pt_window := w\<rparr>\<rparr>"

definition releaseSlot :: "'v Session \<Rightarrow> 'v Session" where
  "releaseSlot s = setWindow (snd (release (pt_window (se_table s)))) s"

text \<open>The checks before a slot is taken.\<close>

definition requestChecks :: "CommandID \<Rightarrow> 'v any \<Rightarrow> 'v Session \<Rightarrow> session_error option" where
  "requestChecks command body s =
     (if IsResponse command \<or> isOneWayCommand command then Some ErrUnexpectedPDU
      else if isBindRequest command \<and> bindRequestVersion body = Some InterfaceVersion50 \<and> \<not> IsSMPP50 (cf_Profile (se_config s))
      then Some ErrUnsupportedCapability
      else if requiresSMPP50 command \<and> \<not> SupportsSMPP50 (se_peerCaps s) then Some ErrUnsupportedCapability
      else if se_done s then Some (requestCloseError s)
      else None)"

text \<open>With a slot: \<^verbatim>\<open>BeginOutbound\<close>, which gives the slot back when it fails.\<close>

definition requestBegin :: "CommandID \<Rightarrow> 'v any \<Rightarrow> 'v Session \<Rightarrow> 'v caller \<times> 'v Session" where
  "requestBegin command body s =
     (case BeginOutbound (se_machine s) command of
        (Some err, m) \<Rightarrow> (CReturned (Failed err), releaseSlot (s\<lparr>se_machine := m\<rparr>))
      | (None, m) \<Rightarrow> (CBegun command body, s\<lparr>se_machine := m\<rparr>))"

definition requestAcquired :: "CommandID \<Rightarrow> 'v any \<Rightarrow> admission \<Rightarrow> 'v Session \<Rightarrow> 'v caller \<times> 'v Session" where
  "requestAcquired command body a s =
     (case a of
        Admitted w \<Rightarrow> requestBegin command body (setWindow w s)
      | Refused err w \<Rightarrow>
          (CReturned (Failed (if sessionIs err ErrSessionClosed then requestCloseError s else err)), setWindow w s)
      | Blocked w \<Rightarrow> (CWindow command body, setWindow w s))"

definition requestStart :: "CommandID \<Rightarrow> 'v any \<Rightarrow> bool \<Rightarrow> 'v Session \<Rightarrow> 'v caller \<times> 'v Session" where
  "requestStart command body waitWindow s =
     (case requestChecks command body s of
        Some err \<Rightarrow> (CReturned (Failed err), s)
      | None \<Rightarrow> requestAcquired command body (acquire (pt_window (se_table s)) waitWindow) s)"

definition newRequest :: "CommandID \<Rightarrow> 'v any \<Rightarrow> 'v pendingRequest" where
  "newRequest command body =
     \<lparr>pr_requestID = command,
      pr_bindVersion = (if isBindRequest command then (case bindRequestVersion body of Some v \<Rightarrow> v | None \<Rightarrow> 0) else 0),
      pr_expectedID = ResponseID command, pr_done = [], pr_dispatched = False, pr_dispatchedAt = 0, pr_responseAt = 0,
      pr_responseCommand = 0, pr_responseStatus = 0, pr_rttRecorded = False, pr_releaseWindow = True,
      pr_deadline = None, pr_finished = False\<rparr>"

text \<open>The loop that looks for a free sequence number, with the attempts left; the generator advances with every attempt.\<close>

fun insertLoop :: "nat \<Rightarrow> u32 \<Rightarrow> 'v pendingRequest \<Rightarrow> 'v pendingTable \<Rightarrow> (session_error + SequenceNumber \<times> 'v pendingTable) \<times> u32" where
  "insertLoop 0 sq q t = (Inl ErrSequenceExhausted, sq)"
| "insertLoop (Suc attempts) sq q t =
     (let sequence = nextSequence sq in
      case insertRequest sequence q t of
        Inr t' \<Rightarrow> (Inr (sequence, t'), sequence)
      | Inl err \<Rightarrow> if err = ErrSequenceInUse then insertLoop attempts sequence q t else (Inl err, sequence))"

definition requestHeader :: "CommandID \<Rightarrow> SequenceNumber \<Rightarrow> Header" where
  "requestHeader command sequence = \<lparr>CommandLength = 0, h_CommandID = command, h_CommandStatus = 0, h_SequenceNumber = sequence\<rparr>"

definition requestItem :: "CommandID \<Rightarrow> SequenceNumber \<Rightarrow> bytes \<Rightarrow> nat \<Rightarrow> txItem" where
  "requestItem command sequence frame r =
     \<lparr>ti_kind = txRequest, ti_header = requestHeader command sequence, ti_frame = frame, ti_sequence = sequence,
      ti_requestID = command, ti_responseTo = 0, ti_status = 0, ti_pending = Some r, ti_dispatched = None\<rparr>"

definition requestInsert :: "CommandID \<Rightarrow> 'v any \<Rightarrow> 'v Session \<Rightarrow> 'v caller \<times> 'v Session" where
  "requestInsert command body s =
     (let r = length (pt_requests (se_table s)) in
      case insertLoop (nat (cf_MaxPending (se_config s) + 1)) (se_seq s) (newRequest command body) (se_table s) of
        (Inl err, sq) \<Rightarrow>
          (CReturned (Failed err), releaseSlot (s\<lparr>se_seq := sq, se_machine := CancelOutbound (se_machine s) command\<rparr>))
      | (Inr (sequence, t), sq) \<Rightarrow>
          (case EncodePDU [] (requestHeader command sequence) body (cf_Registry (se_config s)) of
             Inl err \<Rightarrow>
               (CReturned (Failed (CodecError err)),
                s\<lparr>se_seq := sq, se_machine := CancelOutbound (se_machine s) command,
                  se_table := (case completeError sequence (CodecError err) t of Some (_, t') \<Rightarrow> t' | None \<Rightarrow> t)\<rparr>)
           | Inr frame \<Rightarrow> (CQueue (requestItem command sequence frame r) r, s\<lparr>se_seq := sq, se_table := t\<rparr>)))"

text \<open>What ends a wait: the awaited channel is ready, the context of the caller ended, the session is done.\<close>

datatype wakeup = Ready | CtxDone string | SessDone

definition queueHasRoom :: "'v Session \<Rightarrow> bool" where
  "queueHasRoom s \<longleftrightarrow> int (length (se_tx s)) < cf_TXQueueSize (se_config s)"

definition requestQueue :: "txItem \<Rightarrow> nat \<Rightarrow> wakeup \<Rightarrow> 'v Session \<Rightarrow> ('v caller \<times> 'v Session) option" where
  "requestQueue item r wakeup s =
     (case wakeup of
        Ready \<Rightarrow>
          if queueHasRoom s then Some (CResult (ti_requestID item) (ti_sequence item) r, s\<lparr>se_tx := se_tx s @ [item]\<rparr>) else None
      | CtxDone e \<Rightarrow>
          (case completeError (ti_sequence item) (ContextError e) (se_table s) of
             Some (_, t) \<Rightarrow> Some (CReturned (Failed (ContextError e)),
               s\<lparr>se_table := t, se_machine := CancelOutbound (se_machine s) (ti_requestID item)\<rparr>)
           | None \<Rightarrow> Some (CWait r, s))
      | SessDone \<Rightarrow> if se_done s then Some (CWait r, s) else None)"

definition waitCompleted :: "nat \<Rightarrow> 'v Session \<Rightarrow> ('v caller \<times> 'v Session) option" where
  "waitCompleted r s =
     (case pr_done (pt_requests (se_table s) ! r) of result # _ \<Rightarrow> Some (CReturned result, s) | [] \<Rightarrow> None)"

definition requestWait :: "CommandID \<Rightarrow> SequenceNumber \<Rightarrow> nat \<Rightarrow> wakeup \<Rightarrow> 'v Session \<Rightarrow> ('v caller \<times> 'v Session) option" where
  "requestWait command sequence r wakeup s =
     (case wakeup of
        Ready \<Rightarrow> waitCompleted r s
      | CtxDone e \<Rightarrow>
          (case completeError sequence (ContextError e) (se_table s) of
             Some (_, t) \<Rightarrow> Some (CReturned (Failed (ContextError e)),
               s\<lparr>se_table := t, se_machine := CancelOutbound (se_machine s) command\<rparr>)
           | None \<Rightarrow> Some (CWait r, s))
      | SessDone \<Rightarrow> None)"

section \<open>One-way primitives\<close>

definition oneWayItem :: "CommandID \<Rightarrow> SequenceNumber \<Rightarrow> bytes \<Rightarrow> nat \<Rightarrow> txItem" where
  "oneWayItem command sequence frame ch =
     \<lparr>ti_kind = txOneWay, ti_header = requestHeader command sequence, ti_frame = frame, ti_sequence = sequence,
      ti_requestID = command, ti_responseTo = 0, ti_status = 0, ti_pending = None, ti_dispatched = Some ch\<rparr>"

definition oneWayStart :: "CommandID \<Rightarrow> 'v any \<Rightarrow> 'v Session \<Rightarrow> 'v caller \<times> 'v Session" where
  "oneWayStart command body s =
     (if \<not> isOneWayCommand command then (OReturned (Some ErrUnexpectedPDU), s)
      else if se_done s then (OReturned (Some (requestCloseError s)), s)
      else
        case BeginOutbound (se_machine s) command of
          (Some err, m) \<Rightarrow> (OReturned (Some err), s\<lparr>se_machine := m\<rparr>)
        | (None, m) \<Rightarrow>
            let sequence = nextSequence (se_seq s); ch = length (se_chans s) in
            (case EncodePDU [] (requestHeader command sequence) body (cf_Registry (se_config s)) of
               Inl err \<Rightarrow> (OReturned (Some (CodecError err)), s\<lparr>se_seq := sequence, se_machine := CancelOutbound m command\<rparr>)
             | Inr frame \<Rightarrow> (OQueue (oneWayItem command sequence frame ch) ch,
                 s\<lparr>se_seq := sequence, se_machine := m, se_chans := se_chans s @ [None]\<rparr>)))"

definition oneWayQueue :: "txItem \<Rightarrow> nat \<Rightarrow> wakeup \<Rightarrow> 'v Session \<Rightarrow> ('v caller \<times> 'v Session) option" where
  "oneWayQueue item ch wakeup s =
     (let cancelled = s\<lparr>se_machine := CancelOutbound (se_machine s) (ti_requestID item)\<rparr> in
      case wakeup of
        Ready \<Rightarrow> if queueHasRoom s then Some (OWait ch, s\<lparr>se_tx := se_tx s @ [item]\<rparr>) else None
      | CtxDone e \<Rightarrow> Some (OReturned (Some (ContextError e)), cancelled)
      | SessDone \<Rightarrow> if se_done s then Some (OReturned (Some (requestCloseError s)), cancelled) else None)"

definition oneWayWait :: "nat \<Rightarrow> wakeup \<Rightarrow> 'v Session \<Rightarrow> ('v caller \<times> 'v Session) option" where
  "oneWayWait ch wakeup s =
     (case wakeup of
        Ready \<Rightarrow> (case se_chans s ! ch of Some err \<Rightarrow> Some (OReturned err, s) | None \<Rightarrow> None)
      | SessDone \<Rightarrow> if se_done s then Some (OReturned (Some (requestCloseError s)), s) else None
      | CtxDone e \<Rightarrow> None)"

section \<open>The receiving side\<close>

text \<open>The first half of \<^verbatim>\<open>queueResponse\<close>: the response that is to be queued.\<close>

definition makeResponse :: "Header \<Rightarrow> CommandID \<Rightarrow> CommandStatus \<Rightarrow> 'v any \<Rightarrow> 'v Session \<Rightarrow> session_error + txItem" where
  "makeResponse request responseID status body s =
     (let header = ResponseHeader request responseID status in
      case EncodePDU [] header body (cf_Registry (se_config s)) of
        Inl err \<Rightarrow> Inl (CodecError err)
      | Inr frame \<Rightarrow>
          Inr \<lparr>ti_kind = txResponse, ti_header = header, ti_frame = frame, ti_sequence = h_SequenceNumber request,
               ti_requestID = 0,
               ti_responseTo = (if responseID = CommandGenericNACK then 0 else h_CommandID request),
               ti_status = status, ti_pending = None, ti_dispatched = None\<rparr>)"

definition makeGenericNACK :: "Header \<Rightarrow> CommandStatus \<Rightarrow> 'v Session \<Rightarrow> session_error + txItem" where
  "makeGenericNACK request status s = makeResponse request CommandGenericNACK status (Val EmptyB) s"

text \<open>
  What the callback of the framer has come to: done with the frame, a fatal error, a response that waits for room in
  the transmit queue, or inside the handler. The last component of a response tells what an error there does: nothing, or it
  is returned, and then the reservation of a lifecycle request is withdrawn.
\<close>

datatype rxCont = IgnoreError | ReturnError | CancelAndReturn CommandID
datatype 'v rxOutcome = RxOk | RxError session_error | RxQueue txItem rxCont | RxHandler "'v DecodedPDU"

definition queueOr :: "session_error + txItem \<Rightarrow> rxCont \<Rightarrow> 'v rxOutcome" where
  "queueOr m cont = (case m of Inr item \<Rightarrow> RxQueue item cont | Inl err \<Rightarrow> if cont = IgnoreError then RxOk else RxError err)"

definition responseOptionalParameters :: "'v any \<Rightarrow> OptionalParameter list" where
  "responseOptionalParameters body =
     (case body of
        Val (BindResponseB v) \<Rightarrow> bresp_Optional v
      | Val (SubmitSMRespB v) \<Rightarrow> ssmr_Optional v
      | Val (DeliverSMRespB v) \<Rightarrow> dsmr_Optional v
      | Val (DataSMRespB v) \<Rightarrow> datar_Optional v
      | Val (SubmitMultiRespB v) \<Rightarrow> smr_Optional v
      | Val (QuerySMRespB v) \<Rightarrow> qr_Optional v
      | Val (BroadcastSMRespB v) \<Rightarrow> bcr_Optional v
      | Val (QueryBroadcastSMRespB v) \<Rightarrow> qbr_Optional v
      | Val (OptionalResponseB v) \<Rightarrow> or_Optional v
      | _ \<Rightarrow> [])"

definition observeCongestion :: "'v DecodedPDU \<Rightarrow> 'v Session \<Rightarrow> 'v Session" where
  "observeCongestion pdu s =
     (if \<not> SupportsSMPP50 (se_peerCaps s) then s
      else
        case CongestionStateFromOptional (responseOptionalParameters (dp_Body pdu)) of
          (state, present, err) \<Rightarrow>
            if err \<noteq> None \<or> \<not> present then s
            else s\<lparr>se_congestion := se_congestion s @ [(state, h_CommandID (dp_Header pdu), h_SequenceNumber (dp_Header pdu))]\<rparr>)"

text \<open>The capabilities a successful bind response gives the binding side.\<close>

definition learnCapabilities :: "'v pendingRequest \<Rightarrow> 'v DecodedPDU \<Rightarrow> 'v Session \<Rightarrow> 'v Session" where
  "learnCapabilities q pdu s =
     (if OK (h_CommandStatus (dp_Header pdu)) \<and> isBindRequest (pr_requestID q) then
        (case dp_Body pdu of
           Val (BindResponseB body) \<Rightarrow>
             (let (peerVersion, advertised) = SCInterfaceVersion (bresp_Optional body);
                  localProfile = (case bindNegotiationProfile (cf_Profile (se_config s)) (pr_bindVersion q) of
                    Some p \<Rightarrow> p | None \<Rightarrow> \<lparr>pf_InterfaceVersion = 0\<rparr>)
              in s\<lparr>se_peerCaps := NegotiatePeerCapabilities localProfile peerVersion advertised\<rparr>)
         | _ \<Rightarrow> s)
      else s)"

definition handleResponse :: "'v DecodedPDU \<Rightarrow> int \<Rightarrow> 'v Session \<Rightarrow> 'v Session" where
  "handleResponse pdu receivedAt s =
     (let h = dp_Header pdu in
      case takeResponse (h_SequenceNumber h) (h_CommandID h) (se_table s) of
        None \<Rightarrow> s
      | Some (r, t) \<Rightarrow>
          (let t = updRequest r (\<lambda>q. snd (markResponseAt receivedAt (h_CommandID h) (h_CommandStatus h) q)) t;
               q = pt_requests t ! r;
               s = s\<lparr>se_table := t, se_machine := CompleteOutbound (se_machine s) (pr_requestID q) (h_CommandStatus h)\<rparr>;
               s = observeCongestion pdu (learnCapabilities q pdu s);
               s = s\<lparr>se_table := sendDone r (Answered pdu) (se_table s)\<rparr>
           in if pr_requestID q = CommandUnbind \<and> OK (h_CommandStatus h) then terminate ErrSessionClosed s else s))"

definition noHandlerResponse :: "CommandID \<Rightarrow> 'v Response" where
  "noHandlerResponse command =
     \<lparr>resp_Status = (if isBindRequest command then StatusBindFailed else StatusSystemError), resp_Body = Val EmptyB,
      resp_Action = ResponseImmediate\<rparr>"

text \<open>What the call of the handler gives, with a panic turned into an error, and the answer made of it.\<close>

definition callHandler :: "'v handlerOutcome \<Rightarrow> goerr + 'v Response" where
  "callHandler outcome =
     (case outcome of
        Returns response \<Rightarrow> Inr response
      | Raises err \<Rightarrow> Inl err
      | Panics v \<Rightarrow> Inl (PanicError ''session.Handler'' v))"

definition handlerResponse :: "'v handlerOutcome \<Rightarrow> 'v Response" where
  "handlerResponse outcome =
     (case callHandler outcome of
        Inr response \<Rightarrow> response
      | Inl _ \<Rightarrow> \<lparr>resp_Status = StatusSystemError, resp_Body = Val EmptyB, resp_Action = ResponseImmediate\<rparr>)"

definition beginInbound :: "CommandID \<Rightarrow> 'v Session \<Rightarrow> session_error option \<times> StateMachine" where
  "beginInbound command s =
     (let m = se_machine s; peerRole = peer (sm_role m); state = sm_state m in
      if IsStandardCommand command then BeginInbound m command
      else
        case Command (cf_Registry (se_config s)) command of
          Some def \<Rightarrow>
            if cd_AllowedStates def \<noteq> [] then
              if actorMatchesRole (cd_Actor def) peerRole \<and> AllowsState def state then (None, m)
              else (Some (StateError state command peerRole), m)
            else if isBoundState state then (None, m) else (Some (StateError state command peerRole), m)
        | None \<Rightarrow> if isBoundState state then (None, m) else (Some (StateError state command peerRole), m))"

definition registerDeferredReply :: "Header \<Rightarrow> 'v Session \<Rightarrow> session_error option \<times> 'v Session" where
  "registerDeferredReply request s =
     (if map_of (se_deferred s) (h_SequenceNumber request) \<noteq> None then (Some ErrDeferredResponseBusy, s)
      else if int (length (se_deferred s)) \<ge> cf_MaxDeferredResponses (se_config s) then (Some ErrDeferredResponseLimit, s)
      else (None, s\<lparr>se_deferred := (h_SequenceNumber request, False) # se_deferred s\<rparr>))"

text \<open>The capabilities the bound side learns from a bind request, and the version it adds to its response.\<close>

definition acceptBind :: "'v DecodedPDU \<Rightarrow> 'v Response \<Rightarrow> 'v Session \<Rightarrow> 'v Response \<times> 'v Session" where
  "acceptBind pdu response s =
     (if OK (resp_Status response) \<and> isBindRequest (h_CommandID (dp_Header pdu)) then
        (case dp_Body pdu of
           Val (BindRequestB bind) \<Rightarrow>
             (let profile = cf_Profile (se_config s); version = br_InterfaceVersion bind in
              (if version = InterfaceVersion34 \<or> version = InterfaceVersion50
               then response\<lparr>resp_Body := ensureSCInterfaceVersion (resp_Body response) (pf_InterfaceVersion profile)\<rparr>
               else response,
               s\<lparr>se_peerCaps := NegotiatePeerCapabilities profile version True\<rparr>))
         | _ \<Rightarrow> (response, s))
      else (response, s))"

definition sendAnswer :: "'v DecodedPDU \<Rightarrow> 'v Response \<Rightarrow> 'v Session \<Rightarrow> 'v rxOutcome \<times> 'v Session" where
  "sendAnswer pdu response s =
     (let h = dp_Header pdu; command = h_CommandID h;
          cont = (if isLifecycleRequest command then CancelAndReturn command else ReturnError);
          first = makeResponse h (ResponseID command) (resp_Status response) (resp_Body response) s;
          answer = (case first of Inl err \<Rightarrow> if isPanic err then makeGenericNACK h StatusSystemError s else first | Inr _ \<Rightarrow> first)
      in case answer of
           Inr item \<Rightarrow> (RxQueue item cont, s)
         | Inl err \<Rightarrow>
             (RxError err, if isLifecycleRequest command then s\<lparr>se_machine := CancelInbound (se_machine s) command\<rparr> else s))"

text \<open>The second half of \<^verbatim>\<open>handleRequest\<close>: what the session does with the answer.\<close>

definition answerRequest :: "'v DecodedPDU \<Rightarrow> 'v Response \<Rightarrow> 'v Session \<Rightarrow> 'v rxOutcome \<times> 'v Session" where
  "answerRequest pdu response s =
     (let h = dp_Header pdu; command = h_CommandID h in
      if resp_Action response \<noteq> ResponseImmediate then
        if command \<noteq> CommandDeliverSM then (RxError ErrInvalidResponseAction, s)
        else if resp_Action response = ResponseSuppress then (RxOk, s)
        else if resp_Action response = ResponseDeferred then
          (case registerDeferredReply h s of (None, s) \<Rightarrow> (RxOk, s) | (Some err, s) \<Rightarrow> (RxError err, s))
        else (RxError ErrInvalidResponseAction, s)
      else
        case acceptBind pdu response s of (response, s) \<Rightarrow> sendAnswer pdu response s)"

definition handleRequest :: "'v DecodedPDU \<Rightarrow> 'v Session \<Rightarrow> 'v rxOutcome \<times> 'v Session" where
  "handleRequest pdu s =
     (let h = dp_Header pdu; command = h_CommandID h in
      if \<not> ValidInbound (h_SequenceNumber h) then (queueOr (makeGenericNACK h StatusSystemError s) ReturnError, s)
      else if Command (cf_Registry (se_config s)) command = None
      then (queueOr (makeGenericNACK h StatusInvalidCommandID s) ReturnError, s)
      else if requiresSMPP50 command \<and> \<not> SupportsSMPP50 (se_peerCaps s)
      then (queueOr (makeGenericNACK h StatusInvalidCommandID s) ReturnError, s)
      else
        case beginInbound command s of
          (Some err, m) \<Rightarrow>
            (let s = s\<lparr>se_machine := m\<rparr> in
             if isOneWayCommand command then (queueOr (makeGenericNACK h StatusInvalidBindState s) ReturnError, s)
             else (queueOr (makeResponse h (ResponseID command) StatusInvalidBindState (Val EmptyB) s) ReturnError, s))
        | (None, m) \<Rightarrow>
            (let s = s\<lparr>se_machine := m\<rparr> in
             if isOneWayCommand command then (if cf_Handler (se_config s) then RxHandler pdu else RxOk, s)
             else if command = CommandEnquireLink \<or> command = CommandUnbind
             then answerRequest pdu \<lparr>resp_Status = 0, resp_Body = Val EmptyB, resp_Action = ResponseImmediate\<rparr> s
             else if \<not> cf_Handler (se_config s) then answerRequest pdu (noHandlerResponse command) s
             else (RxHandler pdu, s)))"

text \<open>The handler came back; what it says to a one-way command is only logged.\<close>

definition handlerReturned :: "'v DecodedPDU \<Rightarrow> 'v handlerOutcome \<Rightarrow> 'v Session \<Rightarrow> 'v rxOutcome \<times> 'v Session" where
  "handlerReturned pdu outcome s =
     (if isOneWayCommand (h_CommandID (dp_Header pdu)) then (RxOk, s) else answerRequest pdu (handlerResponse outcome) s)"

definition processFrame :: "bytes \<Rightarrow> int \<Rightarrow> 'v Session \<Rightarrow> 'v rxOutcome \<times> 'v Session" where
  "processFrame frame now s =
     (case DecodePDU frame (cf_Registry (se_config s)) of
        Inl err \<Rightarrow>
          if asFatal err \<noteq> None then (RxError (CodecError err), s)
          else
            (case DecodeHeader frame of
               Inl headerErr \<Rightarrow> (RxError (CodecError headerErr), s)
             | Inr header \<Rightarrow>
                 (let status = (case asSemantic err of
                      Some (SemanticError st _ _ _ _) \<Rightarrow> if st \<noteq> 0 then st else StatusInvalidMessageLength
                    | _ \<Rightarrow> StatusInvalidMessageLength)
                  in (queueOr (makeGenericNACK header status s) IgnoreError, s)))
      | Inr pdu \<Rightarrow>
          (let s = s\<lparr>se_lastActivity := now, se_lastInbound := now\<rparr> in
           if IsResponse (h_CommandID (dp_Header pdu)) then (RxOk, handleResponse pdu now s)
           else handleRequest pdu s))"

text \<open>The wait for room in the queue, and the end of the loop when the callback returned an error.\<close>

definition rxResume :: "txItem \<Rightarrow> rxCont \<Rightarrow> wakeup \<Rightarrow> 'v Session \<Rightarrow> ('v rxOutcome \<times> 'v Session) option" where
  "rxResume item cont wakeup s =
     (case wakeup of
        Ready \<Rightarrow> if queueHasRoom s then Some (RxOk, s\<lparr>se_tx := se_tx s @ [item]\<rparr>) else None
      | SessDone \<Rightarrow>
          if se_done s then
            Some (case cont of
                IgnoreError \<Rightarrow> (RxOk, s)
              | ReturnError \<Rightarrow> (RxError (requestCloseError s), s)
              | CancelAndReturn command \<Rightarrow>
                  (RxError (requestCloseError s), s\<lparr>se_machine := CancelInbound (se_machine s) command\<rparr>))
          else None
      | CtxDone e \<Rightarrow> None)"

section \<open>The transmitting side\<close>

definition txItemActive :: "'v Session \<Rightarrow> txItem \<Rightarrow> bool" where
  "txItemActive s item \<longleftrightarrow> ti_kind item \<noteq> txRequest \<or> pendingExists (ti_sequence item) (se_table s)"

definition txItemTerminatesAfterWrite :: "txItem \<Rightarrow> bool" where
  "txItemTerminatesAfterWrite item \<longleftrightarrow> ti_kind item = txResponse \<and> ti_responseTo item = CommandUnbind \<and> OK (ti_status item)"

definition commitResponse :: "txItem \<Rightarrow> StateMachine \<Rightarrow> StateMachine" where
  "commitResponse item m =
     (if ti_kind item = txResponse \<and> ti_responseTo item \<noteq> 0 then CompleteInbound m (ti_responseTo item) (ti_status item) else m)"

definition responseTimeoutFor :: "CommandID \<Rightarrow> 'v Config \<Rightarrow> Duration \<times> TimeoutKind" where
  "responseTimeoutFor command c =
     (if command = CommandEnquireLink then
        (if cf_EnquireLinkTimeout c > 0 then cf_EnquireLinkTimeout c else cf_ResponseTimeout c, TimeoutEnquireLink)
      else (cf_ResponseTimeout c, TimeoutResponse))"

definition sendDispatched :: "session_error option \<Rightarrow> txItem \<Rightarrow> 'v Session \<Rightarrow> 'v Session" where
  "sendDispatched err item s =
     (case ti_dispatched item of None \<Rightarrow> s | Some ch \<Rightarrow> s\<lparr>se_chans := (se_chans s)[ch := Some err]\<rparr>)"

text \<open>A request that was written: its times, and its deadline if it still waits for a response.\<close>

definition noteDispatch :: "int \<Rightarrow> txItem \<Rightarrow> 'v pendingTable \<Rightarrow> 'v pendingTable" where
  "noteDispatch now item t =
     (case ti_pending item of None \<Rightarrow> t | Some r \<Rightarrow> updRequest r (\<lambda>q. snd (markDispatchAt now q)) t)"

definition armDeadline :: "'v Config \<Rightarrow> int \<Rightarrow> txItem \<Rightarrow> 'v pendingTable \<Rightarrow> 'v pendingTable" where
  "armDeadline c now item t =
     (case markDispatched (ti_sequence item) t of
        None \<Rightarrow> t
      | Some (r, t) \<Rightarrow>
          (let (timeout, kind) = responseTimeoutFor (ti_requestID item) c;
               (deadline, m) = scheduleItemAt (pt_deadlines t) (requestSlot r) now timeout kind (ti_requestID item) (ti_sequence item)
           in attachDeadline r deadline (t\<lparr>pt_deadlines := m\<rparr>)))"

text \<open>
  Where the transmitting goroutine is: waiting for an item; filling the batch, with the locals \<open>batchBytes\<close> and
  \<open>terminal\<close>; committing the responses of the batch to the state machine, one by one; inside the write; going
  through the batch after the write, with the time of the write and the items left; returned.
\<close>

datatype txPhase =
    TxIdle
  | TxFill "txItem list" nat bool
  | TxCommit "txItem list" "txItem list"
  | TxWrite "txItem list"
  | TxNote int "txItem list"
  | TxEnd

text \<open>The next item of the queue, taken or, when its request is gone, dropped.\<close>

definition txTake :: "txItem \<Rightarrow> 'v Session \<Rightarrow> txPhase" where
  "txTake item s = (if txItemActive s item then TxFill [item] (length (ti_frame item)) (txItemTerminatesAfterWrite item) else TxIdle)"

definition txFill :: "txItem list \<Rightarrow> nat \<Rightarrow> bool \<Rightarrow> 'v Session \<Rightarrow> txPhase \<times> 'v Session" where
  "txFill batch batchBytes terminal s =
     (if \<not> terminal \<and> int (length batch) < cf_TXBatchItems (se_config s) \<and> int batchBytes < cf_TXBatchBytes (se_config s) then
        (case se_tx s of
           [] \<Rightarrow> (TxCommit batch batch, s)
         | item # queue \<Rightarrow>
             (if \<not> txItemActive s item then TxFill batch batchBytes terminal
              else TxFill (batch @ [item]) (batchBytes + length (ti_frame item)) (txItemTerminatesAfterWrite item),
              s\<lparr>se_tx := queue\<rparr>))
      else (TxCommit batch batch, s))"

definition afterWrite :: "int \<Rightarrow> txItem \<Rightarrow> txItem list \<Rightarrow> 'v Session \<Rightarrow> txPhase \<times> 'v Session" where
  "afterWrite now item batch s =
     (if ti_kind item = txRequest then
        let s = s\<lparr>se_table := noteDispatch now item (se_table s)\<rparr>;
            s = sendDispatched None item s
        in (TxNote now batch, s\<lparr>se_table := armDeadline (se_config s) now item (se_table s)\<rparr>)
      else
        let s = sendDispatched None item s in
        if txItemTerminatesAfterWrite item then (TxEnd, terminate ErrSessionClosed s) else (TxNote now batch, s))"

text \<open>
  One step of \<^verbatim>\<open>txLoop\<close>. \<open>result\<close> is the outcome of the write and \<open>now\<close> the time after it. Without an item to
  take the goroutine blocks, until the session is done. When there is an item and the session is done, \<^verbatim>\<open>select\<close> may take either
  branch; \<open>result\<close> also stands for its choice, and the goroutine returns when it is an error.
\<close>

definition txStep :: "int \<Rightarrow> session_error option \<Rightarrow> txPhase \<Rightarrow> 'v Session \<Rightarrow> (txPhase \<times> 'v Session) option" where
  "txStep now result phase s =
     (case phase of
        TxIdle \<Rightarrow>
          if se_done s \<and> (se_tx s = [] \<or> result \<noteq> None) then Some (TxEnd, s)
          else (case se_tx s of [] \<Rightarrow> None | item # queue \<Rightarrow> Some (txTake item s, s\<lparr>se_tx := queue\<rparr>))
      | TxFill batch batchBytes terminal \<Rightarrow> Some (txFill batch batchBytes terminal s)
      | TxCommit batch todo \<Rightarrow>
          Some (case todo of
              [] \<Rightarrow> (TxWrite batch, s)
            | item # todo \<Rightarrow> (TxCommit batch todo, s\<lparr>se_machine := commitResponse item (se_machine s)\<rparr>))
      | TxWrite batch \<Rightarrow>
          Some (case result of
              Some err \<Rightarrow> (TxEnd, terminate err (fold (sendDispatched (Some err)) batch s))
            | None \<Rightarrow> (TxNote now batch, s\<lparr>se_written := se_written s @ map ti_frame batch, se_lastActivity := now\<rparr>))
      | TxNote at todo \<Rightarrow> Some (case todo of [] \<Rightarrow> (TxIdle, s) | item # todo \<Rightarrow> afterWrite at item todo s)
      | TxEnd \<Rightarrow> None)"

section \<open>Deadlines and liveness\<close>

definition fireSessionInitDeadline :: "'v Session \<Rightarrow> 'v Session" where
  "fireSessionInitDeadline s =
     (if se_done s then s
      else if sm_state (se_machine s) \<noteq> StateOpen \<and> sm_state (se_machine s) \<noteq> StateOutbound then s
      else terminate (TimeoutError TimeoutSessionInit 0 0 (cf_SessionInitTimeout (se_config s))) s)"

definition fireInactivityDeadline :: "int \<Rightarrow> 'v Session \<Rightarrow> 'v Session" where
  "fireInactivityDeadline now s =
     (let limit = cf_InactivityTimeout (se_config s); idle = now - se_lastInbound s in
      if se_done s then s
      else if \<not> isBoundState (sm_state (se_machine s)) then scheduleSlot inactivityDeadline now limit TimeoutInactivity s
      else if idle < limit then scheduleSlot inactivityDeadline now (limit - idle) TimeoutInactivity s
      else terminate (TimeoutError TimeoutInactivity 0 0 limit) s)"

definition fireEnquireLinkDeadline :: "int \<Rightarrow> 'v Session \<Rightarrow> 'v Session" where
  "fireEnquireLinkDeadline now s =
     (let interval = cf_EnquireLinkInterval (se_config s); idle = now - se_lastActivity s in
      if se_done s then s
      else if \<not> isBoundState (sm_state (se_machine s)) then scheduleSlot enquireLinkDeadline now interval TimeoutEnquireLink s
      else if idle < interval then scheduleSlot enquireLinkDeadline now (interval - idle) TimeoutEnquireLink s
      else scheduleSlot enquireLinkDeadline now interval TimeoutEnquireLink (s\<lparr>se_probes := se_probes s + 1\<rparr>))"

definition expireDeadline :: "int \<Rightarrow> deadlineItem \<Rightarrow> 'v Session \<Rightarrow> 'v Session" where
  "expireDeadline now item s =
     (if di_ref item = sessionInitDeadline then fireSessionInitDeadline s
      else if di_ref item = inactivityDeadline then fireInactivityDeadline now s
      else if di_ref item = enquireLinkDeadline then fireEnquireLinkDeadline now s
      else
        case completeError (di_sequence item) (TimeoutError (di_kind item) (di_command item) (di_sequence item) (di_after item)) (se_table s) of
          None \<Rightarrow> s
        | Some (r, t) \<Rightarrow>
            s\<lparr>se_table := t, se_machine := CancelOutbound (se_machine s) (pr_requestID (pt_requests t ! r))\<rparr>)"

text \<open>The timer fired: everything due is taken from the heap and handled in order.\<close>

definition expireRound :: "int \<Rightarrow> 'v Session \<Rightarrow> 'v Session" where
  "expireRound now s =
     (case expireReady (pt_deadlines (se_table s)) now of
        (items, m) \<Rightarrow> fold (expireDeadline now) items (s\<lparr>se_table := (se_table s)\<lparr>pt_deadlines := m\<rparr>\<rparr>))"

section \<open>Deferred replies\<close>

definition respondStart :: "Header \<Rightarrow> 'v Response \<Rightarrow> 'v Session \<Rightarrow> 'v caller \<times> 'v Session" where
  "respondStart request response s =
     (if h_CommandID request \<noteq> CommandDeliverSM \<or> \<not> ValidInbound (h_SequenceNumber request) \<or> resp_Action response \<noteq> ResponseImmediate
      then (DReturned (Some ErrInvalidResponseAction), s)
      else if se_done s then (DReturned (Some (requestCloseError s)), s)
      else
        case map_of (se_deferred s) (h_SequenceNumber request) of
          None \<Rightarrow> (DReturned (Some ErrDeferredResponseUnknown), s)
        | Some True \<Rightarrow> (DReturned (Some ErrDeferredResponseBusy), s)
        | Some False \<Rightarrow>
            (case makeResponse request CommandDeliverSMResp (resp_Status response) (resp_Body response) s of
               Inl err \<Rightarrow> (DReturned (Some err), s)
             | Inr item \<Rightarrow>
                 (DQueue request item, s\<lparr>se_deferred := AList.update (h_SequenceNumber request) True (se_deferred s)\<rparr>)))"

definition respondQueue :: "Header \<Rightarrow> txItem \<Rightarrow> wakeup \<Rightarrow> 'v Session \<Rightarrow> ('v caller \<times> 'v Session) option" where
  "respondQueue request item wakeup s =
     (let sequence = h_SequenceNumber request in
      case wakeup of
        Ready \<Rightarrow>
          if queueHasRoom s
          then Some (DReturned None, s\<lparr>se_tx := se_tx s @ [item], se_deferred := AList.delete sequence (se_deferred s)\<rparr>) else None
      | SessDone \<Rightarrow>
          if se_done s
          then Some (DReturned (Some (requestCloseError s)),
            if map_of (se_deferred s) sequence \<noteq> None then s\<lparr>se_deferred := AList.update sequence False (se_deferred s)\<rparr> else s)
          else None
      | CtxDone e \<Rightarrow> None)"

definition AbandonDeferredResponse :: "Header \<Rightarrow> 'v Session \<Rightarrow> bool \<times> 'v Session" where
  "AbandonDeferredResponse request s =
     (if h_CommandID request \<noteq> CommandDeliverSM \<or> \<not> ValidInbound (h_SequenceNumber request) then (False, s)
      else
        case map_of (se_deferred s) (h_SequenceNumber request) of
          Some False \<Rightarrow> (True, s\<lparr>se_deferred := AList.delete (h_SequenceNumber request) (se_deferred s)\<rparr>)
        | _ \<Rightarrow> (False, s))"

section \<open>The typed operations\<close>

text \<open>What the operations of \<^verbatim>\<open>operations.go\<close> make of the result of their request.\<close>

definition responseError :: "'v DecodedPDU \<Rightarrow> session_error option" where
  "responseError pdu =
     (let h = dp_Header pdu in
      if h_CommandID h = CommandGenericNACK \<or> \<not> OK (h_CommandStatus h)
      then Some (ResponseError (h_CommandID h) (h_CommandStatus h) (h_SequenceNumber h)) else None)"

definition plainResult :: "'v requestResult \<Rightarrow> session_error option" where
  "plainResult result = (case result of Failed err \<Rightarrow> Some err | Answered pdu \<Rightarrow> responseError pdu)"

definition typedResult :: "('v body \<Rightarrow> 'b option) \<Rightarrow> 'v requestResult \<Rightarrow> session_error + 'b" where
  "typedResult sel result =
     (case result of
        Failed err \<Rightarrow> Inl err
      | Answered pdu \<Rightarrow>
          (case responseError pdu of
             Some err \<Rightarrow> Inl err
           | None \<Rightarrow> (case dp_Body pdu of
               Val b \<Rightarrow> (case sel b of Some v \<Rightarrow> Inr v | None \<Rightarrow> Inl ErrUnexpectedPDU)
             | _ \<Rightarrow> Inl ErrUnexpectedPDU)))"

definition bindResult :: "'v requestResult \<Rightarrow> session_error + BindResponse" where
  "bindResult = typedResult (\<lambda>b. case b of BindResponseB v \<Rightarrow> Some v | _ \<Rightarrow> None)"

definition SubmitSMResult :: "'v requestResult \<Rightarrow> session_error + SubmitSMResp" where
  "SubmitSMResult = typedResult (\<lambda>b. case b of SubmitSMRespB v \<Rightarrow> Some v | _ \<Rightarrow> None)"

definition DeliverSMResult :: "'v requestResult \<Rightarrow> session_error + DeliverSMResp" where
  "DeliverSMResult = typedResult (\<lambda>b. case b of DeliverSMRespB v \<Rightarrow> Some v | _ \<Rightarrow> None)"

definition DataSMResult :: "'v requestResult \<Rightarrow> session_error + DataSMResp" where
  "DataSMResult = typedResult (\<lambda>b. case b of DataSMRespB v \<Rightarrow> Some v | _ \<Rightarrow> None)"

definition SubmitMultiResult :: "'v requestResult \<Rightarrow> session_error + SubmitMultiResp" where
  "SubmitMultiResult = typedResult (\<lambda>b. case b of SubmitMultiRespB v \<Rightarrow> Some v | _ \<Rightarrow> None)"

definition QuerySMResult :: "'v requestResult \<Rightarrow> session_error + QuerySMResp" where
  "QuerySMResult = typedResult (\<lambda>b. case b of QuerySMRespB v \<Rightarrow> Some v | _ \<Rightarrow> None)"

definition BroadcastSMResult :: "'v requestResult \<Rightarrow> session_error + BroadcastSMResp" where
  "BroadcastSMResult = typedResult (\<lambda>b. case b of BroadcastSMRespB v \<Rightarrow> Some v | _ \<Rightarrow> None)"

definition QueryBroadcastSMResult :: "'v requestResult \<Rightarrow> session_error + QueryBroadcastSMResp" where
  "QueryBroadcastSMResult = typedResult (\<lambda>b. case b of QueryBroadcastSMRespB v \<Rightarrow> Some v | _ \<Rightarrow> None)"

end
