(* ===== verification/SessionRuns.thy ===== *)
theory SessionRuns
  imports Session "HOL-Library.Multiset"
begin

text \<open>
  Runs of a session: any number of concurrent callers, the receiving and the transmitting goroutine, the deadline
  goroutine and the peer, interleaved in any order. Each event is one step of one of them. The second half shows what the operations
  do to the table of pending requests.
\<close>

section \<open>The session with its callers\<close>

text \<open>
  All calls in progress (a probe of the liveness check is marked), and the state of the receiving goroutine:
  \<open>RxOk\<close> when it waits for a frame, \<open>RxHandler\<close> while the handler runs, \<open>RxError\<close> when it has ended; and the state of the
  transmitting goroutine.
\<close>

record 'v System =
  sy_session :: "'v Session"
  sy_callers :: "(bool \<times> 'v caller) list"
  sy_rx      :: "'v rxOutcome"
  sy_tx      :: txPhase

datatype 'v event =
    StartRequest CommandID "'v any" bool
  | StartOneWay CommandID "'v any"
  | StartDeferred Header "'v Response"
  | StartProbe
  | Abandon Header
  | CloseSession
  | Wake nat wakeup
  | Frame bytes int
  | HandlerReturns "'v handlerOutcome"
  | RxWake wakeup
  | ReadEnd session_error
  | Transmit int "session_error option"
  | Expire int

definition wakeWindow :: "CommandID \<Rightarrow> 'v any \<Rightarrow> wakeup \<Rightarrow> 'v Session \<Rightarrow> ('v caller \<times> 'v Session) option" where
  "wakeWindow command body wakeup s =
     (let w = pt_window (se_table s) in
      case wakeup of
        Ready \<Rightarrow> (case takeSlot w of None \<Rightarrow> None | Some _ \<Rightarrow> Some (requestAcquired command body (wakeAcquire w TokenFree) s))
      | CtxDone e \<Rightarrow> Some (requestAcquired command body (wakeAcquire w (ContextDone e)) s)
      | SessDone \<Rightarrow> if se_done s then Some (requestAcquired command body (wakeAcquire w SessionDone) s) else None)"

definition wakeCaller :: "'v caller \<Rightarrow> wakeup \<Rightarrow> 'v Session \<Rightarrow> ('v caller \<times> 'v Session) option" where
  "wakeCaller c wakeup s =
     (case c of
        CWindow command body \<Rightarrow> wakeWindow command body wakeup s
      | CBegun command body \<Rightarrow> if wakeup = Ready then Some (requestInsert command body s) else None
      | CQueue item r \<Rightarrow> requestQueue item r wakeup s
      | CResult command sequence r \<Rightarrow> requestWait command sequence r wakeup s
      | CWait r \<Rightarrow> if wakeup = Ready then waitCompleted r s else None
      | OQueue item ch \<Rightarrow> oneWayQueue item ch wakeup s
      | OWait ch \<Rightarrow> oneWayWait ch wakeup s
      | DQueue request item \<Rightarrow> respondQueue request item wakeup s
      | _ \<Rightarrow> None)"

text \<open>The probe ends the session unless it was answered or found the window full.\<close>

definition probeReturned :: "'v caller \<Rightarrow> 'v Session \<Rightarrow> 'v Session" where
  "probeReturned c s =
     (case c of
        CReturned result \<Rightarrow>
          (case plainResult result of
             Some err \<Rightarrow> if sessionIs err ErrWindowFull then s else terminate err s
           | None \<Rightarrow> s)
      | _ \<Rightarrow> s)"

definition addCaller :: "bool \<Rightarrow> 'v caller \<times> 'v Session \<Rightarrow> 'v System \<Rightarrow> 'v System" where
  "addCaller probe cs sy =
     (case cs of (c, s) \<Rightarrow>
       sy\<lparr>sy_session := (if probe then probeReturned c s else s), sy_callers := sy_callers sy @ [(probe, c)]\<rparr>)"

definition setRx :: "'v rxOutcome \<times> 'v Session \<Rightarrow> 'v System \<Rightarrow> 'v System" where
  "setRx rs sy =
     (case rs of (rx, s) \<Rightarrow>
       sy\<lparr>sy_rx := rx, sy_session := (case rx of RxError err \<Rightarrow> terminate err s | _ \<Rightarrow> s)\<rparr>)"

definition sysStep :: "'v event \<Rightarrow> 'v System \<Rightarrow> 'v System option" where
  "sysStep ev sy =
     (let s = sy_session sy in
      case ev of
        StartRequest command body waitWindow \<Rightarrow> Some (addCaller False (requestStart command body waitWindow s) sy)
      | StartOneWay command body \<Rightarrow> Some (addCaller False (oneWayStart command body s) sy)
      | StartDeferred request response \<Rightarrow> Some (addCaller False (respondStart request response s) sy)
      | StartProbe \<Rightarrow>
          if se_probes s = 0 then None
          else Some (addCaller True (requestStart CommandEnquireLink (Val EmptyB) False (s\<lparr>se_probes := se_probes s - 1\<rparr>)) sy)
      | Abandon request \<Rightarrow> Some (sy\<lparr>sy_session := snd (AbandonDeferredResponse request s)\<rparr>)
      | CloseSession \<Rightarrow> Some (sy\<lparr>sy_session := terminate ErrSessionClosed s\<rparr>)
      | Wake i wakeup \<Rightarrow>
          if i < length (sy_callers sy) then
            (case sy_callers sy ! i of (probe, c) \<Rightarrow>
               map_option (\<lambda>(c', s').
                 sy\<lparr>sy_session := (if probe then probeReturned c' s' else s'), sy_callers := (sy_callers sy)[i := (probe, c')]\<rparr>)
                 (wakeCaller c wakeup s))
          else None
      | Frame frame now \<Rightarrow> if sy_rx sy = RxOk then Some (setRx (processFrame frame now s) sy) else None
      | HandlerReturns outcome \<Rightarrow>
          (case sy_rx sy of RxHandler pdu \<Rightarrow> Some (setRx (handlerReturned pdu outcome s) sy) | _ \<Rightarrow> None)
      | RxWake wakeup \<Rightarrow>
          (case sy_rx sy of
             RxQueue item cont \<Rightarrow> map_option (\<lambda>rs. setRx rs sy) (rxResume item cont wakeup s)
           | _ \<Rightarrow> None)
      | ReadEnd err \<Rightarrow> if sy_rx sy = RxOk then Some (setRx (RxError err, s) sy) else None
      | Transmit now result \<Rightarrow> map_option (\<lambda>(phase, s'). sy\<lparr>sy_session := s', sy_tx := phase\<rparr>) (txStep now result (sy_tx sy) s)
      | Expire now \<Rightarrow> Some (sy\<lparr>sy_session := expireRound now s\<rparr>))"

text \<open>
  The frames of requests that were not written and noted yet: in the queue, with the transmitting goroutine, with a caller or
  with the receiving goroutine.
\<close>

definition callerItem :: "'v caller \<Rightarrow> txItem list" where
  "callerItem c = (case c of CQueue item _ \<Rightarrow> [item] | OQueue item _ \<Rightarrow> [item] | DQueue _ item \<Rightarrow> [item] | _ \<Rightarrow> [])"

definition rxItem :: "'v rxOutcome \<Rightarrow> txItem list" where
  "rxItem rx = (case rx of RxQueue item _ \<Rightarrow> [item] | _ \<Rightarrow> [])"

definition txItems :: "txPhase \<Rightarrow> txItem list" where
  "txItems phase =
     (case phase of
        TxFill batch _ _ \<Rightarrow> batch
      | TxCommit batch _ \<Rightarrow> batch
      | TxWrite batch \<Rightarrow> batch
      | TxNote _ todo \<Rightarrow> todo
      | _ \<Rightarrow> [])"

definition outstanding :: "'v System \<Rightarrow> txItem list" where
  "outstanding sy = filter (\<lambda>item. ti_kind item = txRequest)
     (se_tx (sy_session sy) @ txItems (sy_tx sy) @ concat (map (callerItem \<circ> snd) (sy_callers sy)) @ rxItem (sy_rx sy))"

text \<open>
  Runs of a session. A sequence number is not given out while a frame that carries it is still queued or being written: that would
  take all 2147483647 numbers to be drawn in the meantime.
\<close>

inductive sys_reachable :: "'v System \<Rightarrow> bool" where
  new: "New config now = Inr s \<Longrightarrow> cf_WindowSize config < 2 ^ 32 \<Longrightarrow> sys_reachable \<lparr>sy_session = s, sy_callers = [], sy_rx = RxOk, sy_tx = TxIdle\<rparr>"
| step: "sys_reachable sy \<Longrightarrow> sysStep ev sy = Some sy' \<Longrightarrow> distinct (map ti_sequence (outstanding sy')) \<Longrightarrow> sys_reachable sy'"

section \<open>What a step does to the table\<close>

text \<open>
  The request under a sequence number, if there is one, has no deadline yet: so it is until its frame is written.
\<close>

definition unarmed :: "'v pendingTable \<Rightarrow> SequenceNumber \<Rightarrow> bool" where
  "unarmed t sequence \<longleftrightarrow> (\<forall>r. map_of (pt_m t) sequence = Some r \<longrightarrow> pr_deadline (pt_requests t ! r) = None)"

text \<open>Results stay, deadlines are not armed; the second relation moreover adds no request and no deadline.\<close>

definition tame :: "'v pendingTable \<Rightarrow> 'v pendingTable \<Rightarrow> bool" where
  "tame t t' \<longleftrightarrow> length (pt_requests t) \<le> length (pt_requests t') \<and>
     (\<forall>r < length (pt_requests t). pr_done (pt_requests t ! r) \<noteq> [] \<longrightarrow> pr_done (pt_requests t' ! r) = pr_done (pt_requests t ! r)) \<and>
     (\<forall>sequence. unarmed t sequence \<longrightarrow> unarmed t' sequence)"

definition shrinks :: "'v pendingTable \<Rightarrow> 'v pendingTable \<Rightarrow> bool" where
  "shrinks t t' \<longleftrightarrow> tame t t' \<and> length (pt_requests t') = length (pt_requests t) \<and>
     set (dm_heap (pt_deadlines t')) \<subseteq> set (dm_heap (pt_deadlines t))"

lemma tame_trans: "\<lbrakk>tame t t'; tame t' t''\<rbrakk> \<Longrightarrow> tame t t''"
  unfolding tame_def by (auto dest: order_less_le_trans)

lemma shrinks_refl [simp]: "shrinks t t"
  by (simp add: shrinks_def tame_def)

lemma shrinks_trans: "\<lbrakk>shrinks t t'; shrinks t' t''\<rbrakk> \<Longrightarrow> shrinks t t''"
  unfolding shrinks_def using tame_trans by (metis order_trans)

lemma shrinks_tame: "shrinks t t' \<Longrightarrow> tame t t'"
  by (simp add: shrinks_def)

lemma tame_same: "\<lbrakk>pt_m t' = pt_m t; pt_requests t' = pt_requests t\<rbrakk> \<Longrightarrow> tame t t'"
  by (simp add: tame_def unarmed_def)

lemma updRequest_beyond: "\<not> r < length (pt_requests t) \<Longrightarrow> updRequest r f t = t"
  by (cases t) (simp add: updRequest_def not_less list_update_beyond)

lemma shrinks_upd:
  assumes "\<And>q. pr_deadline (f q) = pr_deadline q \<and> pr_done (f q) = pr_done q"
  shows "shrinks t (updRequest r f t)"
proof (cases "r < length (pt_requests t)")
  case True
  then show ?thesis using assms by (auto simp: shrinks_def tame_def unarmed_def updRequest_nth)
next
  case False
  then have "updRequest r f t = t" by (rule updRequest_beyond)
  then show ?thesis by simp
qed

lemma table_inv_upd:
  assumes "table_inv k F U t"
    and "\<And>q. pr_finished (f q) = pr_finished q \<and> pr_releaseWindow (f q) = pr_releaseWindow q \<and> pr_done (f q) = pr_done q \<and>
      pr_deadline (f q) = pr_deadline q"
  shows "table_inv k F U (updRequest r f t)"
proof (cases "r < length (pt_requests t)")
  case False
  then have "updRequest r f t = t" by (rule updRequest_beyond)
  then show ?thesis using assms(1) by simp
qed (use table_inv_neutral [OF assms(1) _ assms(2)] in blast)

lemma map_of_filter_key: "map_of (filter (\<lambda>e. fst e \<noteq> x) xs) y = (if y = x then None else map_of xs y)"
  by (induction xs) auto

lemma unarmed_finish:
  assumes "table_inv k F U t" "map_of (pt_m t) sequence = Some r" "unarmed t x"
  shows "unarmed (finish r (deleteEntry sequence t)) x"
proof -
  note f = finish_entry [OF assms(1,2)] and e = table_inv_entry [OF assms(1,2)]
  have "map_of (pt_m (finish r (deleteEntry sequence t))) x = (if x = sequence then None else map_of (pt_m t) x)" for x
    unfolding f(1) by (simp add: deleteEntry_def map_of_filter_key)
  then show ?thesis using assms(3) by (simp add: unarmed_def f(5))
qed

lemma unarmed_send: "unarmed (sendDone r result t) x = unarmed t x"
  by (cases "r < length (pt_requests t)") (auto simp: unarmed_def sendDone_def updRequest_nth updRequest_beyond)

lemma shrinks_complete:
  fixes result :: "'v requestResult"
  assumes "table_inv k F {} t" "map_of (pt_m t) sequence = Some r"
  shows "shrinks t (sendDone r result (finish r (deleteEntry sequence t)))"
proof -
  let ?t = "sendDone r result (finish r (deleteEntry sequence t))"
  note c = table_inv_complete [OF assms, of result]
  have "pr_done (pt_requests t ! r) = []" using table_inv_entry(1) [OF assms] by (simp add: entry_ok_def Let_def)
  then have "pr_done (pt_requests ?t ! s) = pr_done (pt_requests t ! s)" if "pr_done (pt_requests t ! s) \<noteq> []" for s
    using c(3) that by (cases "s = r") (simp_all add: answered_def)
  moreover have "unarmed t x \<Longrightarrow> unarmed ?t x" for x using unarmed_finish [OF assms] by (simp add: unarmed_send)
  ultimately show ?thesis using c(3,4) by (simp add: shrinks_def tame_def answered_def)
qed

lemma shrinks_failAll:
  assumes "table_inv k F {} t"
  shows "shrinks t (failAll err t)"
proof -
  note f = table_inv_failAll [OF assms, where err = err]
  have "pr_done (pt_requests t ! r) = []" if "r \<in> snd ` set (pt_m t)" for r
  proof -
    obtain x where "(x, r) \<in> set (pt_m t)" using \<open>r \<in> snd ` set (pt_m t)\<close> by auto
    then have "entry_ok F t (x, r)" using assms unfolding table_inv_def by blast
    then show ?thesis by (simp add: entry_ok_def Let_def)
  qed
  then show ?thesis using f by (auto simp: shrinks_def tame_def unarmed_def)
qed

section \<open>Steps that take requests out of the table\<close>

definition session_inv :: "nat \<Rightarrow> deadlineItem set \<Rightarrow> 'v Session \<Rightarrow> bool" where
  "session_inv k F s \<longleftrightarrow> table_inv k F {} (se_table s) \<and> sm_wf (se_machine s)"

definition keeps :: "deadlineItem set \<Rightarrow> 'v Session \<Rightarrow> 'v Session \<Rightarrow> bool" where
  "keeps F s s' \<longleftrightarrow> se_config s' = se_config s \<and> se_tx s' = se_tx s \<and>
     (\<forall>k. session_inv k F s \<longrightarrow> session_inv k F s' \<and> shrinks (se_table s) (se_table s'))"

lemma keeps_refl [simp]: "keeps F s s"
  by (simp add: keeps_def)

lemma keeps_trans: "\<lbrakk>keeps F s s'; keeps F s' s''\<rbrakk> \<Longrightarrow> keeps F s s''"
  unfolding keeps_def by (metis shrinks_trans)

lemma keeps_same:
  "\<lbrakk>se_config s' = se_config s; se_tx s' = se_tx s; se_table s' = se_table s; sm_wf (se_machine s) \<Longrightarrow> sm_wf (se_machine s')\<rbrakk> \<Longrightarrow> keeps F s s'"
  by (simp add: keeps_def session_inv_def)

lemma keeps_terminate: "keeps F s (terminate err s)"
  using sm_wf_op [of "se_machine s" OpClose] table_inv_failAll(1) shrinks_failAll
  by (auto simp: keeps_def terminate_def session_inv_def Let_def)

lemma keeps_complete:
  assumes "completeError sequence err (se_table s) = Some (r, t)" "sm_wf (se_machine s) \<Longrightarrow> sm_wf m"
  shows "keeps F s (s\<lparr>se_table := t, se_machine := m\<rparr>)"
proof -
  note c = completeError_forms [OF assms(1)]
  have "table_inv k F {} t \<and> shrinks (se_table s) t" if "table_inv k F {} (se_table s)" for k
    using table_inv_complete(1) [OF that c(1)] shrinks_complete [OF that c(1)] c(2) by simp
  then show ?thesis using assms(2) unfolding keeps_def session_inv_def by auto
qed

lemma claim_neutral:
  "pr_finished (snd (claimRTT q)) = pr_finished q \<and> pr_releaseWindow (snd (claimRTT q)) = pr_releaseWindow q \<and>
   pr_done (snd (claimRTT q)) = pr_done q \<and> pr_deadline (snd (claimRTT q)) = pr_deadline q \<and>
   pr_requestID (snd (claimRTT q)) = pr_requestID q"
  by (simp add: claimRTT_def Let_def)

lemma learnCapabilities_form: "\<exists>caps. learnCapabilities q pdu s = s\<lparr>se_peerCaps := caps\<rparr>"
proof -
  have same: "\<exists>caps. s = s\<lparr>se_peerCaps := caps\<rparr>" by (rule exI [of _ "se_peerCaps s"]) (cases s, simp)
  have b: "\<exists>caps. (case b of BindResponseB body \<Rightarrow> s\<lparr>se_peerCaps := g body\<rparr> | _ \<Rightarrow> s) = s\<lparr>se_peerCaps := caps\<rparr>" for b :: "'a body" and g
    using same by (cases b) auto
  show ?thesis unfolding learnCapabilities_def Let_def prod.case_distrib [of "\<lambda>c. s\<lparr>se_peerCaps := c\<rparr>", symmetric]
    using same b by (simp split: any.split)
qed

lemma observeCongestion_form: "\<exists>cong. observeCongestion pdu s = s\<lparr>se_congestion := cong\<rparr>"
proof -
  have "\<exists>cong. s = s\<lparr>se_congestion := cong\<rparr>" by (rule exI [of _ "se_congestion s"]) (cases s, simp)
  then show ?thesis unfolding observeCongestion_def by (auto split: prod.split)
qed

text \<open>A response takes its request out of the table and is its result.\<close>

lemma handleResponse_table:
  fixes now :: int
  assumes "takeResponse (h_SequenceNumber (dp_Header pdu)) (h_CommandID (dp_Header pdu)) (se_table s) = Some (r, t)"
    "table_inv k F {} (se_table s)"
  defines "t' \<equiv> sendDone r (Answered pdu) (updRequest r (\<lambda>q. snd (markResponseAt now (h_CommandID (dp_Header pdu)) (h_CommandStatus (dp_Header pdu)) q)) t)"
  shows "table_inv k F {} t'" "shrinks (se_table s) t'" "pr_done (pt_requests t' ! r) = [Answered pdu]"
proof -
  let ?f = "\<lambda>q. snd (markResponseAt now (h_CommandID (dp_Header pdu)) (h_CommandStatus (dp_Header pdu)) q)"
  let ?c = "sendDone r (Answered pdu) t"
  note tk = takeResponse_forms [OF assms(1)]
  note e = table_inv_entry [OF assms(2) tk(1)] and c = table_inv_complete [OF assms(2) tk(1), of "Answered pdu", folded tk(2)]
  have f: "pr_finished (?f q) = pr_finished q \<and> pr_releaseWindow (?f q) = pr_releaseWindow q \<and> pr_done (?f q) = pr_done q \<and>
      pr_deadline (?f q) = pr_deadline q" for q :: "'a pendingRequest"
    by (simp add: markResponseAt_def claim_neutral)
  have comm: "?f (q\<lparr>pr_done := x\<rparr>) = (?f q)\<lparr>pr_done := x\<rparr>" for q :: "'a pendingRequest" and x
    by (simp add: markResponseAt_def claimRTT_def Let_def)
  have r: "r < length (pt_requests t)" using e(2) finish_entry(4) [OF assms(2) tk(1)] unfolding tk(2) by linarith
  have swap: "t' = updRequest r ?f ?c"
    unfolding t'_def sendDone_def updRequest_def using r by (simp add: comm f)
  show "table_inv k F {} t'" unfolding swap by (rule table_inv_upd [OF c(1)]) (rule f)
  show "shrinks (se_table s) t'" unfolding swap
    by (rule shrinks_trans [OF shrinks_complete [OF assms(2) tk(1), of "Answered pdu", folded tk(2)] shrinks_upd]) (simp add: f)
  have "r < length (pt_requests ?c)" using e(2) c(3) by (simp add: answered_def)
  then show "pr_done (pt_requests t' ! r) = [Answered pdu]" using c(3) f by (simp add: swap updRequest_nth answered_def)
qed

lemma handleResponse_forms:
  assumes "takeResponse (h_SequenceNumber (dp_Header pdu)) (h_CommandID (dp_Header pdu)) (se_table s) = Some (r, t)"
  obtains caps cong id where
    "id = pr_requestID (pt_requests (updRequest r (\<lambda>q. snd (markResponseAt now (h_CommandID (dp_Header pdu)) (h_CommandStatus (dp_Header pdu)) q)) t) ! r)"
    "handleResponse pdu now s =
      (let s' = s\<lparr>se_machine := CompleteOutbound (se_machine s) id (h_CommandStatus (dp_Header pdu)), se_peerCaps := caps, se_congestion := cong,
           se_table := sendDone r (Answered pdu)
             (updRequest r (\<lambda>q. snd (markResponseAt now (h_CommandID (dp_Header pdu)) (h_CommandStatus (dp_Header pdu)) q)) t)\<rparr> in
       if id = CommandUnbind \<and> OK (h_CommandStatus (dp_Header pdu)) then terminate ErrSessionClosed s' else s')"
proof -
  let ?h = "dp_Header pdu"
  let ?t1 = "updRequest r (\<lambda>q. snd (markResponseAt now (h_CommandID ?h) (h_CommandStatus ?h) q)) t"
  let ?m = "CompleteOutbound (se_machine s) (pr_requestID (pt_requests ?t1 ! r)) (h_CommandStatus ?h)"
  obtain caps where caps: "learnCapabilities (pt_requests ?t1 ! r) pdu (s\<lparr>se_table := ?t1, se_machine := ?m\<rparr>) =
      s\<lparr>se_table := ?t1, se_machine := ?m, se_peerCaps := caps\<rparr>" using learnCapabilities_form by blast
  obtain cong where cong: "observeCongestion pdu (s\<lparr>se_table := ?t1, se_machine := ?m, se_peerCaps := caps\<rparr>) =
      s\<lparr>se_table := ?t1, se_machine := ?m, se_peerCaps := caps, se_congestion := cong\<rparr>" using observeCongestion_form by blast
  let ?s = "s\<lparr>se_table := ?t1, se_machine := ?m, se_peerCaps := caps, se_congestion := cong\<rparr>"
  have eq: "?s\<lparr>se_table := sendDone r (Answered pdu) (se_table ?s)\<rparr> =
      s\<lparr>se_machine := ?m, se_peerCaps := caps, se_congestion := cong, se_table := sendDone r (Answered pdu) ?t1\<rparr>" by (cases s) simp
  show thesis
    using that [OF refl, where caps = caps and cong = cong]
    unfolding handleResponse_def Let_def assms(1) option.case prod.case caps cong eq by simp
qed

lemma keeps_handleResponse: "keeps F s (handleResponse pdu now s)"
proof (cases "takeResponse (h_SequenceNumber (dp_Header pdu)) (h_CommandID (dp_Header pdu)) (se_table s)")
  case None
  then show ?thesis by (simp add: handleResponse_def Let_def)
next
  case (Some rt)
  then obtain r t where tk: "takeResponse (h_SequenceNumber (dp_Header pdu)) (h_CommandID (dp_Header pdu)) (se_table s) = Some (r, t)"
    by (cases rt) simp
  let ?t = "sendDone r (Answered pdu) (updRequest r (\<lambda>q. snd (markResponseAt now (h_CommandID (dp_Header pdu)) (h_CommandStatus (dp_Header pdu)) q)) t)"
  have k: "keeps F s (s\<lparr>se_machine := CompleteOutbound (se_machine s) id st, se_peerCaps := caps, se_congestion := cong, se_table := ?t\<rparr>)"
    for id st caps cong
    using handleResponse_table [OF tk] sm_wf_Complete(1) [of "se_machine s" id st] by (auto simp: keeps_def session_inv_def)
  show ?thesis
    by (rule handleResponse_forms [OF tk, of now]) (simp only: Let_def k keeps_trans [OF k keeps_terminate] split: if_split, simp)
qed

end
