(* ===== verification/RunInvariant.thy ===== *)
theory RunInvariant
  imports SessionRuns "HOL-Library.Sublist"
begin

text \<open>
  The invariant of the runs of a session: what the steps of the callers, of the receiving, the transmitting and the deadline
  goroutine do to the table of pending requests, its window and its deadlines, and that every step keeps
  the invariant and the results already sent.
\<close>

section \<open>Steps of the callers\<close>

definition slot :: "'v caller \<Rightarrow> nat" where
  "slot c = (case c of CBegun _ _ \<Rightarrow> 1 | _ \<Rightarrow> 0)"

definition callerRefs :: "'v caller \<Rightarrow> nat set" where
  "callerRefs c = (case c of CQueue _ r \<Rightarrow> {r} | CResult _ _ r \<Rightarrow> {r} | CWait r \<Rightarrow> {r} | _ \<Rightarrow> {})"

text \<open>
  A caller goes on: with its slot of the window the invariant is kept, and a request frame it brings up belongs to a
  request whose deadline is not armed.
\<close>

definition calls :: "'v caller \<Rightarrow> 'v caller \<Rightarrow> 'v Session \<Rightarrow> 'v Session \<Rightarrow> bool" where
  "calls c c' s s' \<longleftrightarrow> (\<forall>k. session_inv (k + slot c) {} s \<longrightarrow>
     session_inv (k + slot c') {} s' \<and> tame (se_table s) (se_table s') \<and>
     (\<forall>item \<in> set (se_tx s' @ callerItem c'). ti_kind item = txRequest \<longrightarrow>
        item \<in> set (se_tx s @ callerItem c) \<or> unarmed (se_table s') (ti_sequence item)) \<and>
     (\<forall>r \<in> callerRefs c'. r \<in> callerRefs c \<or> r < length (pt_requests (se_table s'))))"

lemma callsI:
  assumes "\<And>k. session_inv (k + slot c) {} s \<Longrightarrow> session_inv (k + slot c') {} s' \<and> tame (se_table s) (se_table s')"
    and "\<And>item. \<lbrakk>item \<in> set (se_tx s') \<union> set (callerItem c'); ti_kind item = txRequest\<rbrakk> \<Longrightarrow>
      item \<in> set (se_tx s) \<union> set (callerItem c) \<or> unarmed (se_table s') (ti_sequence item)"
    and "\<And>r. r \<in> callerRefs c' \<Longrightarrow> r \<in> callerRefs c \<or> r < length (pt_requests (se_table s'))"
  shows "calls c c' s s'"
  unfolding calls_def using assms by auto

lemma calls_keeps:
  assumes "keeps {} s s'" "slot c' = slot c" "set (callerItem c') \<subseteq> set (callerItem c)" "callerRefs c' \<subseteq> callerRefs c"
  shows "calls c c' s s'"
  using assms by (intro callsI) (auto simp: keeps_def shrinks_def)

lemma calls_then:
  assumes "calls c c' s s'" "keeps {} s' s''"
  shows "calls c c' s s''"
  unfolding calls_def
proof (intro allI impI)
  fix k assume inv: "session_inv (k + slot c) {} s"
  then have c: "session_inv (k + slot c') {} s'" "tame (se_table s) (se_table s')"
    "\<forall>item \<in> set (se_tx s' @ callerItem c'). ti_kind item = txRequest \<longrightarrow>
        item \<in> set (se_tx s @ callerItem c) \<or> unarmed (se_table s') (ti_sequence item)"
    "\<forall>r \<in> callerRefs c'. r \<in> callerRefs c \<or> r < length (pt_requests (se_table s'))"
    using assms(1) unfolding calls_def by blast+
  then have k: "session_inv (k + slot c') {} s''" "shrinks (se_table s') (se_table s'')" "se_tx s'' = se_tx s'"
    using assms(2) unfolding keeps_def by blast+
  have t: "tame (se_table s') (se_table s'')" using shrinks_tame [OF k(2)] .
  show "session_inv (k + slot c') {} s'' \<and> tame (se_table s) (se_table s'') \<and>
     (\<forall>item \<in> set (se_tx s'' @ callerItem c'). ti_kind item = txRequest \<longrightarrow>
        item \<in> set (se_tx s @ callerItem c) \<or> unarmed (se_table s'') (ti_sequence item)) \<and>
     (\<forall>r \<in> callerRefs c'. r \<in> callerRefs c \<or> r < length (pt_requests (se_table s'')))"
    using k(1) tame_trans [OF c(2) t] c(3,4) t unfolding k(3) tame_def by (meson order_less_le_trans)
qed

text \<open>The window.\<close>

lemma session_inv_window:
  assumes "session_inv k F s" "window_inv w" "rw_tokens w + k = rw_tokens (pt_window (se_table s)) + k'"
  shows "session_inv k' F (setWindow w s)" "tame (se_table s) (se_table (setWindow w s))"
  using assms table_inv_window [of k F "{}" "se_table s" w k'] by (simp_all add: session_inv_def setWindow_def tame_same)

lemma session_inv_machine:
  "\<lbrakk>session_inv k F s; sm_wf (se_machine s) \<Longrightarrow> sm_wf m\<rbrakk> \<Longrightarrow> session_inv k F (s\<lparr>se_machine := m\<rparr>)"
  by (simp add: session_inv_def)

lemma session_inv_release:
  assumes "session_inv (Suc k) F s"
  shows "session_inv k F (releaseSlot s)" "tame (se_table s) (se_table (releaseSlot s))"
proof -
  have w: "window_inv (pt_window (se_table s))" "0 < rw_tokens (pt_window (se_table s))"
    using assms by (simp_all add: session_inv_def table_inv_def)
  note r = window_inv_release_slot [OF w]
  have "rw_tokens (snd (release (pt_window (se_table s)))) + Suc k = rw_tokens (pt_window (se_table s)) + k" using r(2) w(2) by simp
  then show "session_inv k F (releaseSlot s)" "tame (se_table s) (se_table (releaseSlot s))"
    unfolding releaseSlot_def using session_inv_window [OF assms r(1)] by blast+
qed

definition admission_ok :: "requestWindow \<Rightarrow> admission \<Rightarrow> bool" where
  "admission_ok w a \<longleftrightarrow>
     (case a of
        Admitted w' \<Rightarrow> window_inv w' \<and> rw_tokens w' = Suc (rw_tokens w)
      | Refused _ w' \<Rightarrow> window_inv w' \<and> rw_tokens w' = rw_tokens w
      | Blocked w' \<Rightarrow> window_inv w' \<and> rw_tokens w' = rw_tokens w)"

lemma acquire_ok:
  assumes "window_inv w"
  shows "admission_ok w (acquire w wait)" "admission_ok w (wakeAcquire w event)"
proof -
  have eq: "window_inv (w\<lparr>rw_waits := n\<rparr>) = window_inv w" for n by (simp add: window_inv_def)
  have waits: "admission_ok w (Blocked (w\<lparr>rw_waits := n\<rparr>))" for n unfolding admission_ok_def admission.case eq using assms by simp
  have same: "admission_ok w (Blocked w)" "admission_ok w (Refused e w)" for e using assms by (simp_all add: admission_ok_def)
  have took: "admission_ok w (Admitted w')" if "takeSlot w = Some w'" for w'
    using window_inv_takeSlot [OF assms that] by (simp add: admission_ok_def)
  show "admission_ok w (acquire w wait)"
    unfolding acquire_def by (cases "takeSlot w") (simp_all only: option.case took waits same split: if_split, simp)
  show "admission_ok w (wakeAcquire w event)"
    unfolding wakeAcquire_def by (cases "takeSlot w"; cases event) (simp_all only: option.case wake.case took same)
qed

text \<open>The states of a call that hold no frame and no request.\<close>

lemma caller_simps [simp]:
  "slot (CWindow command body) = 0" "slot (CBegun command body) = 1" "slot (CQueue item r) = 0" "slot (CResult command sequence r) = 0"
  "slot (CWait r) = 0" "slot (CReturned result) = 0" "slot (OQueue item ch) = 0" "slot (OWait ch) = 0" "slot (OReturned e) = 0"
  "slot (DQueue h item) = 0" "slot (DReturned e) = 0"
  "callerItem (CWindow command body) = []" "callerItem (CBegun command body) = []" "callerItem (CQueue item r) = [item]"
  "callerItem (CResult command sequence r) = []" "callerItem (CWait r) = []" "callerItem (CReturned result) = []"
  "callerItem (OQueue item ch) = [item]" "callerItem (OWait ch) = []" "callerItem (OReturned e) = []"
  "callerItem (DQueue h item) = [item]" "callerItem (DReturned e) = []"
  "callerRefs (CWindow command body) = {}" "callerRefs (CBegun command body) = {}" "callerRefs (CQueue item r) = {r}"
  "callerRefs (CResult command sequence r) = {r}" "callerRefs (CWait r) = {r}" "callerRefs (CReturned result) = {}"
  "callerRefs (OQueue item ch) = {}" "callerRefs (OWait ch) = {}" "callerRefs (OReturned e) = {}"
  "callerRefs (DQueue h item) = {}" "callerRefs (DReturned e) = {}"
  by (simp_all add: slot_def callerItem_def callerRefs_def)

lemma setWindow_sel [simp]:
  "se_tx (setWindow w s) = se_tx s" "se_machine (setWindow w s) = se_machine s" "se_config (setWindow w s) = se_config s"
  "se_tx (releaseSlot s) = se_tx s" "se_machine (releaseSlot s) = se_machine s" "se_config (releaseSlot s) = se_config s"
  by (simp_all add: setWindow_def releaseSlot_def)

definition quiet :: "'v caller \<Rightarrow> bool" where
  "quiet c \<longleftrightarrow> callerItem c = [] \<and> callerRefs c = {}"

lemma requestBegin_ok:
  assumes "session_inv (Suc k) {} s" "requestBegin command body s = (c, s')"
  shows "session_inv (k + slot c) {} s'" "tame (se_table s) (se_table s')" "se_tx s' = se_tx s" "quiet c"
proof -
  obtain e m where b: "BeginOutbound (se_machine s) command = (e, m)" by fastforce
  then have inv: "session_inv (Suc k) {} (s\<lparr>se_machine := m\<rparr>)"
    using sm_wf_BeginOutbound [of "se_machine s" command] by (intro session_inv_machine [OF assms(1)]) simp
  show "session_inv (k + slot c) {} s'" "tame (se_table s) (se_table s')" "se_tx s' = se_tx s" "quiet c"
    using assms(2) b inv session_inv_release [OF inv] by (auto simp: requestBegin_def quiet_def tame_same split: option.splits)
qed

lemma requestAcquired_calls:
  assumes "\<And>k. session_inv k {} s \<Longrightarrow> admission_ok (pt_window (se_table s)) a"
    and "slot c0 = 0" "requestAcquired command body a s = (c, s')"
  shows "calls c0 c s s'"
proof -
  have main: "session_inv (k + slot c) {} s' \<and> tame (se_table s) (se_table s') \<and> se_tx s' = se_tx s \<and> quiet c" if inv: "session_inv k {} s" for k
  proof (cases a)
    case (Admitted w)
    then have w: "session_inv (Suc k) {} (setWindow w s)" "tame (se_table s) (se_table (setWindow w s))"
      using session_inv_window [OF inv, of w "Suc k"] assms(1) [OF inv] by (simp_all add: admission_ok_def)
    have "requestBegin command body (setWindow w s) = (c, s')" using assms(3) Admitted by (simp add: requestAcquired_def)
    then show ?thesis using requestBegin_ok [OF w(1)] tame_trans [OF w(2)] by simp
  next
    case (Refused e w)
    then have "session_inv k {} (setWindow w s)" "tame (se_table s) (se_table (setWindow w s))"
      using session_inv_window [OF inv, of w k] assms(1) [OF inv] by (simp_all add: admission_ok_def)
    then show ?thesis using assms(3) Refused by (auto simp: requestAcquired_def quiet_def)
  next
    case (Blocked w)
    then have "session_inv k {} (setWindow w s)" "tame (se_table s) (se_table (setWindow w s))"
      using session_inv_window [OF inv, of w k] assms(1) [OF inv] by (simp_all add: admission_ok_def)
    then show ?thesis using assms(3) Blocked by (auto simp: requestAcquired_def quiet_def)
  qed
  then show ?thesis unfolding calls_def assms(2) quiet_def by auto
qed

lemma requestStart_calls:
  assumes "requestStart command body waitWindow s = (c, s')" "slot c0 = 0"
  shows "calls c0 c s s'"
proof (cases "requestChecks command body s")
  case None
  have "admission_ok (pt_window (se_table s)) (acquire (pt_window (se_table s)) waitWindow)" if "session_inv k {} s" for k
    using that acquire_ok(1) by (simp add: session_inv_def table_inv_def)
  moreover have "requestAcquired command body (acquire (pt_window (se_table s)) waitWindow) s = (c, s')"
    using assms(1) None by (simp add: requestStart_def)
  ultimately show ?thesis by (rule requestAcquired_calls [OF _ assms(2)])
next
  case (Some e)
  then show ?thesis using assms by (intro calls_keeps) (auto simp: requestStart_def)
qed

lemma wakeWindow_calls:
  assumes "wakeWindow command body w s = Some (c, s')" "slot c0 = 0"
  shows "calls c0 c s s'"
proof -
  obtain e where e: "requestAcquired command body (wakeAcquire (pt_window (se_table s)) e) s = (c, s')"
    using assms(1) by (auto simp: wakeWindow_def Let_def split: wakeup.splits option.splits if_splits)
  have "admission_ok (pt_window (se_table s)) (wakeAcquire (pt_window (se_table s)) e)" if "session_inv k {} s" for k
    using that acquire_ok(2) by (simp add: session_inv_def table_inv_def)
  then show ?thesis by (rule requestAcquired_calls [OF _ assms(2) e])
qed

text \<open>The insertion.\<close>

lemma insertLoop_ok:
  "insertLoop attempts sq q t = (Inr (sequence, t'), sq') \<Longrightarrow> insertRequest sequence q t = Inr t'"
  by (induction attempts arbitrary: sq) (auto simp: Let_def split: sum.splits if_splits)

lemma insertRequest_tame:
  assumes "insertRequest sequence q t = Inr t'" "pr_deadline q = None"
    and range: "\<And>x y. map_of (pt_m t) x = Some y \<Longrightarrow> y < length (pt_requests t)"
  shows "tame t t'" "unarmed t' sequence" "map_of (pt_m t') sequence = Some (length (pt_requests t))"
    "length (pt_requests t') = Suc (length (pt_requests t))"
proof -
  have *: "map_of (pt_m t) sequence = None"
    "t' = t\<lparr>pt_m := pt_m t @ [(sequence, length (pt_requests t))], pt_requests := pt_requests t @ [q]\<rparr>"
    using assms(1) by (auto simp: insertRequest_def split: if_splits)
  have m: "map_of (pt_m t') x = (if x = sequence then Some (length (pt_requests t)) else map_of (pt_m t) x)" for x
    using * by (auto simp: map_of_append map_add_def split: option.split)
  show "tame t t'" using range m assms(2) unfolding tame_def unarmed_def by (simp add: *(2) nth_append)
  show "unarmed t' sequence" using m assms(2) by (simp add: unarmed_def *(2))
  show "map_of (pt_m t') sequence = Some (length (pt_requests t))" "length (pt_requests t') = Suc (length (pt_requests t))"
    using m by (simp_all add: *(2))
qed

lemma newRequest_sel [simp]:
  "pr_finished (newRequest command body) = False" "pr_releaseWindow (newRequest command body) = True"
  "pr_done (newRequest command body) = []" "pr_deadline (newRequest command body) = None"
  by (simp_all add: newRequest_def)

lemma table_inv_range: "table_inv k F U t \<Longrightarrow> map_of (pt_m t) x = Some y \<Longrightarrow> y < length (pt_requests t)"
  using table_inv_entry(2) by blast

lemma requestInsert_calls:
  assumes "requestInsert command body s = (c, s')"
  shows "calls (CBegun command body) c s s'"
proof -
  let ?t = "se_table s" and ?q = "newRequest command body"
  obtain result sq where l: "insertLoop (nat (cf_MaxPending (se_config s) + 1)) (se_seq s) ?q ?t = (result, sq)" by fastforce
  show ?thesis
  proof (cases result)
    case (Inl err)
    then have c: "c = CReturned (Failed err)" "s' = releaseSlot (s\<lparr>se_seq := sq, se_machine := CancelOutbound (se_machine s) command\<rparr>)"
      using assms l by (simp_all add: requestInsert_def Let_def)
    have "session_inv (Suc k) {} (s\<lparr>se_seq := sq, se_machine := CancelOutbound (se_machine s) command\<rparr>)" if "session_inv (Suc k) {} s" for k
      using that sm_wf_Cancel(1) by (simp add: session_inv_def)
    then show ?thesis using session_inv_release unfolding c by (intro callsI) fastforce+
  next
    case (Inr st)
    then obtain sequence t where i: "insertRequest sequence ?q ?t = Inr t" "result = Inr (sequence, t)"
      using insertLoop_ok l by (cases st) blast
    have t: "table_inv k {} {} t" "tame ?t t" "unarmed t sequence" "length (pt_requests t) = Suc (length (pt_requests ?t))"
      if "session_inv (Suc k) {} s" for k
    proof -
      have inv: "table_inv (Suc k) {} {} ?t" using that by (simp add: session_inv_def)
      show "table_inv k {} {} t" using table_inv_insert [OF inv i(1)] by simp
      show "tame ?t t" "unarmed t sequence" "length (pt_requests t) = Suc (length (pt_requests ?t))"
        using insertRequest_tame [OF i(1)] table_inv_range [OF inv] by simp_all
    qed
    show ?thesis
    proof (cases "EncodePDU [] (requestHeader command sequence) body (cf_Registry (se_config s))")
      case (Inr frame)
      then have c: "c = CQueue (requestItem command sequence frame (length (pt_requests ?t))) (length (pt_requests ?t))"
        "s' = s\<lparr>se_seq := sq, se_table := t\<rparr>" using assms l i(2) by (simp_all add: requestInsert_def Let_def)
      show ?thesis unfolding calls_def c using t by (auto simp: session_inv_def requestItem_def)
    next
      case (Inl err)
      let ?s = "s\<lparr>se_seq := sq, se_table := t\<rparr>"
      have c: "c = CReturned (Failed (CodecError err))"
        "s' = ?s\<lparr>se_table := (case completeError sequence (CodecError err) t of Some (_, t') \<Rightarrow> t' | None \<Rightarrow> t),
            se_machine := CancelOutbound (se_machine s) command\<rparr>"
        using assms l i(2) Inl by (cases s, simp add: requestInsert_def Let_def)+
      have k: "keeps {} ?s s'"
      proof (cases "completeError sequence (CodecError err) (se_table ?s)")
        case None
        then show ?thesis using sm_wf_Cancel(1) unfolding c(2) by (intro keeps_same) simp_all
      next
        case (Some rt)
        then obtain r t' where ce: "completeError sequence (CodecError err) (se_table ?s) = Some (r, t')" by (cases rt) simp
        show ?thesis unfolding c(2)
          using keeps_complete [OF ce, where F = "{}" and m = "CancelOutbound (se_machine s) command"] sm_wf_Cancel(1) ce by simp
      qed
      have "calls (CBegun command body) c s ?s" unfolding calls_def c(1) using t by (auto simp: session_inv_def)
      then show ?thesis using calls_then k by blast
    qed
  qed
qed

text \<open>The waits of a request, one-way calls and deferred replies.\<close>

lemma complete_calls:
  assumes "completeError sequence err (se_table s) = Some (r, t)" "slot c = 0"
  shows "calls c (CReturned (Failed err')) s (s\<lparr>se_table := t, se_machine := CancelOutbound (se_machine s) command\<rparr>)"
  using keeps_complete [OF assms(1) sm_wf_Cancel(1)] assms(2) by (intro calls_keeps) simp_all

lemma requestQueue_calls:
  assumes "requestQueue item r w s = Some (c, s')"
  shows "calls (CQueue item r) c s s'"
  using assms complete_calls [of "ti_sequence item" _ s _ _ "CQueue item r"]
  by (auto simp: requestQueue_def calls_def session_inv_def tame_same split: wakeup.splits if_splits option.splits)

lemma requestWait_calls:
  assumes "requestWait command sequence r w s = Some (c, s')"
  shows "calls (CResult command sequence r) c s s'"
  using assms complete_calls [of sequence _ s _ _ "CResult command sequence r"]
  by (auto simp: requestWait_def waitCompleted_def calls_def session_inv_def tame_same split: wakeup.splits if_splits option.splits list.splits)

lemma waitCompleted_calls:
  assumes "waitCompleted r s = Some (c, s')"
  shows "calls (CWait r) c s s'"
  using assms by (auto simp: waitCompleted_def calls_def session_inv_def tame_same split: list.splits)

lemma oneWayStart_calls:
  assumes "oneWayStart command body s = (c, s')" "slot c0 = 0"
  shows "calls c0 c s s'"
proof -
  obtain e m where b: "BeginOutbound (se_machine s) command = (e, m)" by fastforce
  then have wf: "sm_wf (se_machine s) \<Longrightarrow> sm_wf m" using sm_wf_BeginOutbound [of "se_machine s" command] by simp
  then have wf': "sm_wf (se_machine s) \<Longrightarrow> sm_wf (CancelOutbound m command)" using sm_wf_Cancel(1) by blast
  show ?thesis unfolding calls_def assms(2)
    using assms(1) b wf wf'
    by (auto simp: oneWayStart_def session_inv_def tame_same Let_def oneWayItem_def split: option.splits if_splits sum.splits)
qed

lemma oneWayQueue_calls:
  assumes "oneWayQueue item ch w s = Some (c, s')"
  shows "calls (OQueue item ch) c s s'"
  using assms sm_wf_Cancel(1)
  by (auto simp: oneWayQueue_def calls_def session_inv_def tame_same Let_def split: wakeup.splits if_splits)

lemma oneWayWait_calls:
  assumes "oneWayWait ch w s = Some (c, s')"
  shows "calls (OWait ch) c s s'"
  using assms by (auto simp: oneWayWait_def calls_def session_inv_def tame_same split: wakeup.splits if_splits option.splits)

lemma makeResponse_kind: "makeResponse request responseID status body s = Inr item \<Longrightarrow> ti_kind item = txResponse"
  by (auto simp: makeResponse_def Let_def split: sum.splits)

lemma respondStart_calls:
  assumes "respondStart request response s = (c, s')" "slot c0 = 0"
  shows "calls c0 c s s'"
  using assms
  by (auto dest!: makeResponse_kind simp: respondStart_def calls_def session_inv_def tame_same Let_def split: option.splits if_splits sum.splits bool.splits)

lemma respondQueue_calls:
  assumes "respondQueue request item w s = Some (c, s')"
  shows "calls (DQueue request item) c s s'"
  using assms by (auto simp: respondQueue_def calls_def session_inv_def tame_same Let_def split: wakeup.splits if_splits)

lemma wakeCaller_calls: "wakeCaller c w s = Some (c', s') \<Longrightarrow> calls c c' s s'"
  by (cases c) (auto simp: wakeCaller_def wakeWindow_calls intro: requestInsert_calls requestQueue_calls requestWait_calls
      waitCompleted_calls oneWayQueue_calls oneWayWait_calls respondQueue_calls split: if_splits)

lemma keeps_probeReturned: "keeps {} s (probeReturned c s)"
  using keeps_terminate by (auto simp: probeReturned_def split: caller.split option.split)

section \<open>The receiving goroutine\<close>

lemma beginInbound_wf: "beginInbound command s = (e, m) \<Longrightarrow> sm_wf (se_machine s) \<Longrightarrow> sm_wf m"
  using sm_wf_BeginInbound [of "se_machine s" command]
  by (auto simp: beginInbound_def Let_def split: if_splits option.splits)

definition received :: "'v Session \<Rightarrow> 'v rxOutcome \<times> 'v Session \<Rightarrow> bool" where
  "received s rs \<longleftrightarrow> keeps {} s (snd rs) \<and> (\<forall>item \<in> set (rxItem (fst rs)). ti_kind item \<noteq> txRequest)"

lemma rxItem_simps [simp]: "rxItem RxOk = []" "rxItem (RxError e) = []" "rxItem (RxQueue item cont) = [item]"
  "rxItem (RxHandler pdu) = []"
  by (simp_all add: rxItem_def)

lemma received_queue:
  fixes s :: "'v Session"
  shows "received s (queueOr (makeResponse request responseID status body s') cont, s)"
proof -
  have "ti_kind item \<noteq> txRequest" if "item \<in> set (rxItem (queueOr (makeResponse request responseID status body s') cont :: 'v rxOutcome))" for item
    using that by (auto dest!: makeResponse_kind simp: queueOr_def rxItem_def split: sum.splits if_splits)
  then show ?thesis by (simp add: received_def)
qed

lemma received_nack: "received s (queueOr (makeGenericNACK request status s') cont, s)"
  unfolding makeGenericNACK_def by (rule received_queue)

lemma received_after: "\<lbrakk>keeps {} s s'; received s' rs\<rbrakk> \<Longrightarrow> received s rs"
  using keeps_trans by (auto simp: received_def)

lemma received_sendAnswer: "received s (sendAnswer pdu response s)"
proof -
  have c: "keeps {} s (s\<lparr>se_machine := CancelInbound (se_machine s) command\<rparr>)" for command
    using sm_wf_Cancel(2) by (intro keeps_same) simp_all
  show ?thesis using c
    by (auto dest!: makeResponse_kind simp: sendAnswer_def received_def makeGenericNACK_def Let_def split: sum.splits if_splits)
qed

lemma acceptBind_keeps: "acceptBind pdu response s = (response', s') \<Longrightarrow> keeps {} s s'"
proof -
  have k: "keeps {} s (s\<lparr>se_peerCaps := c\<rparr>)" for c by (intro keeps_same) simp_all
  have b: "keeps {} s (snd (case b of BindRequestB bind \<Rightarrow> (g bind, s\<lparr>se_peerCaps := h bind\<rparr>) | _ \<Rightarrow> (response, s)))" for b :: "'a body" and g h
    using k by (cases b) simp_all
  assume "acceptBind pdu response s = (response', s')"
  moreover have "keeps {} s (snd (acceptBind pdu response s))"
    unfolding acceptBind_def Let_def using b by (simp split: any.split)
  ultimately show ?thesis by simp
qed

lemma received_if: "\<lbrakk>received s x; received s y\<rbrakk> \<Longrightarrow> received s (if b then x else y)"
  by simp

lemma received_answerRequest: "received s (answerRequest pdu response s)"
proof -
  have ok: "received s (RxOk, s)" "received s (RxError err, s)" for err by (simp_all add: received_def)
  have d: "received s (case registerDeferredReply h s of (None, s) \<Rightarrow> (RxOk, s) | (Some err, s) \<Rightarrow> (RxError err, s))" for h
    unfolding registerDeferredReply_def by (auto simp: received_def intro!: keeps_same)
  have a: "received s (case acceptBind pdu response s of (response, s) \<Rightarrow> sendAnswer pdu response s)"
  proof -
    obtain response' s' where x: "acceptBind pdu response s = (response', s')" by fastforce
    show ?thesis using received_after [OF acceptBind_keeps [OF x] received_sendAnswer] by (simp add: x)
  qed
  show ?thesis unfolding answerRequest_def Let_def by (intro received_if ok d a)
qed

lemma received_handleRequest: "received s (handleRequest pdu s)"
proof -
  let ?command = "h_CommandID (dp_Header pdu)"
  obtain e m where b: "beginInbound ?command s = (e, m)" by fastforce
  let ?s = "s\<lparr>se_machine := m\<rparr>"
  have k: "keeps {} s ?s" using beginInbound_wf [OF b] by (intro keeps_same) simp_all
  have ok: "received ?s (if b then RxHandler pdu else RxOk, ?s)" "received ?s (RxHandler pdu, ?s)" for b by (simp_all add: received_def)
  note r = received_after [OF k]
  show ?thesis
    unfolding handleRequest_def Let_def b
    by (cases e; simp only: prod.case option.case; intro received_if received_nack r [OF received_nack] r [OF received_queue]
        r [OF ok(1)] r [OF ok(2)] r [OF received_answerRequest])
qed

lemma received_handlerReturned: "received s (handlerReturned pdu outcome s)"
  by (cases "isOneWayCommand (h_CommandID (dp_Header pdu))") (simp_all add: handlerReturned_def received_answerRequest, simp add: received_def)

lemma received_processFrame: "received s (processFrame frame now s)"
proof -
  let ?s = "s\<lparr>se_lastActivity := now, se_lastInbound := now\<rparr>"
  have k: "keeps {} s ?s" by (intro keeps_same) simp_all
  have e: "received s (RxError err, s)" for err by (simp add: received_def)
  have "received ?s (RxOk, handleResponse pdu now ?s)" for pdu using keeps_handleResponse by (simp add: received_def)
  note r = received_after [OF k this] received_after [OF k received_handleRequest]
  show ?thesis unfolding processFrame_def Let_def
    by (cases "DecodePDU frame (cf_Registry (se_config s))"; cases "DecodeHeader frame"; simp only: sum.case; intro received_if e r received_nack)
qed

lemma rxResume_forms:
  assumes "rxResume item cont w s = Some (rx, s')"
  obtains "rx = RxOk" "s' = s\<lparr>se_tx := se_tx s @ [item]\<rparr>" | "rxItem rx = []" "keeps {} s s'"
proof -
  have "keeps {} s (s\<lparr>se_machine := CancelInbound (se_machine s) command\<rparr>)" for command
    using sm_wf_Cancel(2) by (intro keeps_same) simp_all
  then show thesis using assms that
    by (auto simp: rxResume_def split: wakeup.splits if_splits rxCont.splits)
qed

section \<open>The transmitting goroutine\<close>

definition arms :: "SequenceNumber set \<Rightarrow> 'v pendingTable \<Rightarrow> 'v pendingTable \<Rightarrow> bool" where
  "arms X t t' \<longleftrightarrow> length (pt_requests t') = length (pt_requests t) \<and>
     (\<forall>r < length (pt_requests t). pr_done (pt_requests t ! r) \<noteq> [] \<longrightarrow> pr_done (pt_requests t' ! r) = pr_done (pt_requests t ! r)) \<and>
     (\<forall>sequence. sequence \<notin> X \<longrightarrow> unarmed t sequence \<longrightarrow> unarmed t' sequence)"

lemma arms_shrinks: "shrinks t t' \<Longrightarrow> arms {} t t'"
  by (simp add: shrinks_def tame_def arms_def)

lemma arms_trans: "\<lbrakk>arms X t t'; arms Y t' t''\<rbrakk> \<Longrightarrow> arms (X \<union> Y) t t''"
  unfolding arms_def by auto

lemma armDeadline_ok:
  assumes "table_inv k {} {} t" "unarmed t (ti_sequence item)"
  shows "table_inv k {} {} (armDeadline c now item t)" "arms {ti_sequence item} t (armDeadline c now item t)"
proof -
  let ?q = "ti_sequence item" and ?f = "\<lambda>q. q\<lparr>pr_dispatched := True\<rparr>"
  have "table_inv k {} {} (armDeadline c now item t) \<and> arms {?q} t (armDeadline c now item t)"
  proof (cases "map_of (pt_m t) ?q")
    case None
    then show ?thesis using assms(1) by (simp add: armDeadline_def markDispatched_def arms_def)
  next
    case (Some r)
    let ?t = "updRequest r ?f t"
    note e = table_inv_entry [OF assms(1) Some]
    obtain timeout kind where tk: "responseTimeoutFor (ti_requestID item) c = (timeout, kind)" by fastforce
    obtain deadline m where d: "scheduleItemAt (pt_deadlines ?t) (requestSlot r) now timeout kind (ti_requestID item) ?q = (deadline, m)" by fastforce
    have a: "armDeadline c now item t = attachDeadline r deadline (?t\<lparr>pt_deadlines := m\<rparr>)"
      using Some tk d by (simp add: armDeadline_def markDispatched_def)
    have inv: "table_inv k {} {} ?t" using table_inv_upd [OF assms(1), of ?f r] by simp
    have ne: "y \<noteq> r" if "map_of (pt_m t) x = Some y" "x \<noteq> ?q" for x y
      using map_of_entry(2) [OF e(5,6) Some map_of_SomeD [OF that(1)]] that(2) by simp
    have f: "\<not> pr_finished (pt_requests ?t ! r)" using e(1,2) by (simp add: entry_ok_def Let_def updRequest_nth)
    have "table_inv k {} {} (attachDeadline r deadline (?t\<lparr>pt_deadlines := m\<rparr>))"
      using assms(2) Some e(2) by (intro table_inv_arm [OF inv _ _ d]) (simp_all add: unarmed_def updRequest_nth)
    moreover have "arms {?q} t (attachDeadline r deadline (?t\<lparr>pt_deadlines := m\<rparr>))"
      using e(2) f ne by (cases deadline) (auto simp: attachDeadline_def arms_def unarmed_def updRequest_nth)
    ultimately show ?thesis by (simp add: a)
  qed
  then show "table_inv k {} {} (armDeadline c now item t)" "arms {ti_sequence item} t (armDeadline c now item t)" by blast+
qed

lemma noteDispatch_ok:
  assumes "table_inv k {} {} t"
  shows "table_inv k {} {} (noteDispatch now item t)" "shrinks t (noteDispatch now item t)"
proof -
  have f: "pr_finished (snd (markDispatchAt now q)) = pr_finished q \<and> pr_releaseWindow (snd (markDispatchAt now q)) = pr_releaseWindow q \<and>
      pr_done (snd (markDispatchAt now q)) = pr_done q \<and> pr_deadline (snd (markDispatchAt now q)) = pr_deadline q" for q :: "'a pendingRequest"
    by (simp add: markDispatchAt_def claim_neutral)
  show "table_inv k {} {} (noteDispatch now item t)"
    unfolding noteDispatch_def using table_inv_upd [OF assms f] assms by (simp split: option.split)
  show "shrinks t (noteDispatch now item t)"
    unfolding noteDispatch_def by (cases "ti_pending item") (simp_all add: shrinks_upd f)
qed

lemma sendDispatched_sel [simp]:
  "se_table (sendDispatched e item s) = se_table s" "se_machine (sendDispatched e item s) = se_machine s"
  "se_tx (sendDispatched e item s) = se_tx s" "se_config (sendDispatched e item s) = se_config s"
  by (simp_all add: sendDispatched_def split: option.split)

definition requestSequences :: "txItem list \<Rightarrow> SequenceNumber list" where
  "requestSequences items = map ti_sequence (filter (\<lambda>item. ti_kind item = txRequest) items)"

lemma requestSequences_simps [simp]:
  "requestSequences [] = []"
  "requestSequences (item # items) = (if ti_kind item = txRequest then [ti_sequence item] else []) @ requestSequences items"
  "requestSequences (xs @ ys) = requestSequences xs @ requestSequences ys"
  by (simp_all add: requestSequences_def)

lemma commitResponse_wf: "sm_wf m \<Longrightarrow> sm_wf (commitResponse item m)"
  by (simp add: commitResponse_def sm_wf_Complete)

lemma txItems_simps [simp]:
  "txItems TxIdle = []" "txItems (TxFill batch n terminal) = batch" "txItems (TxCommit batch todo) = batch" "txItems (TxWrite batch) = batch"
  "txItems (TxNote now todo) = todo" "txItems TxEnd = []"
  by (simp_all add: txItems_def)

text \<open>
  A step of the goroutine either moves and drops items without arming a deadline, or notes the first of the written items, a
  request, whose deadline it may arm.
\<close>

definition transmits :: "txPhase \<Rightarrow> 'v Session \<Rightarrow> txPhase \<Rightarrow> 'v Session \<Rightarrow> SequenceNumber set \<Rightarrow> bool" where
  "transmits p s p' s' X \<longleftrightarrow> arms X (se_table s) (se_table s') \<and>
     (\<exists>noted. set (requestSequences noted) = X \<and> subseq (noted @ txItems p' @ se_tx s') (txItems p @ se_tx s))"

lemma transmits_keeps:
  "\<lbrakk>shrinks (se_table s) (se_table s'); subseq (txItems p' @ se_tx s') (txItems p @ se_tx s)\<rbrakk> \<Longrightarrow> transmits p s p' s' {}"
  unfolding transmits_def using arms_shrinks by (auto intro!: exI [of _ "[]"])

lemma afterWrite_ok:
  assumes "session_inv k {} s" "unarmed (se_table s) (ti_sequence item) \<or> ti_kind item \<noteq> txRequest" "afterWrite now item todo s = (p', s')"
  shows "session_inv k {} s' \<and> (\<exists>X. transmits (TxNote now (item # todo)) s p' s' X)"
proof (cases "ti_kind item = txRequest")
  case False
  let ?s = "sendDispatched None item s"
  have inv: "session_inv k {} ?s" using assms(1) by (simp add: session_inv_def)
  have "keeps {} ?s (terminate ErrSessionClosed ?s)" by (rule keeps_terminate)
  then have t: "session_inv k {} (terminate ErrSessionClosed ?s)" "shrinks (se_table s) (se_table (terminate ErrSessionClosed ?s))"
    "se_tx (terminate ErrSessionClosed ?s) = se_tx s" using inv unfolding keeps_def by auto
  show ?thesis
  proof (cases "txItemTerminatesAfterWrite item")
    case True
    then have *: "p' = TxEnd" "s' = terminate ErrSessionClosed ?s" using assms(3) False by (simp_all add: afterWrite_def Let_def)
    have "transmits (TxNote now (item # todo)) s p' s' {}"
      unfolding * using t(2,3) list_emb_append2 [of "(=)" "se_tx s" "se_tx s" "item # todo"] by (intro transmits_keeps) simp_all
    then show ?thesis using t(1) * by blast
  next
    case no: False
    then have *: "p' = TxNote now todo" "s' = ?s" using assms(3) False by (simp_all add: afterWrite_def Let_def)
    have "transmits (TxNote now (item # todo)) s p' s' {}" unfolding * by (intro transmits_keeps) (simp_all add: list_emb_Cons)
    then show ?thesis using inv * by blast
  qed
next
  case True
  let ?q = "ti_sequence item" and ?t = "noteDispatch now item (se_table s)"
  have inv: "table_inv k {} {} (se_table s)" using assms(1) by (simp add: session_inv_def)
  note n = noteDispatch_ok [OF inv, of now item]
  have "unarmed ?t ?q" using assms(2) True n(2) by (auto simp: shrinks_def tame_def)
  note a = armDeadline_ok [OF n(1) this, of "se_config s" now]
  have s': "p' = TxNote now todo" "se_table s' = armDeadline (se_config s) now item ?t" "se_machine s' = se_machine s" "se_tx s' = se_tx s"
    using True assms(3) by (auto simp: afterWrite_def Let_def sendDispatched_def split: option.splits)
  have "arms {?q} (se_table s) (se_table s')" using arms_trans [OF arms_shrinks [OF n(2)] a(2)] by (simp add: s'(2))
  then have "transmits (TxNote now (item # todo)) s p' s' {?q}"
    using True by (auto simp: transmits_def s' intro!: exI [of _ "[item]"])
  then show ?thesis using a(1) assms(1) s'(2,3) by (auto simp: session_inv_def)
qed

lemma subseq_drop_middle: "subseq (xs @ ys) (xs @ y # ys)"
  by (intro list_emb_append_mono) (simp_all add: list_emb_Cons)

lemma txStep_ok:
  assumes "session_inv k {} s" "\<And>x. x \<in> set (requestSequences (txItems p)) \<Longrightarrow> unarmed (se_table s) x" "txStep now result p s = Some (p', s')"
  shows "session_inv k {} s' \<and> (\<exists>X. transmits p s p' s' X)"
proof -
  have moved: "session_inv k {} s' \<and> (\<exists>X. transmits p s p' s' X)"
    if "se_table s' = se_table s" "sm_wf (se_machine s) \<Longrightarrow> sm_wf (se_machine s')" "subseq (txItems p' @ se_tx s') (txItems p @ se_tx s)"
    using transmits_keeps [of s s' p' p] that assms(1) by (auto simp: session_inv_def)
  show ?thesis
  proof (cases p)
    case TxIdle
    then show ?thesis using assms(3) by (intro moved) (auto simp: txStep_def txTake_def split: list.splits if_splits)
  next
    case (TxFill batch n terminal)
    then show ?thesis using assms(3) by (intro moved) (auto simp: txStep_def txFill_def subseq_drop_middle split: list.splits if_splits)
  next
    case (TxCommit batch todo)
    then show ?thesis using assms(3) commitResponse_wf by (intro moved) (auto simp: txStep_def split: list.splits)
  next
    case (TxWrite batch)
    show ?thesis
    proof (cases result)
      case (Some err)
      let ?s1 = "fold (sendDispatched (Some err)) batch s"
      have sel: "se_table (fold (sendDispatched e) b x) = se_table x" "se_machine (fold (sendDispatched e) b x) = se_machine x"
        "se_tx (fold (sendDispatched e) b x) = se_tx x" for e b and x :: "'a Session"
        by (induction b arbitrary: x) simp_all
      have *: "p' = TxEnd" "s' = terminate err ?s1" using assms(3) by (simp_all add: TxWrite Some txStep_def)
      have "session_inv k {} ?s1" using assms(1) by (simp add: session_inv_def sel)
      then have t: "session_inv k {} s'" "shrinks (se_table s) (se_table s')" "se_tx s' = se_tx s"
        using keeps_terminate [of "{}" ?s1 err] unfolding * keeps_def by (auto simp: sel)
      have "transmits p s p' s' {}" unfolding TxWrite *(1) using t(2,3) by (intro transmits_keeps) (simp_all add: list_emb_append2)
      then show ?thesis using t(1) by blast
    next
      case None
      then show ?thesis using assms(3) by (intro moved) (auto simp: TxWrite txStep_def)
    qed
  next
    case (TxNote at todo)
    show ?thesis
    proof (cases todo)
      case Nil
      then show ?thesis using assms(3) by (intro moved) (auto simp: TxNote txStep_def)
    next
      case (Cons item rest)
      have "unarmed (se_table s) (ti_sequence item) \<or> ti_kind item \<noteq> txRequest" using assms(2) [of "ti_sequence item"] by (auto simp: TxNote Cons)
      moreover have "afterWrite at item rest s = (p', s')" using assms(3) by (simp add: TxNote Cons txStep_def)
      ultimately show ?thesis unfolding TxNote Cons by (rule afterWrite_ok [OF assms(1)])
    qed
  next
    case TxEnd
    then show ?thesis using assms(3) by (simp add: txStep_def)
  qed
qed

lemma subseq_sequences:
  assumes "subseq xs ys" "distinct (requestSequences (ys @ zs))"
  shows "distinct (requestSequences (xs @ zs))" "set (requestSequences xs) \<subseteq> set (requestSequences ys)"
proof -
  have "subseq (requestSequences xs) (requestSequences ys)"
    using assms(1) by (simp add: requestSequences_def subseq_map subseq_filter)
  then obtain N where "requestSequences xs = nths (requestSequences ys) N" by (auto simp: subseq_conv_nths)
  then show "set (requestSequences xs) \<subseteq> set (requestSequences ys)" "distinct (requestSequences (xs @ zs))"
    using assms(2) set_nths_subset [of "requestSequences ys" N] by auto
qed

lemma transmits_unarmed:
  assumes "transmits p s p' s' X" "distinct (requestSequences (txItems p @ se_tx s @ zs))"
    and "\<And>x. x \<in> set (requestSequences (txItems p @ se_tx s @ zs)) \<Longrightarrow> unarmed (se_table s) x"
    and "x \<in> set (requestSequences (txItems p' @ se_tx s' @ zs))"
  shows "unarmed (se_table s') x"
proof -
  obtain noted where n: "set (requestSequences noted) = X" "subseq (noted @ txItems p' @ se_tx s') (txItems p @ se_tx s)"
    and a: "arms X (se_table s) (se_table s')" using assms(1) unfolding transmits_def by blast
  note q = subseq_sequences [OF n(2), of zs]
  have "x \<notin> X" using q(1) assms(2,4) n(1) by auto
  moreover have "unarmed (se_table s) x" using q(2) assms(2-4) by auto
  ultimately show ?thesis using a by (simp add: arms_def)
qed

section \<open>The deadline goroutine\<close>

lemma table_inv_liveness:
  fixes now :: int and after :: Duration and kind :: TimeoutKind
  assumes "table_inv k F {} t" "ref < 3" "ref \<notin> di_ref ` set (dm_heap (pt_deadlines t))"
  defines "m \<equiv> snd (scheduleItemAt (pt_deadlines t) ref now after kind 0 0)"
  shows "table_inv k F {} (t\<lparr>pt_deadlines := m\<rparr>)" "di_ref ` set (dm_heap m) \<subseteq> insert ref (di_ref ` set (dm_heap (pt_deadlines t)))"
proof -
  have wf: "wf_heap (pt_deadlines t)" using assms(1) by (simp add: table_inv_def heap_owned_def)
  have wf': "wf_heap m" unfolding m_def by (rule scheduleItemAt_ok [OF wf assms(3)])
  have "after \<le> 0 \<and> m = pt_deadlines t \<or> (\<exists>item. di_ref item = ref \<and> set (dm_heap m) = insert item (set (dm_heap (pt_deadlines t))))"
  proof (cases "after \<le> 0")
    case False
    let ?i = "\<lparr>di_ref = ref, di_at = now + after, di_after = after, di_kind = kind, di_command = 0, di_sequence = 0\<rparr>"
    have "mset (dm_heap (heapPush (pt_deadlines t) ?i)) = add_mset ?i (mset (dm_heap (pt_deadlines t)))"
      using heapPush_ok(2) [OF wf, of ?i] assms(3) by simp
    then have "set (dm_heap (heapPush (pt_deadlines t) ?i)) = insert ?i (set (dm_heap (pt_deadlines t)))"
      by (metis set_mset_add_mset_insert set_mset_mset)
    then show ?thesis using False by (auto simp: m_def scheduleItemAt_def Let_def intro!: exI [of _ ?i])
  qed (simp add: m_def scheduleItemAt_def)
  then have sub: "set (dm_heap (pt_deadlines t)) \<subseteq> set (dm_heap m)" "\<forall>i \<in> set (dm_heap m). i \<in> set (dm_heap (pt_deadlines t)) \<or> di_ref i = ref" by auto
  then show "di_ref ` set (dm_heap m) \<subseteq> insert ref (di_ref ` set (dm_heap (pt_deadlines t)))" by auto
  have "\<exists>r. di_ref i = requestSlot r \<and> (di_sequence i, r) \<in> set (pt_m t) \<and> pr_deadline (pt_requests t ! r) = Some i"
    if "i \<in> set (dm_heap m)" "3 \<le> di_ref i" for i
  proof -
    have "i \<in> set (dm_heap (pt_deadlines t))" using that sub(2) assms(2) by auto
    then show ?thesis using assms(1) that(2) unfolding table_inv_def heap_owned_def by blast
  qed
  then have "heap_owned (t\<lparr>pt_deadlines := m\<rparr>)" using wf' by (simp add: heap_owned_def)
  moreover have "entry_ok F t e \<Longrightarrow> entry_ok F (t\<lparr>pt_deadlines := m\<rparr>) e" for e
    using sub(1) by (auto simp: entry_ok_def Let_def)
  moreover have "settled {} t r \<Longrightarrow> settled {} (t\<lparr>pt_deadlines := m\<rparr>) r" for r by (simp add: settled_def)
  ultimately show "table_inv k F {} (t\<lparr>pt_deadlines := m\<rparr>)" using assms(1) by (simp add: table_inv_def)
qed

lemma table_inv_forget_slot:
  assumes "table_inv k F {} t" "di_ref i < 3"
  shows "table_inv k (F - {i}) {} t"
proof -
  have "entry_ok F t e \<Longrightarrow> entry_ok (F - {i}) t e" for e
    using assms(2) by (auto simp: entry_ok_def Let_def requestSlot_def)
  then show ?thesis using assms(1) unfolding table_inv_def by blast
qed

text \<open>One fired deadline is handled.\<close>

definition fired :: "deadlineItem \<Rightarrow> 'v Session \<Rightarrow> 'v Session \<Rightarrow> bool" where
  "fired i s s' \<longleftrightarrow> arms {} (se_table s) (se_table s') \<and> se_tx s' = se_tx s \<and>
     di_ref ` set (dm_heap (pt_deadlines (se_table s'))) \<subseteq> insert (di_ref i) (di_ref ` set (dm_heap (pt_deadlines (se_table s))))"

lemma fired_keeps:
  assumes "keeps F s s'" "session_inv k F s"
  shows "session_inv k F s' \<and> fired i s s'"
proof -
  have "session_inv k F s'" "shrinks (se_table s) (se_table s')" "se_tx s' = se_tx s" using assms unfolding keeps_def by blast+
  then show ?thesis using arms_shrinks [of "se_table s" "se_table s'"] by (auto simp: fired_def shrinks_def)
qed

lemma fired_schedule:
  assumes "session_inv k F s" "ref < 3" "ref \<notin> di_ref ` set (dm_heap (pt_deadlines (se_table s)))" "di_ref i = ref"
  shows "session_inv k F (scheduleSlot ref now after kind s) \<and> fired i s (scheduleSlot ref now after kind s)"
  using table_inv_liveness [of k F "se_table s" ref now after kind] assms
  by (simp add: session_inv_def fired_def scheduleSlot_def arms_def unarmed_def)

lemma expireDeadline_ok:
  assumes "session_inv k F s" "di_ref i \<notin> di_ref ` set (dm_heap (pt_deadlines (se_table s)))"
  shows "session_inv k (F - {i}) (expireDeadline now i s) \<and> fired i s (expireDeadline now i s)"
proof -
  have inv: "session_inv k (F - {i}) s" if "di_ref i < 3"
    using assms(1) table_inv_forget_slot [OF _ that, of k F "se_table s"] by (simp add: session_inv_def)
  have same: "session_inv k (F - {i}) s \<and> fired i s s" if "di_ref i < 3" using fired_keeps [OF keeps_refl inv [OF that]] .
  note t = fired_keeps [OF keeps_terminate inv]
  show ?thesis
  proof (cases "di_ref i < 3")
    case True
    let ?P = "\<lambda>s'. session_inv k (F - {i}) s' \<and> fired i s s'"
    have probe: "session_inv k (F - {i}) (s\<lparr>se_probes := n\<rparr>)" for n using inv [OF True] by (simp add: session_inv_def)
    have sched: "?P (scheduleSlot (di_ref i) now after kind s)" for now after kind
      using fired_schedule [OF inv [OF True] True assms(2) refl] .
    have sched': "?P (scheduleSlot (di_ref i) now after kind (s\<lparr>se_probes := n\<rparr>))" for now after kind n
      using fired_schedule [OF probe True, of n i now after kind] assms(2) by (simp add: fired_def)
    consider "di_ref i = 0" | "di_ref i = 1" | "di_ref i = 2" using True by linarith
    then show ?thesis
    proof cases
      case 1
      then show ?thesis using same [OF True] t [OF True] by (simp add: expireDeadline_def fireSessionInitDeadline_def)
    next
      case 2
      then show ?thesis using same [OF True] t [OF True] sched by (simp add: expireDeadline_def fireInactivityDeadline_def Let_def)
    next
      case 3
      then show ?thesis using same [OF True] t [OF True] sched sched' by (simp add: expireDeadline_def fireEnquireLinkDeadline_def Let_def)
    qed
  next
    case False
    let ?err = "TimeoutError (di_kind i) (di_command i) (di_sequence i) (di_after i)"
    have forget: "session_inv k (F - {i}) s'" if "session_inv k F s'" "map_of (pt_m (se_table s')) (di_sequence i) = None" for s' :: "'a Session"
      using that table_inv_forget [of k F "se_table s'" i] by (force simp: session_inv_def map_of_eq_None_iff)
    show ?thesis
    proof (cases "completeError (di_sequence i) ?err (se_table s)")
      case None
      then have "map_of (pt_m (se_table s)) (di_sequence i) = None" by (simp add: completeError_def split: option.splits)
      then show ?thesis using None False forget [OF assms(1)] fired_keeps [OF keeps_refl assms(1)] by (simp add: expireDeadline_def)
    next
      case (Some rt)
      then obtain r t' where c: "completeError (di_sequence i) ?err (se_table s) = Some (r, t')" by (cases rt) simp
      let ?s = "s\<lparr>se_table := t', se_machine := CancelOutbound (se_machine s) (pr_requestID (pt_requests t' ! r))\<rparr>"
      have e: "expireDeadline now i s = ?s" using False c by (simp add: expireDeadline_def)
      have k: "session_inv k F ?s \<and> fired i s ?s"
        by (rule fired_keeps [OF keeps_complete [OF c sm_wf_Cancel(1)] assms(1)])
      have "table_inv k F {} (se_table s)" using assms(1) by (simp add: session_inv_def)
      then have "pt_m t' = pt_m (deleteEntry (di_sequence i) (se_table s))"
        using table_inv_complete(2) completeError_forms [OF c] by simp
      then have "map_of (pt_m (se_table ?s)) (di_sequence i) = None" by (simp add: deleteEntry_def map_of_filter_key)
      then show ?thesis using k forget [of ?s] unfolding e by blast
    qed
  qed
qed

lemma disjoint_insert_other: "\<lbrakk>A' \<subseteq> insert x A; x \<notin> B; B \<inter> A = {}\<rbrakk> \<Longrightarrow> B \<inter> A' = {}"
  by blast

lemma expire_fold:
  "\<lbrakk>session_inv k (set items) s; distinct (map di_ref items); di_ref ` set items \<inter> di_ref ` set (dm_heap (pt_deadlines (se_table s))) = {}\<rbrakk> \<Longrightarrow>
     session_inv k {} (fold (expireDeadline now) items s) \<and> arms {} (se_table s) (se_table (fold (expireDeadline now) items s)) \<and>
     se_tx (fold (expireDeadline now) items s) = se_tx s"
proof (induction items arbitrary: s)
  case Nil
  then show ?case by (simp add: arms_def)
next
  case (Cons i items)
  let ?s = "expireDeadline now i s"
  have "i \<notin> set items" using Cons.prems(2) by (metis distinct.simps(2) image_eqI list.map(2) list.set_map)
  then have F: "set (i # items) - {i} = set items" by simp
  have "di_ref i \<notin> di_ref ` set (dm_heap (pt_deadlines (se_table s)))" using Cons.prems(3) by simp
  from expireDeadline_ok [OF Cons.prems(1) this, of now]
  have e: "session_inv k (set items) ?s" "fired i s ?s" unfolding F by simp_all
  have "di_ref ` set items \<inter> di_ref ` set (dm_heap (pt_deadlines (se_table ?s))) = {}"
  proof -
    have "di_ref ` set (dm_heap (pt_deadlines (se_table ?s))) \<subseteq> insert (di_ref i) (di_ref ` set (dm_heap (pt_deadlines (se_table s))))"
      using e(2) by (simp add: fired_def)
    moreover have "di_ref i \<notin> di_ref ` set items" "di_ref ` set items \<inter> di_ref ` set (dm_heap (pt_deadlines (se_table s))) = {}"
      using Cons.prems(2,3) by simp_all
    ultimately show ?thesis by (rule disjoint_insert_other)
  qed
  moreover have "distinct (map di_ref items)" using Cons.prems(2) by simp
  ultimately have "session_inv k {} (fold (expireDeadline now) items ?s) \<and> arms {} (se_table ?s) (se_table (fold (expireDeadline now) items ?s)) \<and>
     se_tx (fold (expireDeadline now) items ?s) = se_tx ?s"
    using Cons.IH [of ?s] e(1) by presburger
  then have ih: "session_inv k {} (fold (expireDeadline now) items ?s)" "arms {} (se_table ?s) (se_table (fold (expireDeadline now) items ?s))"
     "se_tx (fold (expireDeadline now) items ?s) = se_tx ?s" by simp_all
  have f: "arms {} (se_table s) (se_table ?s)" "se_tx ?s = se_tx s" using e(2) by (simp_all add: fired_def)
  show ?case unfolding fold_Cons comp_apply
    using ih(1,3) f(2) arms_trans [OF f(1) ih(2)] by simp
qed

lemma expireRound_ok:
  assumes "session_inv k {} s"
  shows "session_inv k {} (expireRound now s)" "arms {} (se_table s) (se_table (expireRound now s))" "se_tx (expireRound now s) = se_tx s"
proof -
  obtain items m where e: "expireReady (pt_deadlines (se_table s)) now = (items, m)" by fastforce
  let ?s = "s\<lparr>se_table := (se_table s)\<lparr>pt_deadlines := m\<rparr>\<rparr>"
  have inv: "table_inv k {} {} (se_table s)" and wf: "wf_heap (pt_deadlines (se_table s))"
    using assms by (simp_all add: session_inv_def table_inv_def heap_owned_def)
  have "mset items + mset (dm_heap m) = mset (dm_heap (pt_deadlines (se_table s)))"
    using takeReady_ok [OF wf order_refl, of now items m] e by (simp add: expireReady_def)
  then have "mset (map di_ref (items @ dm_heap m)) = mset (map di_ref (dm_heap (pt_deadlines (se_table s))))"
    by (metis mset_append mset_map)
  moreover have "distinct (map di_ref (dm_heap (pt_deadlines (se_table s))))" using wf by (simp add: wf_heap_def indexed_def)
  ultimately have d: "distinct (map di_ref (items @ dm_heap m))" using mset_eq_imp_distinct_iff by blast
  have "session_inv k (set items) ?s" using table_inv_fired [OF inv e] assms by (simp add: session_inv_def)
  moreover have "arms {} (se_table s) (se_table ?s)" by (simp add: arms_def unarmed_def)
  moreover have "expireRound now s = fold (expireDeadline now) items ?s" by (simp add: expireRound_def e)
  moreover have "distinct (map di_ref items)" "di_ref ` set items \<inter> di_ref ` set (dm_heap (pt_deadlines (se_table ?s))) = {}"
    using d by simp_all
  ultimately have r: "session_inv k {} (expireRound now s)" "arms {} (se_table ?s) (se_table (expireRound now s))" "se_tx (expireRound now s) = se_tx ?s"
    "arms {} (se_table s) (se_table ?s)" using expire_fold [of k items ?s now] by simp_all
  show "session_inv k {} (expireRound now s)" "se_tx (expireRound now s) = se_tx s" using r(1,3) by simp_all
  show "arms {} (se_table s) (se_table (expireRound now s))" using arms_trans [OF r(4,2)] by simp
qed

section \<open>The invariant of all runs\<close>

definition slots :: "(bool \<times> 'v caller) list \<Rightarrow> nat" where
  "slots callers = sum_list (map (slot \<circ> snd) callers)"

definition sys_inv :: "'v System \<Rightarrow> bool" where
  "sys_inv sy \<longleftrightarrow> session_inv (slots (sy_callers sy)) {} (sy_session sy) \<and>
     distinct (map ti_sequence (outstanding sy)) \<and>
     (\<forall>item \<in> set (outstanding sy). unarmed (se_table (sy_session sy)) (ti_sequence item)) \<and>
     (\<forall>pc \<in> set (sy_callers sy). \<forall>r \<in> callerRefs (snd pc). r < length (pt_requests (se_table (sy_session sy))))"

text \<open>The results that were sent stay, and a deadline is armed only for a request whose frame was on its way.\<close>

definition results_kept :: "'v System \<Rightarrow> 'v System \<Rightarrow> bool" where
  "results_kept sy sy' \<longleftrightarrow> (\<forall>r < length (pt_requests (se_table (sy_session sy))). pr_done (pt_requests (se_table (sy_session sy)) ! r) \<noteq> [] \<longrightarrow>
     r < length (pt_requests (se_table (sy_session sy'))) \<and>
     pr_done (pt_requests (se_table (sy_session sy')) ! r) = pr_done (pt_requests (se_table (sy_session sy)) ! r)) \<and>
     (\<forall>x. x \<notin> set (map ti_sequence (outstanding sy)) \<longrightarrow> unarmed (se_table (sy_session sy)) x \<longrightarrow> unarmed (se_table (sy_session sy')) x)"

lemma sys_inv_next:
  assumes "sys_inv sy" "session_inv (slots (sy_callers sy')) {} (sy_session sy')" "tame (se_table (sy_session sy)) (se_table (sy_session sy'))"
    and "distinct (map ti_sequence (outstanding sy'))"
    and "\<And>item. item \<in> set (outstanding sy') \<Longrightarrow> item \<in> set (outstanding sy) \<or> unarmed (se_table (sy_session sy')) (ti_sequence item)"
    and "\<And>pc r. \<lbrakk>pc \<in> set (sy_callers sy'); r \<in> callerRefs (snd pc)\<rbrakk> \<Longrightarrow>
      (\<exists>pc' \<in> set (sy_callers sy). r \<in> callerRefs (snd pc')) \<or> r < length (pt_requests (se_table (sy_session sy')))"
  shows "sys_inv sy' \<and> results_kept sy sy'"
proof -
  have "unarmed (se_table (sy_session sy')) (ti_sequence item)" if "item \<in> set (outstanding sy')" for item
    using assms(5) [OF that] assms(1,3) unfolding sys_inv_def tame_def by blast
  moreover have "r < length (pt_requests (se_table (sy_session sy')))" if "pc \<in> set (sy_callers sy')" "r \<in> callerRefs (snd pc)" for pc r
    using assms(6) [OF that] assms(1,3) unfolding sys_inv_def tame_def by (meson order_less_le_trans)
  ultimately show ?thesis using assms(2-4) unfolding sys_inv_def results_kept_def tame_def by (auto intro: order_less_le_trans)
qed

text \<open>A step of the session alone.\<close>

lemma sys_inv_session:
  assumes "sys_inv sy" "keeps {} (sy_session sy) s'" "distinct (map ti_sequence (outstanding sy'))"
    and "sy_session sy' = s'" "sy_callers sy' = sy_callers sy" "sy_tx sy' = sy_tx sy" "\<And>item. item \<in> set (rxItem (sy_rx sy')) \<Longrightarrow> ti_kind item \<noteq> txRequest \<or> item \<in> set (rxItem (sy_rx sy))"
  shows "sys_inv sy' \<and> results_kept sy sy'"
proof (rule sys_inv_next [OF assms(1) _ _ assms(3)])
  have "session_inv (slots (sy_callers sy)) {} (sy_session sy)" using assms(1) by (simp add: sys_inv_def)
  then have k: "session_inv (slots (sy_callers sy)) {} s'" "shrinks (se_table (sy_session sy)) (se_table s')" "se_tx s' = se_tx (sy_session sy)"
    using assms(2) unfolding keeps_def by blast+
  show "session_inv (slots (sy_callers sy')) {} (sy_session sy')" using k(1) by (simp add: assms(4,5))
  show "tame (se_table (sy_session sy)) (se_table (sy_session sy'))" using shrinks_tame [OF k(2)] by (simp add: assms(4))
  show "item \<in> set (outstanding sy) \<or> unarmed (se_table (sy_session sy')) (ti_sequence item)" if "item \<in> set (outstanding sy')" for item
    using that assms(7) [of item] k(3) by (auto simp: outstanding_def assms(4-6))
  show "(\<exists>pc' \<in> set (sy_callers sy). r \<in> callerRefs (snd pc')) \<or> r < length (pt_requests (se_table (sy_session sy')))"
    if "pc \<in> set (sy_callers sy')" "r \<in> callerRefs (snd pc)" for pc r using that by (auto simp: assms(5))
qed

text \<open>A step of one caller, which may be a new one.\<close>

lemma sys_inv_caller:
  assumes "sys_inv sy" "calls c c' (sy_session sy) s'" "distinct (map ti_sequence (outstanding sy'))"
    and "sy_session sy' = s'" "sy_rx sy' = sy_rx sy \<and> sy_tx sy' = sy_tx sy"
    and "slots (sy_callers sy) = k + slot c" "slots (sy_callers sy') = k + slot c'"
    and "\<And>pc. pc \<in> set (sy_callers sy') \<Longrightarrow> snd pc = c' \<or> pc \<in> set (sy_callers sy)"
    and "c \<in> snd ` set (sy_callers sy) \<or> c = OReturned None"
  shows "sys_inv sy' \<and> results_kept sy sy'"
proof (rule sys_inv_next [OF assms(1) _ _ assms(3)])
  have "session_inv (k + slot c) {} (sy_session sy)" using assms(1) by (simp add: sys_inv_def assms(6))
  then have k: "session_inv (k + slot c') {} s'" "tame (se_table (sy_session sy)) (se_table s')"
    "\<forall>item \<in> set (se_tx s' @ callerItem c'). ti_kind item = txRequest \<longrightarrow>
        item \<in> set (se_tx (sy_session sy) @ callerItem c) \<or> unarmed (se_table s') (ti_sequence item)"
    "\<forall>r \<in> callerRefs c'. r \<in> callerRefs c \<or> r < length (pt_requests (se_table s'))"
    using assms(2) unfolding calls_def by blast+
  show "session_inv (slots (sy_callers sy')) {} (sy_session sy')" using k(1) by (simp add: assms(4,7))
  show "tame (se_table (sy_session sy)) (se_table (sy_session sy'))" using k(2) by (simp add: assms(4))
  have old: "set (callerItem c) \<subseteq> set (concat (map (callerItem \<circ> snd) (sy_callers sy)))" using assms(9) by auto
  show "item \<in> set (outstanding sy) \<or> unarmed (se_table (sy_session sy')) (ti_sequence item)" if it: "item \<in> set (outstanding sy')" for item
  proof -
    have q: "ti_kind item = txRequest" using it by (auto simp: outstanding_def)
    let ?rest = "set (txItems (sy_tx sy)) \<union> set (rxItem (sy_rx sy))"
    consider "item \<in> set (se_tx s' @ callerItem c')" | pc where "pc \<in> set (sy_callers sy)" "item \<in> set (callerItem (snd pc))" | "item \<in> ?rest"
    proof -
      have "item \<in> set (se_tx s') \<or> (\<exists>pc \<in> set (sy_callers sy'). item \<in> set (callerItem (snd pc))) \<or> item \<in> ?rest"
        using it by (auto simp: outstanding_def assms(4,5))
      then show thesis using assms(8) \<open>\<And>pc. \<lbrakk>pc \<in> set (sy_callers sy); item \<in> set (callerItem (snd pc))\<rbrakk> \<Longrightarrow> thesis\<close>
          \<open>item \<in> set (se_tx s' @ callerItem c') \<Longrightarrow> thesis\<close> \<open>item \<in> ?rest \<Longrightarrow> thesis\<close>
        by (metis Un_iff set_append)
    qed
    then show ?thesis
    proof cases
      case 1
      then show ?thesis using k(3) q old by (auto simp: outstanding_def assms(4))
    qed (use q in \<open>auto simp: outstanding_def\<close>)
  qed
  show "(\<exists>pc' \<in> set (sy_callers sy). r \<in> callerRefs (snd pc')) \<or> r < length (pt_requests (se_table (sy_session sy')))"
    if "pc \<in> set (sy_callers sy')" "r \<in> callerRefs (snd pc)" for pc r
    using assms(8) [OF that(1)] that(2) k(4) assms(9) by (auto simp: assms(4))
qed

lemma sys_inv_add:
  assumes "sys_inv sy" "calls (OReturned None) c (sy_session sy) s" "distinct (map ti_sequence (outstanding (addCaller probe (c, s) sy)))"
  shows "sys_inv (addCaller probe (c, s) sy) \<and> results_kept sy (addCaller probe (c, s) sy)"
proof (rule sys_inv_caller [OF assms(1) _ assms(3)])
  show "calls (OReturned None) c (sy_session sy) (if probe then probeReturned c s else s)"
    using assms(2) calls_then [OF assms(2) keeps_probeReturned] by simp
qed (auto simp: addCaller_def slots_def)

lemma sys_inv_wake:
  assumes "sys_inv sy" "i < length (sy_callers sy)" "sy_callers sy ! i = (probe, c)" "wakeCaller c w (sy_session sy) = Some (c', s')"
  defines "sy' \<equiv> sy\<lparr>sy_session := (if probe then probeReturned c' s' else s'), sy_callers := (sy_callers sy)[i := (probe, c')]\<rparr>"
  assumes "distinct (map ti_sequence (outstanding sy'))"
  shows "sys_inv sy' \<and> results_kept sy sy'"
proof (rule sys_inv_caller [OF assms(1) _ assms(6)])
  note cl = wakeCaller_calls [OF assms(4)]
  show "calls c c' (sy_session sy) (if probe then probeReturned c' s' else s')"
    using cl calls_then [OF cl keeps_probeReturned] by simp
  let ?xs = "map (slot \<circ> snd) (sy_callers sy)"
  have le: "slot c \<le> sum_list ?xs" using assms(2,3) elem_le_sum_list [of i ?xs] by simp
  then show "slots (sy_callers sy) = (slots (sy_callers sy) - slot c) + slot c" by (simp add: slots_def)
  show "slots (sy_callers sy') = (slots (sy_callers sy) - slot c) + slot c'"
    using assms(2,3) le sum_list_update [of i ?xs "slot c'"] by (simp add: sy'_def slots_def map_update)
  show "snd pc = c' \<or> pc \<in> set (sy_callers sy)" if "pc \<in> set (sy_callers sy')" for pc
    using that set_update_subset_insert [of "sy_callers sy" i "(probe, c')"] by (auto simp: sy'_def)
  show "c \<in> snd ` set (sy_callers sy) \<or> c = OReturned None"
    using nth_mem [OF assms(2)] assms(3) by (metis image_eqI snd_conv)
qed (simp_all add: sy'_def)

lemma sys_inv_setRx:
  assumes "sys_inv sy" "received (sy_session sy) rs" "distinct (map ti_sequence (outstanding (setRx rs sy)))"
  shows "sys_inv (setRx rs sy) \<and> results_kept sy (setRx rs sy)"
proof -
  obtain rx s where rs: "rs = (rx, s)" by fastforce
  have k: "keeps {} (sy_session sy) s" "\<forall>item \<in> set (rxItem rx). ti_kind item \<noteq> txRequest" using assms(2) by (simp_all add: received_def rs)
  show ?thesis
    by (rule sys_inv_session [OF assms(1) _ assms(3) refl])
      (use k keeps_trans [OF k(1) keeps_terminate] in \<open>auto simp: setRx_def rs split: rxOutcome.split\<close>)
qed

lemma sequences_outstanding:
  "map ti_sequence (outstanding sy) =
     requestSequences (se_tx (sy_session sy) @ txItems (sy_tx sy) @ concat (map (callerItem \<circ> snd) (sy_callers sy)) @ rxItem (sy_rx sy))"
  by (simp add: outstanding_def requestSequences_def)

lemma sys_inv_transmit:
  assumes "sys_inv sy" "txStep now result (sy_tx sy) (sy_session sy) = Some (p', s')"
  defines "sy' \<equiv> sy\<lparr>sy_session := s', sy_tx := p'\<rparr>"
  assumes "distinct (map ti_sequence (outstanding sy'))"
  shows "sys_inv sy' \<and> results_kept sy sy'"
proof -
  let ?s = "sy_session sy" and ?p = "sy_tx sy" and ?zs = "concat (map (callerItem \<circ> snd) (sy_callers sy)) @ rxItem (sy_rx sy)"
  have inv: "session_inv (slots (sy_callers sy)) {} ?s" and d: "distinct (requestSequences (txItems ?p @ se_tx ?s @ ?zs))"
    using assms(1) unfolding sys_inv_def sequences_outstanding by auto
  have u: "unarmed (se_table ?s) x" if x: "x \<in> set (requestSequences (txItems ?p @ se_tx ?s @ ?zs))" for x
  proof -
    have "x \<in> set (map ti_sequence (outstanding sy))" using x unfolding sequences_outstanding by auto
    then show ?thesis using assms(1) unfolding sys_inv_def by auto
  qed
  obtain X where t: "session_inv (slots (sy_callers sy)) {} s'" "transmits ?p ?s p' s' X"
    using txStep_ok [OF inv _ assms(2)] u by auto
  have "unarmed (se_table s') (ti_sequence item)" if "item \<in> set (outstanding sy')" for item
  proof -
    have "ti_sequence item \<in> set (map ti_sequence (outstanding sy'))" using that by simp
    then have "ti_sequence item \<in> set (requestSequences (txItems p' @ se_tx s' @ ?zs))" unfolding sequences_outstanding by (auto simp: sy'_def)
    from transmits_unarmed [OF t(2) d u this] show ?thesis .
  qed
  moreover have "unarmed (se_table s') x" if "x \<notin> set (map ti_sequence (outstanding sy))" "unarmed (se_table ?s) x" for x
  proof -
    obtain noted where n: "set (requestSequences noted) = X" "subseq (noted @ txItems p' @ se_tx s') (txItems ?p @ se_tx ?s)"
      and a: "arms X (se_table ?s) (se_table s')" using t(2) unfolding transmits_def by blast
    have "X \<subseteq> set (requestSequences (txItems ?p @ se_tx ?s))" using subseq_sequences(2) [OF n(2), of ?zs] d n(1) by auto
    then have "x \<notin> X" using that(1) unfolding sequences_outstanding by auto
    then show ?thesis using a that(2) by (simp add: arms_def)
  qed
  ultimately show ?thesis using t assms(1,4) by (simp add: sy'_def sys_inv_def results_kept_def transmits_def arms_def)
qed

lemma sys_inv_expire:
  assumes "sys_inv sy"
  shows "let sy' = sy\<lparr>sy_session := expireRound now (sy_session sy)\<rparr> in sys_inv sy' \<and> results_kept sy sy'"
proof -
  have inv: "session_inv (slots (sy_callers sy)) {} (sy_session sy)" using assms by (simp add: sys_inv_def)
  note e = expireRound_ok [OF inv, of now]
  have "outstanding (sy\<lparr>sy_session := expireRound now (sy_session sy)\<rparr>) = outstanding sy" by (simp add: outstanding_def e(3))
  then show ?thesis using e(1,2) assms by (simp add: Let_def sys_inv_def results_kept_def arms_def)
qed

lemma normalizeBounds_ok:
  "0 < cf_WindowSize (normalizeBounds c)" "cf_WindowSize (normalizeBounds c) \<le> cf_MaxPending (normalizeBounds c)"
  "0 < cf_MaxDeferredResponses (normalizeBounds c)" "cf_WindowSize (normalizeBounds c) = (if cf_WindowSize c \<le> 0 then 1024 else cf_WindowSize c)"
  by (auto simp: normalizeBounds_def Let_def)

lemma normalizeQueues_ok:
  "cf_WindowSize (normalizeQueues c) = cf_WindowSize c" "cf_MaxPending (normalizeQueues c) = cf_MaxPending c"
  "cf_MaxDeferredResponses (normalizeQueues c) = cf_MaxDeferredResponses c"
  "0 < cf_TXQueueSize (normalizeQueues c)" "0 < cf_TXBatchItems (normalizeQueues c)" "0 < cf_TXBatchBytes (normalizeQueues c)"
  by (auto simp: normalizeQueues_def Let_def)

lemma normalizeTimeouts_ok:
  "cf_WindowSize (normalizeTimeouts c) = cf_WindowSize c" "cf_MaxPending (normalizeTimeouts c) = cf_MaxPending c"
  "cf_MaxDeferredResponses (normalizeTimeouts c) = cf_MaxDeferredResponses c"
  by (simp_all add: normalizeTimeouts_def)

lemma normalizeConfig_window:
  assumes "normalizeConfig config = Inr c" "cf_WindowSize config < 2 ^ 32"
  shows "0 < cf_WindowSize c" "cf_WindowSize c < 2 ^ 32" "cf_WindowSize c \<le> cf_MaxPending c"
proof -
  obtain d where d: "c = normalizeQueues (normalizeTimeouts (normalizeBounds d))" "cf_WindowSize d = cf_WindowSize config"
    using assms(1) by (auto simp: normalizeConfig_def Let_def bindE_eq_Inr split: if_splits)
  show "0 < cf_WindowSize c" "cf_WindowSize c < 2 ^ 32" "cf_WindowSize c \<le> cf_MaxPending c"
    unfolding d(1) using d(2) assms(2) normalizeBounds_ok [of d] by (simp_all add: normalizeQueues_ok normalizeTimeouts_ok)
qed

lemma schedule_first:
  assumes "session_inv k {} s" "ref < 3" "ref \<notin> di_ref ` set (dm_heap (pt_deadlines (se_table s)))"
  shows "session_inv k {} (scheduleSlot ref now after kind s)" "se_tx (scheduleSlot ref now after kind s) = se_tx s"
    "di_ref ` set (dm_heap (pt_deadlines (se_table (scheduleSlot ref now after kind s)))) \<subseteq> insert ref (di_ref ` set (dm_heap (pt_deadlines (se_table s))))"
proof -
  note f = fired_schedule [OF assms, where i = "\<lparr>di_ref = ref, di_at = 0, di_after = 0, di_kind = kind, di_command = 0, di_sequence = 0\<rparr>"
      and now = now and after = after and kind = kind]
  show "session_inv k {} (scheduleSlot ref now after kind s)" "se_tx (scheduleSlot ref now after kind s) = se_tx s"
    "di_ref ` set (dm_heap (pt_deadlines (se_table (scheduleSlot ref now after kind s)))) \<subseteq> insert ref (di_ref ` set (dm_heap (pt_deadlines (se_table s))))"
    using f by (simp_all add: fired_def)
qed

lemma subset_insert_trans: "\<lbrakk>A \<subseteq> insert x B; B \<subseteq> C\<rbrakk> \<Longrightarrow> A \<subseteq> insert x C"
  by blast

lemma liveness_ok:
  assumes "session_inv k {} s" "dm_heap (pt_deadlines (se_table s)) = []"
  shows "session_inv k {} (scheduleLivenessDeadlines now s) \<and> se_tx (scheduleLivenessDeadlines now s) = se_tx s"
proof -
  let ?refs = "\<lambda>s. di_ref ` set (dm_heap (pt_deadlines (se_table s)))"
  let ?c = "se_config s"
  define s0 where "s0 = (if cf_SessionInitTimeout ?c > 0 then scheduleSlot sessionInitDeadline now (cf_SessionInitTimeout ?c) TimeoutSessionInit s else s)"
  define s1 where "s1 = (if cf_InactivityTimeout ?c > 0 then scheduleSlot inactivityDeadline now (cf_InactivityTimeout ?c) TimeoutInactivity s0 else s0)"
  have 0: "session_inv k {} s0" "se_tx s0 = se_tx s" "?refs s0 \<subseteq> {0}"
    using assms schedule_first [OF assms(1), of 0 now "cf_SessionInitTimeout ?c" TimeoutSessionInit] by (simp_all add: s0_def)
  have n1: "(1 :: nat) \<notin> ?refs s0" by (rule contra_subsetD [OF 0(3)]) simp
  have 1: "session_inv k {} s1" "se_tx s1 = se_tx s" "?refs s1 \<subseteq> {1, 0}"
    using 0 schedule_first [OF 0(1) _ n1, of now "cf_InactivityTimeout ?c" TimeoutInactivity]
      subset_insert_trans [OF _ 0(3), of "?refs (scheduleSlot 1 now (cf_InactivityTimeout ?c) TimeoutInactivity s0)" 1]
    unfolding s1_def by (simp_all add: subset_insertI2)
  have n2: "(2 :: nat) \<notin> ?refs s1" by (rule contra_subsetD [OF 1(3)]) simp
  show ?thesis
    using 1 schedule_first [OF 1(1) _ n2, of now "cf_EnquireLinkInterval ?c" TimeoutEnquireLink]
    unfolding scheduleLivenessDeadlines_def Let_def s0_def [symmetric] s1_def [symmetric] by simp
qed

lemma sys_inv_new:
  assumes "New config now = Inr s" "cf_WindowSize config < 2 ^ 32"
  shows "sys_inv \<lparr>sy_session = s, sy_callers = [], sy_rx = RxOk, sy_tx = TxIdle\<rparr>"
proof -
  obtain c where c: "normalizeConfig config = Inr c" using assms(1) by (auto simp: New_def bindE_eq_Inr)
  obtain f where f: "NewFramer (cf_MaxPDUSize c) = Inr f" using assms(1) c by (cases "NewFramer (cf_MaxPDUSize c)") (auto simp: New_def bindE_eq_Inr)
  obtain machine0 where m: "NewStateMachine (cf_Role c) = Inr machine0" using assms(1) c f by (auto simp: New_def bindE_eq_Inr)
  obtain e machine where o: "openMachine machine0 = (e, machine)" by fastforce
  obtain s0 where n: "normalizeConfig config = Inr c" "NewStateMachine (cf_Role c) = Inr machine0" "openMachine machine0 = (None, machine)"
    "s = scheduleLivenessDeadlines now s0" "se_machine s0 = machine" "se_table s0 = newPendingTable (cf_MaxPending c) (nat (cf_WindowSize c))" "se_tx s0 = []"
    using assms(1) c f m o by (cases e) (auto simp: New_def bindE_eq_Inr)
  have "sm_wf machine" using sm_wf_new [OF n(2)] sm_wf_open(1) [of machine0] n(3) by simp
  moreover have "nat (cf_WindowSize c) < 2 ^ 32" using normalizeConfig_window [OF n(1) assms(2)] by (simp add: nat_less_iff)
  ultimately have "session_inv 0 {} s0" using table_inv_new by (simp add: session_inv_def n(5,6))
  moreover have "dm_heap (pt_deadlines (se_table s0)) = []" by (simp add: n(6) newPendingTable_def newDeadlineManager_def)
  ultimately have "session_inv 0 {} s" "se_tx s = []" using liveness_ok [of 0 s0 now] by (simp_all add: n(4,7))
  then show ?thesis by (simp add: sys_inv_def slots_def outstanding_def)
qed

lemma sys_inv_step:
  assumes "sys_inv sy" "sysStep ev sy = Some sy'" "distinct (map ti_sequence (outstanding sy'))"
  shows "sys_inv sy' \<and> results_kept sy sy'"
proof -
  let ?s = "sy_session sy"
  have k: "keeps {} ?s (?s\<lparr>se_deferred := d\<rparr>)" for d by (intro keeps_same) simp_all
  have add: "sys_inv sy' \<and> results_kept sy sy'" if "addCaller probe (c, s) sy = sy'" "calls (OReturned None) c ?s s" for probe c s
    using sys_inv_add [OF assms(1) that(2), of probe] assms(3) unfolding that(1) by simp
  show ?thesis
  proof (cases ev)
    case (StartRequest command body waitWindow)
    obtain c s where r: "requestStart command body waitWindow ?s = (c, s)" by fastforce
    show ?thesis using assms(2) by (intro add [OF _ requestStart_calls [OF r]]) (simp_all add: StartRequest sysStep_def r)
  next
    case (StartOneWay command body)
    obtain c s where r: "oneWayStart command body ?s = (c, s)" by fastforce
    show ?thesis using assms(2) by (intro add [OF _ oneWayStart_calls [OF r]]) (simp_all add: StartOneWay sysStep_def r)
  next
    case (StartDeferred request response)
    obtain c s where r: "respondStart request response ?s = (c, s)" by fastforce
    show ?thesis using assms(2) by (intro add [OF _ respondStart_calls [OF r]]) (simp_all add: StartDeferred sysStep_def r)
  next
    case StartProbe
    let ?s' = "?s\<lparr>se_probes := se_probes ?s - 1\<rparr>"
    obtain c s where r: "requestStart CommandEnquireLink (Val EmptyB) False ?s' = (c, s)" by fastforce
    have eq: "session_inv k {} ?s' = session_inv k {} ?s" "se_table ?s' = se_table ?s" "se_tx ?s' = se_tx ?s" for k by (simp_all add: session_inv_def)
    have "calls (OReturned None) c ?s s" using requestStart_calls [OF r, of "OReturned None"] unfolding calls_def eq by simp
    moreover have "addCaller True (c, s) sy = sy'"
      using assms(2) unfolding StartProbe sysStep_def Let_def event.case r by (simp split: if_splits)
    ultimately show ?thesis by (intro add [of True c s])
  next
    case (Abandon request)
    have "keeps {} ?s (snd (AbandonDeferredResponse request ?s))"
      using k by (auto simp: AbandonDeferredResponse_def split: option.split bool.split)
    from sys_inv_session [OF assms(1) this assms(3)] show ?thesis using assms(2) by (auto simp: Abandon sysStep_def)
  next
    case CloseSession
    show ?thesis using sys_inv_session [OF assms(1) keeps_terminate assms(3)] assms(2) by (auto simp: CloseSession sysStep_def)
  next
    case (Wake i w)
    obtain probe c where pc: "sy_callers sy ! i = (probe, c)" by fastforce
    obtain c' s' where w: "i < length (sy_callers sy)" "wakeCaller c w ?s = Some (c', s')"
      "sy' = sy\<lparr>sy_session := (if probe then probeReturned c' s' else s'), sy_callers := (sy_callers sy)[i := (probe, c')]\<rparr>"
      using assms(2) pc by (auto simp: Wake sysStep_def split: if_splits)
    show ?thesis using sys_inv_wake [OF assms(1) w(1) pc w(2)] assms(3) by (simp add: w(3))
  next
    case (Frame frame now)
    show ?thesis using sys_inv_setRx [OF assms(1) received_processFrame] assms(2,3) by (auto simp: Frame sysStep_def split: if_splits)
  next
    case (HandlerReturns outcome)
    then obtain pdu where "sy' = setRx (handlerReturned pdu outcome ?s) sy" using assms(2) by (auto simp: sysStep_def split: rxOutcome.splits)
    then show ?thesis using sys_inv_setRx [OF assms(1) received_handlerReturned] assms(3) by simp
  next
    case (RxWake w)
    obtain item cont rx s where rx: "sy_rx sy = RxQueue item cont" "rxResume item cont w ?s = Some (rx, s)" "sy' = setRx (rx, s) sy"
      using assms(2) by (auto simp: RxWake sysStep_def split: rxOutcome.splits)
    show ?thesis
    proof (cases rule: rxResume_forms [OF rx(2)])
      case 1
      show ?thesis
      proof (rule sys_inv_next [OF assms(1) _ _ assms(3)])
        show "session_inv (slots (sy_callers sy')) {} (sy_session sy')" "tame (se_table ?s) (se_table (sy_session sy'))"
          using assms(1) by (simp_all add: rx(3) 1 setRx_def sys_inv_def session_inv_def tame_same)
      qed (auto simp: rx 1 setRx_def outstanding_def)
    next
      case 2
      have "received ?s (rx, s)" using 2 by (simp add: received_def)
      from sys_inv_setRx [OF assms(1) this] show ?thesis using assms(3) by (simp add: rx(3))
    qed
  next
    case (ReadEnd err)
    have "received ?s (RxError err, ?s)" by (simp add: received_def)
    from sys_inv_setRx [OF assms(1) this] show ?thesis using assms(2,3) by (auto simp: ReadEnd sysStep_def split: if_splits)
  next
    case (Transmit now result)
    then show ?thesis using sys_inv_transmit [OF assms(1), of now result] assms(2,3) by (auto simp: sysStep_def)
  next
    case (Expire now)
    show ?thesis using sys_inv_expire [OF assms(1), of now] assms(2) by (simp add: Expire sysStep_def Let_def)
  qed
qed

lemma sys_inv_reachable: "sys_reachable sy \<Longrightarrow> sys_inv sy"
proof (induction rule: sys_reachable.induct)
  case (new config now s)
  then show ?case by (rule sys_inv_new)
next
  case (step sy ev sy')
  then show ?case using sys_inv_step by blast
qed

end
