(* ===== verification/RunProperties.thy ===== *)
theory RunProperties
  imports RunInvariant
begin

text \<open>
  The properties of the runs of a session: every request gets exactly one result, every slot of the window is
  accounted for, the deadline heap holds exactly the deadlines of the requests that wait for a response, responses settle
  the request they belong to, and the end of the session settles all of them. A concrete run serves the witnesses.
\<close>

section \<open>A concrete run\<close>

text \<open>A session of an ESME with a window of four requests, and its first request.\<close>

definition exampleConfig :: "unit Config" where
  "exampleConfig =
     \<lparr>cf_Role = RoleESME, cf_Profile = SMPP34Profile, cf_Registry = Some (smpp34Registry RegistryCompatible), cf_MaxPDUSize = 64,
      cf_MaxPending = 4, cf_MaxDeferredResponses = 4, cf_WindowSize = 4, cf_ResponseTimeout = 0, cf_SessionInitTimeout = 0,
      cf_EnquireLinkInterval = 0, cf_EnquireLinkTimeout = 0, cf_InactivityTimeout = 0, cf_WriteTimeout = 0, cf_TXQueueSize = 4,
      cf_TXBatchItems = 4, cf_TXBatchBytes = 64, cf_ReadBufferSize = 64, cf_Handler = False\<rparr>"

definition exampleBind :: "unit any" where
  "exampleBind = Val (BindRequestB \<lparr>br_SystemID = [65], br_Password = [], br_SystemType = [], br_InterfaceVersion = InterfaceVersion34,
     br_AddressTON = 0, br_AddressNPI = 0, br_AddressRange = []\<rparr>)"

lemma exampleBind_encodes:
  "\<exists>frame. EncodePDU [] (requestHeader CommandBindTransceiver 1) exampleBind (Some (smpp34Registry RegistryCompatible)) = Inr frame"
proof
  show "EncodePDU [] (requestHeader CommandBindTransceiver 1) exampleBind (Some (smpp34Registry RegistryCompatible)) =
      Inr [0, 0, 0, 24, 0, 0, 0, 9, 0, 0, 0, 0, 0, 0, 0, 1, 65, 0, 0, 0, 0x34, 0, 0, 0]" by code_simp
qed

lemma scheduleLiveness_form: "\<exists>m. scheduleLivenessDeadlines now s = s\<lparr>se_table := (se_table s)\<lparr>pt_deadlines := m\<rparr>\<rparr>"
proof -
  let ?P = "\<lambda>s'. \<exists>m. s' = s\<lparr>se_table := (se_table s)\<lparr>pt_deadlines := m\<rparr>\<rparr>"
  have base: "?P s" by (rule exI [of _ "pt_deadlines (se_table s)"]) (cases s, simp)
  have slot: "?P (scheduleSlot ref now after kind s')" if p: "?P s'" for ref after kind s'
  proof -
    obtain m where "s' = s\<lparr>se_table := (se_table s)\<lparr>pt_deadlines := m\<rparr>\<rparr>" using p by blast
    then show ?thesis by (intro exI [of _ "snd (scheduleItemAt m ref now after kind 0 0)"]) (simp add: scheduleSlot_def)
  qed
  have opt: "?P (if b then scheduleSlot ref now after kind s' else s')" if "?P s'" for b ref after kind s'
    using that slot [OF that] by (cases b) simp_all
  show ?thesis unfolding scheduleLivenessDeadlines_def Let_def by (intro opt base)
qed

lemma exampleNew:
  obtains s m machine where "New exampleConfig 0 = Inr s" "se_table s = (newPendingTable 4 4)\<lparr>pt_deadlines := m\<rparr>"
    "se_machine s = machine" "BeginOutbound machine CommandBindTransceiver = (None, machine\<lparr>pendingLocalBind := CommandBindTransceiver\<rparr>)"
    "se_done s = False" "se_seq s = 0" "se_tx s = []" "cf_MaxPending (se_config s) = 4"
    "cf_Registry (se_config s) = Some (smpp34Registry RegistryCompatible)"
proof -
  have c: "normalizeConfig exampleConfig = Inr (normalizeTimeouts exampleConfig)"
    by (simp add: normalizeConfig_def exampleConfig_def normalizeBounds_def normalizeTimeouts_def normalizeQueues_def roleValid_def
        SMPP34Profile_def ProfileValid_def bindE_def Let_def)
  have f: "NewFramer (cf_MaxPDUSize (normalizeTimeouts exampleConfig)) = Inr \<lparr>maxPDUSize = 64, pending = [], expected = 0, failed = None\<rparr>"
    by (simp add: NewFramer_def exampleConfig_def normalizeTimeouts_def)
  let ?m = "\<lparr>sm_role = RoleESME, sm_state = StateOpen, pendingLocalBind = 0, pendingPeerBind = 0,
     localUnbindFrom = StateClosed, peerUnbindFrom = StateClosed\<rparr> :: StateMachine"
  have m: "NewStateMachine (cf_Role (normalizeTimeouts exampleConfig)) = Inr (?m\<lparr>sm_state := StateClosed\<rparr>)"
    by (simp add: NewStateMachine_def exampleConfig_def normalizeTimeouts_def roleValid_def)
  have o: "openMachine (?m\<lparr>sm_state := StateClosed\<rparr>) = (None, ?m)" by (simp add: openMachine_def)
  have b: "BeginOutbound ?m CommandBindTransceiver = (None, ?m\<lparr>pendingLocalBind := CommandBindTransceiver\<rparr>)" by code_simp
  obtain s0 where s0: "New exampleConfig 0 = Inr (scheduleLivenessDeadlines 0 s0)" "se_table s0 = newPendingTable 4 4" "se_machine s0 = ?m"
    "se_done s0 = False" "se_seq s0 = 0" "se_tx s0 = []" "cf_MaxPending (se_config s0) = 4"
    "cf_Registry (se_config s0) = Some (smpp34Registry RegistryCompatible)"
    using c f m o by (simp add: New_def bindE_def, simp add: exampleConfig_def normalizeTimeouts_def)
  obtain d where "scheduleLivenessDeadlines 0 s0 = s0\<lparr>se_table := (se_table s0)\<lparr>pt_deadlines := d\<rparr>\<rparr>" using scheduleLiveness_form by blast
  then show thesis using that [of "scheduleLivenessDeadlines 0 s0" d ?m] s0 b by simp
qed

lemma example_insert:
  fixes s :: "unit Session"
  assumes "pt_m (se_table s) = []" "pt_requests (se_table s) = []" "pt_max (se_table s) = 4" "se_seq s = 0" "cf_MaxPending (se_config s) = 4"
    "cf_Registry (se_config s) = Some (smpp34Registry RegistryCompatible)"
  obtains item s' where "requestInsert CommandBindTransceiver exampleBind s = (CQueue item 0, s')" "length (pt_requests (se_table s')) = 1"
    "se_tx s' = se_tx s" "se_done s' = se_done s" "pt_m (se_table s') = [(1, 0)]" "ti_sequence item = 1"
proof -
  let ?q = "newRequest CommandBindTransceiver exampleBind"
  obtain frame where frame: "EncodePDU [] (requestHeader CommandBindTransceiver 1) exampleBind (Some (smpp34Registry RegistryCompatible)) = Inr frame"
    using exampleBind_encodes by blast
  have one: "nextSequence 0 = 1" by code_simp
  obtain t where t: "insertRequest 1 ?q (se_table s) = Inr t" "length (pt_requests t) = 1" "pt_m t = [(1, 0)]"
    by (simp add: insertRequest_def assms)
  have l: "insertLoop (nat (cf_MaxPending (se_config s) + 1)) (se_seq s) ?q (se_table s) = (Inr (1, t), 1)"
    using t(1) assms(4,5) by (simp add: numeral_eq_Suc Let_def one [simplified])
  show thesis using that t(2,3) unfolding requestInsert_def l Let_def by (simp add: assms(2,6) frame requestItem_def)
qed

text \<open>The system after its first caller has passed the window and the state machine.\<close>

lemma exampleBegun:
  obtains sy :: "unit System" where "sys_reachable sy" "\<not> se_done (sy_session sy)" "sy_callers sy = [(False, CBegun CommandBindTransceiver exampleBind)]"
    "pt_m (se_table (sy_session sy)) = []" "pt_requests (se_table (sy_session sy)) = []" "pt_max (se_table (sy_session sy)) = 4"
    "se_seq (sy_session sy) = 0" "cf_MaxPending (se_config (sy_session sy)) = 4"
    "cf_Registry (se_config (sy_session sy)) = Some (smpp34Registry RegistryCompatible)" "se_tx (sy_session sy) = []" "sy_rx sy = RxOk" "sy_tx sy = TxIdle"
proof -
  obtain s m machine where s: "New exampleConfig 0 = Inr s" "se_table s = (newPendingTable 4 4)\<lparr>pt_deadlines := m\<rparr>"
    "se_machine s = machine" "BeginOutbound machine CommandBindTransceiver = (None, machine\<lparr>pendingLocalBind := CommandBindTransceiver\<rparr>)"
    "se_done s = False" "se_seq s = 0" "se_tx s = []" "cf_MaxPending (se_config s) = 4"
    "cf_Registry (se_config s) = Some (smpp34Registry RegistryCompatible)" using exampleNew by blast
  let ?sy0 = "\<lparr>sy_session = s, sy_callers = [], sy_rx = RxOk, sy_tx = TxIdle\<rparr>"
  have r0: "sys_reachable ?sy0" using sys_reachable.new [OF s(1)] by (simp add: exampleConfig_def)
  obtain w where w: "takeSlot (pt_window (se_table s)) = Some w"
    by (simp add: s(2) newPendingTable_def newRequestWindow_def takeSlot_def takeToken_def)
  let ?s1 = "(setWindow w s)\<lparr>se_machine := machine\<lparr>pendingLocalBind := CommandBindTransceiver\<rparr>\<rparr>"
  have c: "requestChecks CommandBindTransceiver exampleBind s = None"
  proof -
    have "\<not> IsResponse CommandBindTransceiver" by code_simp
    then show ?thesis by (simp add: requestChecks_def s(5) bindRequestVersion_def isOneWayCommand_def requiresSMPP50_def exampleBind_def)
  qed
  have "requestStart CommandBindTransceiver exampleBind False s = (CBegun CommandBindTransceiver exampleBind, ?s1)"
    using c w s(3,4) by (simp add: requestStart_def acquire_def requestAcquired_def requestBegin_def)
  then have "sysStep (StartRequest CommandBindTransceiver exampleBind False) ?sy0 =
      Some \<lparr>sy_session = ?s1, sy_callers = [(False, CBegun CommandBindTransceiver exampleBind)], sy_rx = RxOk, sy_tx = TxIdle\<rparr>" (is "_ = Some ?sy1")
    by (simp add: sysStep_def addCaller_def)
  then have "sys_reachable ?sy1" by (rule sys_reachable.step [OF r0]) (simp add: outstanding_def s(7))
  then show thesis using that [of ?sy1] s by (simp add: setWindow_def newPendingTable_def)
qed

text \<open>The system after its first caller has put its request into the table.\<close>

lemma exampleRun:
  obtains sy :: "unit System" and item where "sys_reachable sy" "length (pt_requests (se_table (sy_session sy))) = 1" "\<not> se_done (sy_session sy)"
    "sy_callers sy = [(False, CQueue item 0)]" "pt_m (se_table (sy_session sy)) = [(1, 0)]"
proof (rule exampleBegun)
  fix sy1 :: "unit System" assume sy1: "sys_reachable sy1" "\<not> se_done (sy_session sy1)" "sy_callers sy1 = [(False, CBegun CommandBindTransceiver exampleBind)]"
    "pt_m (se_table (sy_session sy1)) = []" "pt_requests (se_table (sy_session sy1)) = []" "pt_max (se_table (sy_session sy1)) = 4"
    "se_seq (sy_session sy1) = 0" "cf_MaxPending (se_config (sy_session sy1)) = 4"
    "cf_Registry (se_config (sy_session sy1)) = Some (smpp34Registry RegistryCompatible)" "se_tx (sy_session sy1) = []" "sy_rx sy1 = RxOk" "sy_tx sy1 = TxIdle"
  obtain item s2 where i: "requestInsert CommandBindTransceiver exampleBind (sy_session sy1) = (CQueue item 0, s2)" "length (pt_requests (se_table s2)) = 1"
    "se_tx s2 = se_tx (sy_session sy1)" "se_done s2 = se_done (sy_session sy1)" "pt_m (se_table s2) = [(1, 0)]"
    by (rule example_insert [of "sy_session sy1"]) (simp_all add: sy1)
  let ?sy2 = "sy1\<lparr>sy_session := s2, sy_callers := [(False, CQueue item 0)]\<rparr>"
  have step: "sysStep (Wake 0 Ready) sy1 = Some ?sy2" using i(1) by (simp add: sysStep_def wakeCaller_def sy1(3))
  have "sys_reachable ?sy2" using i(3) sy1 by (intro sys_reachable.step [OF sy1(1) step]) (simp add: outstanding_def)
  then show thesis using that [of ?sy2 item] i(2,4,5) sy1(2) by simp
qed

section \<open>The properties of all runs\<close>

text \<open>C17: Every request gets exactly one result: while it is in the table of pending requests it has none, it holds its slot of
  the window and is not finished; once it has left the table, whatever took it out (a response, a timeout, the end of the
  caller's context, an encoder error, the end of the session), it has one result, and owns neither slot nor deadline.\<close>

theorem requests_get_one_result:
  assumes "sys_reachable sy" "r < length (pt_requests (se_table (sy_session sy)))"
  shows "let t = se_table (sy_session sy); q = pt_requests t ! r in
     if r \<in> snd ` set (pt_m t) then pr_done q = [] \<and> \<not> pr_finished q \<and> pr_releaseWindow q
     else length (pr_done q) = 1 \<and> pr_finished q \<and> \<not> pr_releaseWindow q \<and> pr_deadline q = None"
proof -
  let ?t = "se_table (sy_session sy)"
  have inv: "table_inv (slots (sy_callers sy)) {} {} ?t" using sys_inv_reachable [OF assms(1)] by (simp add: sys_inv_def session_inv_def)
  show ?thesis
  proof (cases "r \<in> snd ` set (pt_m ?t)")
    case True
    then obtain x where "(x, r) \<in> set (pt_m ?t)" by auto
    then have "entry_ok {} ?t (x, r)" using inv unfolding table_inv_def by blast
    then show ?thesis using True by (simp add: entry_ok_def Let_def)
  next
    case False
    then have "settled {} ?t r" using inv assms(2) unfolding table_inv_def by blast
    then show ?thesis using False by (simp add: settled_def Let_def)
  qed
qed

theorem requests_get_one_result_witness:
  "\<exists>sy :: unit System. sys_reachable sy \<and> length (pt_requests (se_table (sy_session sy))) = 1 \<and>
     (let t = se_table (sy_session sy); q = pt_requests t ! 0 in
      if 0 \<in> snd ` set (pt_m t) then pr_done q = [] \<and> \<not> pr_finished q \<and> pr_releaseWindow q
      else length (pr_done q) = 1 \<and> pr_finished q \<and> \<not> pr_releaseWindow q \<and> pr_deadline q = None)"
proof (rule exampleRun)
  fix sy :: "unit System" assume "sys_reachable sy" "length (pt_requests (se_table (sy_session sy))) = 1"
  then show ?thesis using requests_get_one_result [of sy 0] by (intro exI [of _ sy]) simp
qed

text \<open>C18: A result once sent is final: no later step of any goroutine or caller adds a second one or replaces it.\<close>

theorem results_final:
  assumes "sys_reachable sy" "sysStep ev sy = Some sy'" "distinct (map ti_sequence (outstanding sy'))"
    and "r < length (pt_requests (se_table (sy_session sy)))" "pr_done (pt_requests (se_table (sy_session sy)) ! r) \<noteq> []"
  shows "r < length (pt_requests (se_table (sy_session sy'))) \<and>
     pr_done (pt_requests (se_table (sy_session sy')) ! r) = pr_done (pt_requests (se_table (sy_session sy)) ! r)"
  using sys_inv_step [OF sys_inv_reachable [OF assms(1)] assms(2,3)] assms(4,5) by (simp add: results_kept_def)

lemma closeStep:
  "sysStep CloseSession sy = Some (sy\<lparr>sy_session := terminate ErrSessionClosed (sy_session sy)\<rparr>)"
  by (simp add: sysStep_def)

lemma close_outstanding: "outstanding (sy\<lparr>sy_session := terminate e (sy_session sy)\<rparr>) = outstanding sy"
  by (simp add: outstanding_def terminate_def Let_def)

lemma reachable_close: "sys_reachable sy \<Longrightarrow> sys_reachable (sy\<lparr>sy_session := terminate ErrSessionClosed (sy_session sy)\<rparr>)"
  using sys_inv_reachable [of sy] by (intro sys_reachable.step [OF _ closeStep]) (simp_all add: close_outstanding sys_inv_def)

lemma exampleClosed:
  obtains sy :: "unit System" where "sys_reachable sy" "length (pt_requests (se_table (sy_session sy))) = 1"
    "pt_m (se_table (sy_session sy)) = []" "se_done (sy_session sy)" "sy_callers sy = [(False, CWait 0)]"
proof (rule exampleRun)
  fix sy :: "unit System" and item
  assume sy: "sys_reachable sy" "length (pt_requests (se_table (sy_session sy))) = 1" "\<not> se_done (sy_session sy)" "sy_callers sy = [(False, CQueue item 0)]"
  let ?sy = "sy\<lparr>sy_session := terminate ErrSessionClosed (sy_session sy)\<rparr>"
  have inv: "table_inv (slots (sy_callers sy)) {} {} (se_table (sy_session sy))"
    using sys_inv_reachable [OF sy(1)] by (simp add: sys_inv_def session_inv_def)
  have closed: "length (pt_requests (se_table (sy_session ?sy))) = 1" "pt_m (se_table (sy_session ?sy)) = []" "se_done (sy_session ?sy)"
    using sy(2,3) table_inv_failAll(2,3) [OF inv] by (simp_all add: terminate_def Let_def)
  have r: "sys_reachable ?sy" using reachable_close [OF sy(1)] .
  have step: "sysStep (Wake 0 SessDone) ?sy = Some (?sy\<lparr>sy_callers := [(False, CWait 0)]\<rparr>)"
    using closed(3) by (simp add: sysStep_def sy(4) wakeCaller_def requestQueue_def)
  have "distinct (map ti_sequence (outstanding (?sy\<lparr>sy_callers := [(False, CWait 0)]\<rparr>)))"
    using sys_inv_reachable [OF r] by (auto simp: sys_inv_def outstanding_def sy(4) split: if_splits)
  from sys_reachable.step [OF r step this] show thesis using that closed by simp
qed

theorem results_final_witness:
  "\<exists>sy sy' :: unit System. sys_reachable sy \<and> sysStep CloseSession sy = Some sy' \<and> pr_done (pt_requests (se_table (sy_session sy)) ! 0) \<noteq> [] \<and>
     pr_done (pt_requests (se_table (sy_session sy')) ! 0) = pr_done (pt_requests (se_table (sy_session sy)) ! 0)"
proof (rule exampleClosed)
  fix sy :: "unit System" assume sy: "sys_reachable sy" "length (pt_requests (se_table (sy_session sy))) = 1"
    "pt_m (se_table (sy_session sy)) = []" "se_done (sy_session sy)"
  let ?sy = "sy\<lparr>sy_session := terminate ErrSessionClosed (sy_session sy)\<rparr>"
  have inv: "sys_inv sy" using sys_inv_reachable [OF sy(1)] .
  then have "settled {} (se_table (sy_session sy)) 0" using sy(2,3) by (simp add: sys_inv_def session_inv_def table_inv_def)
  then have d: "pr_done (pt_requests (se_table (sy_session sy)) ! 0) \<noteq> []" by (auto simp: settled_def Let_def)
  have "distinct (map ti_sequence (outstanding ?sy))" using inv by (simp add: close_outstanding sys_inv_def)
  from results_final [OF sy(1) closeStep this, of 0] show ?thesis
    using sy(1,2) d closeStep by (intro exI [of _ sy] exI [of _ ?sy]) simp
qed

text \<open>C19: Slots of the window are never lost: the slots in use are those of the requests in the table and of the callers
  between the window and the table, they do not exceed the window, and the table stays within its limit.\<close>

theorem window_slots_accounted:
  assumes "sys_reachable sy"
  shows "let t = se_table (sy_session sy); w = pt_window t in
     rw_tokens w = length (pt_m t) + slots (sy_callers sy) \<and> rw_tokens w \<le> rw_size w \<and> unat (rw_inUse w) = rw_tokens w \<and>
     int (length (pt_m t)) \<le> max 0 (pt_max t)"
proof -
  let ?t = "se_table (sy_session sy)" and ?w = "pt_window (se_table (sy_session sy))"
  have inv: "table_inv (slots (sy_callers sy)) {} {} ?t" using sys_inv_reachable [OF assms(1)] by (simp add: sys_inv_def session_inv_def)
  then have w: "rw_size ?w < 2 ^ 32" "rw_tokens ?w \<le> rw_size ?w" "rw_inUse ?w = of_nat (rw_tokens ?w)" by (simp_all add: table_inv_def window_inv_def)
  then have "unat (rw_inUse ?w) = rw_tokens ?w" by (simp add: unat_of_nat)
  then show ?thesis using inv w(2) by (simp add: table_inv_def Let_def)
qed

theorem window_slots_accounted_witness:
  "\<exists>sy :: unit System. sys_reachable sy \<and> length (pt_requests (se_table (sy_session sy))) = 1 \<and>
     rw_tokens (pt_window (se_table (sy_session sy))) = length (pt_m (se_table (sy_session sy))) + slots (sy_callers sy)"
proof (rule exampleRun)
  fix sy :: "unit System" assume "sys_reachable sy" "length (pt_requests (se_table (sy_session sy))) = 1"
  then show ?thesis using window_slots_accounted [of sy] by (intro exI [of _ sy]) (simp add: Let_def)
qed

text \<open>C20: The deadline heap holds exactly the armed deadlines of the requests that wait for a response (and those of the
  liveness checks): no timer of a settled request is left behind, and no armed deadline is missing.\<close>

theorem deadlines_match_requests:
  assumes "sys_reachable sy"
  shows "let t = se_table (sy_session sy); heap = set (dm_heap (pt_deadlines t)) in
     wf_heap (pt_deadlines t) \<and>
     {i \<in> heap. 3 \<le> di_ref i} = {i. \<exists>sequence r. (sequence, r) \<in> set (pt_m t) \<and> pr_deadline (pt_requests t ! r) = Some i}"
proof -
  let ?t = "se_table (sy_session sy)"
  have inv: "table_inv (slots (sy_callers sy)) {} {} ?t" using sys_inv_reachable [OF assms(1)] by (simp add: sys_inv_def session_inv_def)
  then have h: "heap_owned ?t" by (simp add: table_inv_def)
  have e: "entry_ok {} ?t e" if "e \<in> set (pt_m ?t)" for e using inv that unfolding table_inv_def by blast
  have "i \<in> set (dm_heap (pt_deadlines ?t)) \<and> 3 \<le> di_ref i" if "(x, r) \<in> set (pt_m ?t)" "pr_deadline (pt_requests ?t ! r) = Some i" for i x r
    using e [OF that(1)] that(2) by (simp add: entry_ok_def Let_def requestSlot_def)
  then show ?thesis using h unfolding heap_owned_def Let_def by blast
qed

theorem deadlines_match_requests_witness:
  "\<exists>sy :: unit System. sys_reachable sy \<and> length (pt_requests (se_table (sy_session sy))) = 1 \<and> wf_heap (pt_deadlines (se_table (sy_session sy)))"
proof (rule exampleRun)
  fix sy :: "unit System" assume "sys_reachable sy" "length (pt_requests (se_table (sy_session sy))) = 1"
  then show ?thesis using deadlines_match_requests [of sy] by (intro exI [of _ sy]) (simp add: Let_def)
qed

lemma response_settles:
  fixes s :: "'v Session" and now :: int
  assumes "table_inv k {} {} (se_table s)"
    and tk: "takeResponse (h_SequenceNumber (dp_Header pdu)) (h_CommandID (dp_Header pdu)) (se_table s) = Some (r, t)"
  defines "s' \<equiv> handleResponse pdu now s" and "x \<equiv> h_SequenceNumber (dp_Header pdu)"
  shows "pr_done (pt_requests (se_table s') ! r) = [Answered pdu] \<and> map_of (pt_m (se_table s')) x = None \<and>
    (if pr_requestID (pt_requests (se_table s) ! r) = CommandUnbind \<and> OK (h_CommandStatus (dp_Header pdu)) \<and> \<not> se_done s
     then se_done s' \<and> pt_m (se_table s') = [] \<and>
       (\<forall>r' < length (pt_requests (se_table s)). r' \<noteq> r \<longrightarrow> pr_done (pt_requests (se_table s') ! r') =
          (if r' \<in> snd ` set (pt_m (se_table s)) then [Failed ErrSessionClosed] else pr_done (pt_requests (se_table s) ! r')))
     else pt_m (se_table s') = filter (\<lambda>e. fst e \<noteq> x) (pt_m (se_table s)) \<and>
       (\<forall>r'. r' \<noteq> r \<longrightarrow> pt_requests (se_table s') ! r' = pt_requests (se_table s) ! r'))"
proof -
  let ?t = "se_table s" and ?h = "dp_Header pdu"
  let ?f = "\<lambda>q. snd (markResponseAt now (h_CommandID ?h) (h_CommandStatus ?h) q)"
  let ?t1 = "updRequest r ?f t"
  let ?t2 = "sendDone r (Answered pdu) ?t1"
  note f = takeResponse_forms [OF tk, folded x_def] and h = handleResponse_table [OF tk assms(1), of now]
  note e = table_inv_entry [OF assms(1) f(1)] and fin = finish_entry [OF assms(1) f(1), folded f(2)]
  have r: "r < length (pt_requests t)" using e(2) fin(4) by simp
  have m: "pt_m ?t2 = filter (\<lambda>e. fst e \<noteq> x) (pt_m ?t)" using fin(1) by (simp add: sendDone_def deleteEntry_def)
  have len: "length (pt_requests ?t2) = length (pt_requests ?t)" using fin(4) by (simp add: sendDone_def)
  have other: "pt_requests ?t2 ! r' = pt_requests ?t ! r'" if "r' \<noteq> r" for r'
    using that r fin(5) by (simp add: sendDone_def updRequest_nth)
  have ident: "pr_requestID (pt_requests ?t1 ! r) = pr_requestID (pt_requests ?t ! r)"
    using r fin(5) by (simp add: updRequest_nth markResponseAt_def claim_neutral)
  have left: "r \<notin> snd ` set (pt_m ?t2)" using e(4) unfolding m by (simp add: deleteEntry_def)
  have rest: "r' \<in> snd ` set (pt_m ?t2) \<longleftrightarrow> r' \<in> snd ` set (pt_m ?t)" if "r' \<noteq> r" for r'
    using that map_of_SomeD [OF f(1)] e(5) unfolding m by (force simp: image_iff dest: eq_key_imp_eq_value)
  have settled: "pr_done (pt_requests ?t2 ! r) = [Answered pdu]" by (fact h(3))
  have none: "map_of (pt_m ?t2) x = None" unfolding m by (simp add: map_of_filter_key)
  show ?thesis
  proof (rule handleResponse_forms [OF tk, of now])
    fix caps cong id
    let ?s1 = "s\<lparr>se_machine := CompleteOutbound (se_machine s) id (h_CommandStatus ?h), se_peerCaps := caps, se_congestion := cong, se_table := ?t2\<rparr>"
    assume i: "id = pr_requestID (pt_requests ?t1 ! r)" and eq: "handleResponse pdu now s =
      (let s' = ?s1 in if id = CommandUnbind \<and> OK (h_CommandStatus ?h) then terminate ErrSessionClosed s' else s')"
    show ?thesis
    proof (cases "id = CommandUnbind \<and> OK (h_CommandStatus ?h) \<and> \<not> se_done s")
      case True
      note fa = table_inv_failAll [OF h(1), where err = ErrSessionClosed]
      have s': "se_table s' = failAll ErrSessionClosed ?t2" "se_done s'" using True by (simp_all add: s'_def eq terminate_def Let_def)
      have "pr_done (pt_requests (se_table s') ! r) = [Answered pdu]" using fa(4) [of r] len e(2) left settled by (simp add: s'(1))
      moreover have "pr_done (pt_requests (se_table s') ! r') =
          (if r' \<in> snd ` set (pt_m ?t) then [Failed ErrSessionClosed] else pr_done (pt_requests ?t ! r'))"
        if "r' < length (pt_requests ?t)" "r' \<noteq> r" for r'
        using fa(4) [of r'] len that rest other by (simp add: s'(1))
      ultimately show ?thesis using True i ident s' fa(2) by simp
    next
      case False
      then have t': "se_table s' = ?t2" by (auto simp: s'_def eq terminate_def Let_def)
      have no: "\<not> (pr_requestID (pt_requests ?t ! r) = CommandUnbind \<and> OK (h_CommandStatus ?h) \<and> \<not> se_done s)"
        using False unfolding i ident .
      show ?thesis unfolding if_not_P [OF no] t' using m none settled other by blast
    qed
  qed
qed

text \<open>C21: A response settles the request with its sequence number, when it is the response the request waits for or a
  generic_nack: the request leaves the table with that response as its result. No other request is affected, unless the
  response accepts an unbind, which ends the session: then all others fail with the error of the close. Any other
  response changes nothing.\<close>

theorem response_correlates:
  assumes "sys_reachable sy"
  shows "let s = sy_session sy; t = se_table s; h = dp_Header pdu; x = h_SequenceNumber h; s' = handleResponse pdu now s; t' = se_table s' in
     case map_of (pt_m t) x of
       None \<Rightarrow> s' = s
     | Some r \<Rightarrow>
         if h_CommandID h = pr_expectedID (pt_requests t ! r) \<or> h_CommandID h = CommandGenericNACK
         then pr_done (pt_requests t' ! r) = [Answered pdu] \<and> map_of (pt_m t') x = None \<and>
           (if pr_requestID (pt_requests t ! r) = CommandUnbind \<and> OK (h_CommandStatus h) \<and> \<not> se_done s
            then se_done s' \<and> pt_m t' = [] \<and>
              (\<forall>r' < length (pt_requests t). r' \<noteq> r \<longrightarrow> pr_done (pt_requests t' ! r') =
                 (if r' \<in> snd ` set (pt_m t) then [Failed ErrSessionClosed] else pr_done (pt_requests t ! r')))
            else pt_m t' = filter (\<lambda>e. fst e \<noteq> x) (pt_m t) \<and> (\<forall>r'. r' \<noteq> r \<longrightarrow> pt_requests t' ! r' = pt_requests t ! r'))
         else s' = s"
proof -
  let ?s = "sy_session sy" and ?h = "dp_Header pdu"
  let ?t = "se_table ?s" and ?x = "h_SequenceNumber ?h"
  have inv: "table_inv (slots (sy_callers sy)) {} {} ?t" using sys_inv_reachable [OF assms(1)] by (simp add: sys_inv_def session_inv_def)
  have unchanged: "handleResponse pdu now ?s = ?s" if "takeResponse ?x (h_CommandID ?h) ?t = None"
    using that by (simp add: handleResponse_def Let_def)
  show ?thesis
  proof (cases "map_of (pt_m ?t) ?x")
    case None
    then show ?thesis using unchanged by (simp add: Let_def takeResponse_def)
  next
    case (Some r)
    show ?thesis
    proof (cases "h_CommandID ?h = pr_expectedID (pt_requests ?t ! r) \<or> h_CommandID ?h = CommandGenericNACK")
      case True
      then have tk: "takeResponse ?x (h_CommandID ?h) ?t = Some (r, finish r (deleteEntry ?x ?t))" using Some by (auto simp: takeResponse_def)
      from response_settles [OF inv tk, of now] show ?thesis using Some True by (simp add: Let_def)
    next
      case False
      then have "takeResponse ?x (h_CommandID ?h) ?t = None" using Some by (simp add: takeResponse_def)
      from unchanged [OF this] show ?thesis using Some False by (simp add: Let_def)
    qed
  qed
qed

theorem response_correlates_witness:
  "\<exists>(sy :: unit System) pdu s'. sys_reachable sy \<and> map_of (pt_m (se_table (sy_session sy))) 1 = Some 0 \<and>
     handleResponse pdu 5 (sy_session sy) = s' \<and> pr_done (pt_requests (se_table s') ! 0) = [Answered pdu] \<and> pt_m (se_table s') = []"
proof (rule exampleRun)
  let ?pdu = "\<lparr>dp_Header = \<lparr>CommandLength = 16, h_CommandID = CommandGenericNACK, h_CommandStatus = 8, h_SequenceNumber = 1\<rparr>, dp_Body = Val EmptyB\<rparr> :: unit DecodedPDU"
  fix sy :: "unit System" assume "sys_reachable sy" "pt_m (se_table (sy_session sy)) = [(1, 0)]"
  then show ?thesis using response_correlates [of sy ?pdu 5] by (intro exI [of _ sy] exI [of _ ?pdu]) (simp add: Let_def OK_def)
qed

text \<open>C22: A caller whose request has left the table does not wait in vain: its next step returns the result.\<close>

theorem settled_caller_returns:
  assumes "sys_reachable sy" "i < length (sy_callers sy)" "sy_callers sy ! i = (probe, c)" "c = CWait r \<or> c = CResult command sequence r"
    and "r \<notin> snd ` set (pt_m (se_table (sy_session sy)))"
  shows "\<exists>result. wakeCaller c Ready (sy_session sy) = Some (CReturned result, sy_session sy) \<and>
     pr_done (pt_requests (se_table (sy_session sy)) ! r) = [result]"
proof -
  have inv: "sys_inv sy" using sys_inv_reachable [OF assms(1)] .
  have "(probe, c) \<in> set (sy_callers sy)" using assms(2,3) nth_mem by metis
  then have "r < length (pt_requests (se_table (sy_session sy)))" using inv assms(4) unfolding sys_inv_def by fastforce
  then have "settled {} (se_table (sy_session sy)) r" using inv assms(5) unfolding sys_inv_def session_inv_def table_inv_def by blast
  then obtain result where "pr_done (pt_requests (se_table (sy_session sy)) ! r) = [result]"
    by (auto simp: settled_def Let_def length_Suc_conv)
  then show ?thesis using assms(4) by (auto simp: wakeCaller_def waitCompleted_def requestWait_def)
qed

theorem settled_caller_returns_witness:
  "\<exists>(sy :: unit System) result. sys_reachable sy \<and> sy_callers sy = [(False, CWait 0)] \<and>
     wakeCaller (CWait 0) Ready (sy_session sy) = Some (CReturned result, sy_session sy)"
proof (rule exampleClosed)
  fix sy :: "unit System" assume "sys_reachable sy" "pt_m (se_table (sy_session sy)) = []" "sy_callers sy = [(False, CWait 0)]"
  then show ?thesis using settled_caller_returns [of sy 0 False "CWait 0" 0] by auto
qed

text \<open>C23: The end of the session fails every pending request: the table is empty, and each request that was in it has the
  error of the close as its result. A second close changes nothing.\<close>

theorem close_fails_pending:
  assumes "sys_reachable sy" "\<not> se_done (sy_session sy)"
  shows "let s = sy_session sy; s' = terminate cause s in
     pt_m (se_table s') = [] \<and> se_done s' \<and> sm_state (se_machine s') = StateClosed \<and> terminate cause' s' = s' \<and>
     (\<forall>r \<in> snd ` set (pt_m (se_table s)). pr_done (pt_requests (se_table s') ! r) =
        [Failed (if sessionIs cause ErrSessionClosed then ErrSessionClosed else LossError (Some cause))])"
proof -
  let ?t = "se_table (sy_session sy)"
  have inv: "table_inv (slots (sy_callers sy)) {} {} ?t" using sys_inv_reachable [OF assms(1)] by (simp add: sys_inv_def session_inv_def)
  have "r < length (pt_requests ?t)" if r: "r \<in> snd ` set (pt_m ?t)" for r
  proof -
    obtain x where "(x, r) \<in> set (pt_m ?t)" using r by auto
    then have "entry_ok {} ?t (x, r)" using inv unfolding table_inv_def by blast
    then show ?thesis by (simp add: entry_ok_def)
  qed
  then show ?thesis using assms(2) table_inv_failAll(2,4) [OF inv] by (simp add: terminate_def Let_def closeMachine_def)
qed

theorem close_fails_pending_witness:
  "\<exists>sy :: unit System. sys_reachable sy \<and> \<not> se_done (sy_session sy) \<and>
     pt_m (se_table (terminate ErrSessionClosed (sy_session sy))) = [] \<and> se_done (terminate ErrSessionClosed (sy_session sy))"
proof (rule exampleRun)
  fix sy :: "unit System" assume "sys_reachable sy" "\<not> se_done (sy_session sy)"
  then show ?thesis using close_fails_pending [of sy ErrSessionClosed ErrSessionClosed] by (intro exI [of _ sy]) (simp add: Let_def)
qed

end
