(* ===== verification/LostRequest.thy ===== *)
theory LostRequest
  imports RunProperties
begin

text \<open>
  A request that was admitted by the window and the state machine before the session ended, and is put into the table after
  that, is not failed by the end of the session any more. This theory shows that its caller, once it has seen the end of the
  session, waits without end.
\<close>

section \<open>Runs from a given state\<close>

fun sysRun :: "'v event list \<Rightarrow> 'v System \<Rightarrow> 'v System option" where
  "sysRun [] sy = Some sy"
| "sysRun (ev # evs) sy =
     (case sysStep ev sy of
        Some sy' \<Rightarrow> if distinct (map ti_sequence (outstanding sy')) then sysRun evs sy' else None
      | None \<Rightarrow> None)"

text \<open>A frame that is decoded to a response with the given sequence number.\<close>

fun answers :: "SequenceNumber \<Rightarrow> 'v event \<Rightarrow> 'v System \<Rightarrow> bool" where
  "answers x (Frame frame now) sy =
     (case DecodePDU frame (cf_Registry (se_config (sy_session sy))) of
        Inr pdu \<Rightarrow> IsResponse (h_CommandID (dp_Header pdu)) \<and> h_SequenceNumber (dp_Header pdu) = x
      | Inl err \<Rightarrow> False)"
| "answers x _ sy = False"

fun unansweredRun :: "SequenceNumber \<Rightarrow> 'v event list \<Rightarrow> 'v System \<Rightarrow> bool" where
  "unansweredRun x [] sy = True"
| "unansweredRun x (ev # evs) sy \<longleftrightarrow> \<not> answers x ev sy \<and> (case sysStep ev sy of Some sy' \<Rightarrow> unansweredRun x evs sy' | None \<Rightarrow> True)"

section \<open>Steps that leave an entry of the table alone\<close>

text \<open>A call that still carries the sequence number, to settle or to queue its request.\<close>

definition refers :: "SequenceNumber \<Rightarrow> 'v caller \<Rightarrow> bool" where
  "refers x c \<longleftrightarrow>
     (case c of
        CQueue item _ \<Rightarrow> ti_sequence item = x
      | CResult _ sequence _ \<Rightarrow> sequence = x
      | OQueue item _ \<Rightarrow> ti_kind item = txRequest \<and> ti_sequence item = x
      | DQueue _ item \<Rightarrow> ti_kind item = txRequest \<and> ti_sequence item = x
      | _ \<Rightarrow> False)"

definition carries :: "SequenceNumber \<Rightarrow> txItem list \<Rightarrow> bool" where
  "carries x items \<longleftrightarrow> x \<in> set (map ti_sequence (filter (\<lambda>item. ti_kind item = txRequest) items))"

definition spares :: "SequenceNumber \<Rightarrow> 'v Session \<Rightarrow> 'v Session \<Rightarrow> bool" where
  "spares x s s' \<longleftrightarrow> (map_of (pt_m (se_table s)) x \<noteq> None \<longrightarrow> map_of (pt_m (se_table s')) x = map_of (pt_m (se_table s)) x) \<and>
     (se_done s \<longrightarrow> se_done s') \<and> (carries x (se_tx s') \<longrightarrow> carries x (se_tx s))"

lemma carries_sequences: "carries x items \<longleftrightarrow> x \<in> set (requestSequences items)"
  by (simp add: carries_def requestSequences_def)

lemma carries_simps [simp]:
  "carries x [] = False" "carries x (item # items) \<longleftrightarrow> ti_kind item = txRequest \<and> ti_sequence item = x \<or> carries x items"
  "carries x (xs @ ys) \<longleftrightarrow> carries x xs \<or> carries x ys"
  by (auto simp: carries_def)

lemma refers_simps [simp]:
  "refers x (CWindow command body) = False" "refers x (CBegun command body) = False" "refers x (CWait r) = False"
  "refers x (CReturned result) = False" "refers x (OWait ch) = False" "refers x (OReturned e) = False" "refers x (DReturned e) = False"
  "refers x (CQueue item r) \<longleftrightarrow> ti_sequence item = x" "refers x (CResult command sequence r) \<longleftrightarrow> sequence = x"
  "refers x (OQueue item ch) \<longleftrightarrow> ti_kind item = txRequest \<and> ti_sequence item = x"
  "refers x (DQueue request item) \<longleftrightarrow> ti_kind item = txRequest \<and> ti_sequence item = x"
  by (simp_all add: refers_def)

lemma spares_refl [simp]: "spares x s s"
  by (simp add: spares_def)

lemma spares_trans: "\<lbrakk>spares x s s'; spares x s' s''\<rbrakk> \<Longrightarrow> spares x s s''"
  by (auto simp: spares_def)

lemma spares_same: "\<lbrakk>pt_m (se_table s') = pt_m (se_table s); se_done s' = se_done s; se_tx s' = se_tx s\<rbrakk> \<Longrightarrow> spares x s s'"
  by (simp add: spares_def)

lemma spares_terminate: "se_done s \<Longrightarrow> spares x s (terminate e s)"
  by (simp add: terminate_def)

lemma finish_keeps_m: "pt_m (finish r t) = pt_m t"
  by (simp add: finish_def Let_def split: option.split)

lemma completeError_spares:
  assumes "completeError sequence err (se_table s) = Some (r, t)" "sequence \<noteq> x"
  shows "spares x s (s\<lparr>se_table := t, se_machine := m\<rparr>)"
  using completeError_forms [OF assms(1)] assms(2)
  by (simp add: spares_def sendDone_def finish_keeps_m deleteEntry_def map_of_filter_key)

lemma setWindow_spares: "spares x s (setWindow w s)"
  by (simp add: setWindow_def spares_same)

lemma releaseSlot_spares: "spares x s (releaseSlot s)"
  by (simp add: releaseSlot_def setWindow_spares)

lemma requestBegin_spares:
  assumes "requestBegin command body s = (c, s')"
  shows "spares x s s' \<and> \<not> refers x c"
proof -
  have "spares x s (releaseSlot (s\<lparr>se_machine := m\<rparr>))" "spares x s (s\<lparr>se_machine := m\<rparr>)" for m
    by (simp_all add: releaseSlot_def setWindow_def spares_def)
  then show ?thesis using assms by (auto simp: requestBegin_def split: prod.splits option.splits)
qed

lemma requestAcquired_spares:
  assumes "requestAcquired command body a s = (c, s')"
  shows "spares x s s' \<and> \<not> refers x c"
  using assms
  by (cases a) (auto dest!: requestBegin_spares [where x = x] intro: spares_trans [OF setWindow_spares] simp: requestAcquired_def setWindow_spares)

lemma requestStart_spares:
  assumes "requestStart command body waitWindow s = (c, s')"
  shows "spares x s s' \<and> \<not> refers x c"
  using assms by (auto dest!: requestAcquired_spares [where x = x] simp: requestStart_def split: option.splits)

lemma insertRequest_spares:
  assumes "insertRequest sequence q t = Inr t'"
  shows "map_of (pt_m t) y \<noteq> None \<Longrightarrow> map_of (pt_m t') y = map_of (pt_m t) y" "map_of (pt_m t) sequence = None"
  using assms by (auto simp: insertRequest_def map_of_append map_add_def split: if_splits)

lemma requestInsert_spares:
  assumes "requestInsert command body s = (c, s')" "map_of (pt_m (se_table s)) x \<noteq> None"
  shows "spares x s s' \<and> \<not> refers x c"
proof -
  let ?t = "se_table s" and ?q = "newRequest command body"
  obtain result sq where l: "insertLoop (nat (cf_MaxPending (se_config s) + 1)) (se_seq s) ?q ?t = (result, sq)" by fastforce
  show ?thesis
  proof (cases result)
    case (Inl err)
    then show ?thesis using assms(1) l by (auto simp: requestInsert_def Let_def releaseSlot_def setWindow_def spares_def)
  next
    case (Inr st)
    then obtain sequence t where i: "insertRequest sequence ?q ?t = Inr t" "result = Inr (sequence, t)"
      using insertLoop_ok l by (cases st) blast
    note t = insertRequest_spares [OF i(1)]
    have ne: "sequence \<noteq> x" using t(2) assms(2) by auto
    let ?s = "s\<lparr>se_seq := sq, se_table := t\<rparr>"
    have s: "spares x s ?s" using t(1) by (simp add: spares_def)
    have done': "spares x s (s\<lparr>se_seq := sq, se_machine := m, se_table := t'\<rparr>)" if "completeError sequence e t = Some (r, t')" for e r t' m
      using completeError_forms [OF that] ne t(1) by (simp add: spares_def sendDone_def finish_keeps_m deleteEntry_def map_of_filter_key)
    have plain: "spares x s (s\<lparr>se_seq := sq, se_machine := m, se_table := t\<rparr>)" for m using t(1) by (simp add: spares_def)
    show ?thesis using assms(1) l i(2) s done' plain ne
      by (auto simp: requestInsert_def Let_def requestItem_def split: sum.splits option.splits)
  qed
qed

lemma wakeCaller_spares:
  assumes "wakeCaller c w s = Some (c', s')" "map_of (pt_m (se_table s)) x \<noteq> None" "\<not> refers x c"
  shows "spares x s s' \<and> \<not> refers x c'"
proof (cases c)
  case (CWindow command body)
  then show ?thesis using assms(1)
    by (auto dest!: requestAcquired_spares [where x = x] simp: wakeCaller_def wakeWindow_def Let_def split: wakeup.splits option.splits if_splits)
next
  case (CBegun command body)
  then have "requestInsert command body s = (c', s')" using assms(1) by (simp add: wakeCaller_def split: if_splits)
  then show ?thesis using assms(2) by (rule requestInsert_spares)
next
  case (CQueue item r)
  then show ?thesis using assms(1,3) completeError_spares [of "ti_sequence item" _ s _ _ x]
    by (auto simp: wakeCaller_def requestQueue_def spares_def split: wakeup.splits option.splits if_splits)
next
  case (CResult command sequence r)
  then show ?thesis using assms(1,3) completeError_spares [of sequence _ s _ _ x]
    by (auto simp: wakeCaller_def requestWait_def waitCompleted_def split: wakeup.splits option.splits if_splits list.splits)
next
  case (CWait r)
  then show ?thesis using assms(1) by (auto simp: wakeCaller_def waitCompleted_def split: if_splits list.splits)
next
  case (OQueue item ch)
  then show ?thesis using assms(1,3)
    by (auto simp: wakeCaller_def oneWayQueue_def spares_def Let_def split: wakeup.splits if_splits)
next
  case (OWait ch)
  then show ?thesis using assms(1) by (auto simp: wakeCaller_def oneWayWait_def split: wakeup.splits option.splits if_splits)
next
  case (DQueue request item)
  then show ?thesis using assms(1,3)
    by (auto simp: wakeCaller_def respondQueue_def spares_def Let_def split: wakeup.splits if_splits)
qed (use assms(1) in \<open>simp_all add: wakeCaller_def\<close>)

lemma probeReturned_spares: "se_done s \<Longrightarrow> spares x s (probeReturned c s)"
  by (auto simp: probeReturned_def terminate_def split: caller.split option.split)

lemma oneWayStart_spares:
  assumes "oneWayStart command body s = (c, s')"
  shows "spares x s s' \<and> \<not> refers x c"
  using assms by (auto simp: oneWayStart_def spares_def Let_def oneWayItem_def split: option.splits if_splits sum.splits prod.splits)

lemma respondStart_spares:
  assumes "respondStart request response s = (c, s')"
  shows "spares x s s' \<and> \<not> refers x c"
  using assms by (auto dest!: makeResponse_kind simp: respondStart_def spares_def Let_def split: option.splits if_splits sum.splits bool.splits)

text \<open>The receiving goroutine.\<close>

lemma handleResponse_spares:
  assumes "se_done s" "h_SequenceNumber (dp_Header pdu) \<noteq> x"
  shows "spares x s (handleResponse pdu now s)"
proof (cases "takeResponse (h_SequenceNumber (dp_Header pdu)) (h_CommandID (dp_Header pdu)) (se_table s)")
  case None
  then show ?thesis by (simp add: handleResponse_def Let_def)
next
  case (Some rt)
  then obtain r t where tk: "takeResponse (h_SequenceNumber (dp_Header pdu)) (h_CommandID (dp_Header pdu)) (se_table s) = Some (r, t)"
    by (cases rt) simp
  note f = takeResponse_forms [OF tk]
  have "map_of (pt_m t) x = map_of (pt_m (se_table s)) x"
    using assms(2) by (simp add: f(2) finish_keeps_m deleteEntry_def map_of_filter_key)
  then show ?thesis
    by (rule_tac handleResponse_forms [OF tk, of now]) (simp add: Let_def spares_def assms(1) terminate_def sendDone_def)
qed

lemma acceptBind_form: "\<exists>response' caps. acceptBind pdu response s = (response', s\<lparr>se_peerCaps := caps\<rparr>)"
proof -
  have same: "\<exists>response' caps. (response, s) = (response', s\<lparr>se_peerCaps := caps\<rparr>)"
    by (intro exI [of _ response] exI [of _ "se_peerCaps s"]) (cases s, simp)
  have b: "\<exists>response' caps. (case b of BindRequestB bind \<Rightarrow> (g bind, s\<lparr>se_peerCaps := h bind\<rparr>) | _ \<Rightarrow> (response, s)) = (response', s\<lparr>se_peerCaps := caps\<rparr>)"
    for b :: "'a body" and g h using same by (cases b) auto
  show ?thesis unfolding acceptBind_def Let_def using same b by (simp split: any.split)
qed

lemma answerRequest_spares: "spares x s (snd (answerRequest pdu response s))"
proof -
  obtain response' caps where a: "acceptBind pdu response s = (response', s\<lparr>se_peerCaps := caps\<rparr>)" using acceptBind_form by blast
  show ?thesis unfolding answerRequest_def Let_def a
    by (auto simp: sendAnswer_def registerDeferredReply_def Let_def spares_def split: sum.splits option.splits)
qed

lemma handleRequest_spares: "spares x s (snd (handleRequest pdu s))"
proof -
  obtain e m where b: "beginInbound (h_CommandID (dp_Header pdu)) s = (e, m)" by fastforce
  have m: "spares x s (s\<lparr>se_machine := m\<rparr>)" by (simp add: spares_def)
  note a = spares_trans [OF m answerRequest_spares]
  have i: "spares x s (snd (if b then p else q))" if "spares x s (snd p)" "spares x s (snd q)" for b and p q :: "'a rxOutcome \<times> 'a Session" using that by simp
  show ?thesis unfolding handleRequest_def Let_def b
    by (cases e; simp only: prod.case option.case) (intro i a; simp add: m)+
qed

lemma processFrame_spares:
  assumes "se_done (sy_session sy)" "\<not> answers x (Frame frame now) sy"
  shows "spares x (sy_session sy) (snd (processFrame frame now (sy_session sy)))"
proof -
  let ?s = "sy_session sy"
  let ?s' = "?s\<lparr>se_lastActivity := now, se_lastInbound := now\<rparr>"
  have s: "spares x ?s ?s'" by (simp add: spares_def)
  have d: "se_done ?s'" using assms(1) by simp
  show ?thesis
  proof (cases "DecodePDU frame (cf_Registry (se_config ?s))")
    case (Inl err)
    then show ?thesis by (auto simp: processFrame_def Let_def split: sum.splits)
  next
    case (Inr pdu)
    show ?thesis
    proof (cases "IsResponse (h_CommandID (dp_Header pdu))")
      case True
      then have "h_SequenceNumber (dp_Header pdu) \<noteq> x" using assms(2) Inr by simp
      from spares_trans [OF s handleResponse_spares [OF d this]] show ?thesis using Inr True by (simp add: processFrame_def Let_def)
    next
      case False
      then show ?thesis using Inr spares_trans [OF s handleRequest_spares] by (simp add: processFrame_def Let_def)
    qed
  qed
qed

lemma rxResume_spares:
  assumes "rxResume item cont w s = Some (rx, s')" "\<not> carries x [item]"
  shows "spares x s s'"
  using assms by (auto simp: rxResume_def spares_def split: wakeup.splits if_splits rxCont.splits)

text \<open>The transmitting goroutine.\<close>

lemma armDeadline_pt_m: "pt_m (armDeadline c now item t) = pt_m t"
  by (auto simp: armDeadline_def markDispatched_def attachDeadline_def Let_def split: option.splits prod.splits)

lemma noteDispatch_pt_m: "pt_m (noteDispatch now item t) = pt_m t"
  by (simp add: noteDispatch_def split: option.split)

lemma sendDispatched_done: "se_done (sendDispatched e item s) = se_done s" "se_done (fold (sendDispatched e) batch s) = se_done s"
  "se_tx (fold (sendDispatched e) batch s) = se_tx s" "se_table (fold (sendDispatched e) batch s) = se_table s"
  by (simp_all add: sendDispatched_def split: option.split) (induction batch arbitrary: s; simp add: sendDispatched_def split: option.split)+

lemma txStep_spares:
  assumes "txStep now result p s = Some (p', s')" "se_done s"
  shows "spares x s s' \<and> (carries x (txItems p') \<longrightarrow> carries x (txItems p) \<or> carries x (se_tx s))"
proof (cases p)
  case TxIdle
  then show ?thesis using assms(1) by (auto simp: txStep_def txTake_def spares_def split: list.splits if_splits)
next
  case (TxFill batch n terminal)
  then show ?thesis using assms(1) by (auto simp: txStep_def txFill_def spares_def split: list.splits if_splits)
next
  case (TxCommit batch todo)
  then show ?thesis using assms(1) by (auto simp: txStep_def spares_def split: list.splits)
next
  case (TxWrite batch)
  then show ?thesis using assms by (auto simp: txStep_def spares_def terminate_def sendDispatched_done split: option.splits)
next
  case (TxNote at todo)
  then show ?thesis using assms
    by (auto simp: txStep_def afterWrite_def Let_def spares_def terminate_def sendDispatched_done armDeadline_pt_m noteDispatch_pt_m
        split: list.splits if_splits)
qed (use assms(1) in \<open>simp add: txStep_def\<close>)

text \<open>The deadline goroutine.\<close>

lemma expireDeadline_spares:
  assumes "se_done s" "3 \<le> di_ref i \<longrightarrow> di_sequence i \<noteq> x"
  shows "spares x s (expireDeadline now i s)"
proof (cases "3 \<le> di_ref i")
  case True
  then show ?thesis using assms(2) completeError_spares [of "di_sequence i" _ s _ _ x]
    by (auto simp: expireDeadline_def split: option.split)
next
  case False
  then consider "di_ref i = 0" | "di_ref i = 1" | "di_ref i = 2" by linarith
  then show ?thesis using assms(1)
    by cases (simp_all add: expireDeadline_def fireSessionInitDeadline_def fireInactivityDeadline_def fireEnquireLinkDeadline_def Let_def)
qed

lemma expire_fold_spares:
  "\<lbrakk>se_done s; \<forall>i \<in> set items. 3 \<le> di_ref i \<longrightarrow> di_sequence i \<noteq> x\<rbrakk> \<Longrightarrow> spares x s (fold (expireDeadline now) items s)"
proof (induction items arbitrary: s)
  case (Cons i items)
  then have e: "spares x s (expireDeadline now i s)" by (intro expireDeadline_spares) simp_all
  then have "se_done (expireDeadline now i s)" using Cons.prems(1) by (simp add: spares_def)
  then show ?case using spares_trans [OF e] Cons by simp
qed simp

lemma expireRound_spares:
  assumes "session_inv k {} s" "se_done s" "unarmed (se_table s) x"
  shows "spares x s (expireRound now s)"
proof -
  obtain items m where e: "expireReady (pt_deadlines (se_table s)) now = (items, m)" by fastforce
  let ?s = "s\<lparr>se_table := (se_table s)\<lparr>pt_deadlines := m\<rparr>\<rparr>"
  have inv: "table_inv k {} {} (se_table s)" and h: "heap_owned (se_table s)" using assms(1) by (simp_all add: session_inv_def table_inv_def)
  then have "mset items + mset (dm_heap m) = mset (dm_heap (pt_deadlines (se_table s)))"
    using takeReady_ok [OF _ order_refl, of "pt_deadlines (se_table s)" now items m] e by (simp add: expireReady_def heap_owned_def)
  then have sub: "set items \<subseteq> set (dm_heap (pt_deadlines (se_table s)))" by (metis set_mset_mset set_mset_union Un_upper1)
  have "di_sequence i \<noteq> x" if it: "i \<in> set items" "3 \<le> di_ref i" for i
  proof
    assume "di_sequence i = x"
    then obtain r where r: "(x, r) \<in> set (pt_m (se_table s))" "pr_deadline (pt_requests (se_table s) ! r) = Some i"
      using h it sub unfolding heap_owned_def by blast
    have "distinct (map fst (pt_m (se_table s)))" using inv by (simp add: table_inv_def)
    then have "map_of (pt_m (se_table s)) x = Some r" using r(1) by simp
    then show False using assms(3) r(2) by (simp add: unarmed_def)
  qed
  then have "spares x ?s (fold (expireDeadline now) items ?s)" using assms(2) by (intro expire_fold_spares) simp_all
  moreover have "spares x s ?s" by (simp add: spares_def)
  ultimately show ?thesis using spares_trans by (simp add: expireRound_def e)
qed

section \<open>The request that is lost\<close>

definition clear :: "SequenceNumber \<Rightarrow> 'v System \<Rightarrow> bool" where
  "clear x sy \<longleftrightarrow> \<not> carries x (se_tx (sy_session sy) @ txItems (sy_tx sy) @ rxItem (sy_rx sy)) \<and>
     (\<forall>pc \<in> set (sy_callers sy). \<not> refers x (snd pc))"

definition stranded :: "nat \<Rightarrow> SequenceNumber \<Rightarrow> nat \<Rightarrow> 'v System \<Rightarrow> bool" where
  "stranded i x r sy \<longleftrightarrow> sys_inv sy \<and> se_done (sy_session sy) \<and> i < length (sy_callers sy) \<and> snd (sy_callers sy ! i) = CWait r \<and>
     map_of (pt_m (se_table (sy_session sy))) x = Some r \<and> unarmed (se_table (sy_session sy)) x \<and> clear x sy"

lemma clear_outstanding:
  assumes "clear x sy"
  shows "x \<notin> set (map ti_sequence (outstanding sy))"
proof -
  have "refers x c" if "item \<in> set (callerItem c)" "ti_kind item = txRequest" "ti_sequence item = x" for item and c :: "'a caller"
    using that by (cases c) simp_all
  then show ?thesis using assms by (fastforce simp: clear_def outstanding_def carries_def)
qed

lemma stranded_waits:
  assumes "stranded i x r sy"
  shows "pr_done (pt_requests (se_table (sy_session sy)) ! r) = []" "sysStep (Wake i w) sy = None"
proof -
  have inv: "table_inv (slots (sy_callers sy)) {} {} (se_table (sy_session sy))" and m: "map_of (pt_m (se_table (sy_session sy))) x = Some r"
    using assms by (simp_all add: stranded_def sys_inv_def session_inv_def)
  show d: "pr_done (pt_requests (se_table (sy_session sy)) ! r) = []"
    using table_inv_entry(1) [OF inv m] by (simp add: entry_ok_def Let_def)
  obtain probe where "sy_callers sy ! i = (probe, CWait r)" using assms by (cases "sy_callers sy ! i") (simp add: stranded_def)
  then show "sysStep (Wake i w) sy = None" by (simp add: sysStep_def wakeCaller_def waitCompleted_def d)
qed

lemma stranded_next:
  assumes "stranded i x r sy" "sys_inv sy'" "results_kept sy sy'" "spares x (sy_session sy) (sy_session sy')"
    and "carries x (txItems (sy_tx sy')) \<Longrightarrow> carries x (txItems (sy_tx sy)) \<or> carries x (se_tx (sy_session sy))"
    and "carries x (rxItem (sy_rx sy')) \<Longrightarrow> carries x (rxItem (sy_rx sy))"
    and "\<And>pc. pc \<in> set (sy_callers sy') \<Longrightarrow> \<not> refers x (snd pc) \<or> pc \<in> set (sy_callers sy)"
    and "i < length (sy_callers sy')" "snd (sy_callers sy' ! i) = CWait r"
  shows "stranded i x r sy'"
proof -
  have "clear x sy" using assms(1) by (simp add: stranded_def)
  then have "unarmed (se_table (sy_session sy')) x"
    using assms(1,3) clear_outstanding [of x sy] unfolding results_kept_def stranded_def by blast
  moreover have "clear x sy'" using \<open>clear x sy\<close> assms(4-7) by (auto simp: clear_def spares_def)
  ultimately show ?thesis using assms(1,2,4,8,9) by (simp add: stranded_def spares_def)
qed

lemma received_carries: "received s rs \<Longrightarrow> \<not> carries x (rxItem (fst rs))"
  by (auto simp: received_def carries_def)

lemma setRx_sel:
  "sy_rx (setRx rs sy) = fst rs" "sy_callers (setRx rs sy) = sy_callers sy" "sy_tx (setRx rs sy) = sy_tx sy"
  by (simp_all add: setRx_def split: prod.split)

lemma setRx_spares: "\<lbrakk>spares x s (snd rs); se_done s\<rbrakk> \<Longrightarrow> spares x s (sy_session (setRx rs sy))"
  by (auto simp: setRx_def spares_def terminate_def split: prod.split rxOutcome.split)

lemma stranded_step:
  assumes "stranded i x r sy" "sysStep ev sy = Some sy'" "distinct (map ti_sequence (outstanding sy'))" "\<not> answers x ev sy"
  shows "stranded i x r sy'"
proof -
  let ?s = "sy_session sy"
  have inv: "sys_inv sy" and dn: "se_done ?s" and m: "map_of (pt_m (se_table ?s)) x \<noteq> None" and i: "i < length (sy_callers sy)"
    "snd (sy_callers sy ! i) = CWait r" and cl: "clear x sy" and u: "unarmed (se_table ?s) x" using assms(1) by (simp_all add: stranded_def)
  note kept = sys_inv_step [OF inv assms(2,3)]
  note next' = stranded_next [OF assms(1) kept [THEN conjunct1] kept [THEN conjunct2]]
  have session: ?thesis if "spares x ?s (sy_session sy')" "sy_tx sy' = sy_tx sy" "sy_rx sy' = sy_rx sy" "sy_callers sy' = sy_callers sy"
    using that i by (intro next') simp_all
  have add: ?thesis if "sy' = addCaller probe (c, s) sy" "spares x ?s s \<and> \<not> refers x c" for probe c s
  proof (rule next')
    have "spares x s (probeReturned c s)" using that(2) dn by (intro probeReturned_spares) (simp add: spares_def)
    then show "spares x ?s (sy_session sy')" using that(2) spares_trans by (auto simp: that(1) addCaller_def)
  qed (use that i in \<open>auto simp: addCaller_def nth_append\<close>)
  have rx: ?thesis if "sy' = setRx rs sy" "spares x ?s (snd rs)" "\<not> carries x (rxItem (fst rs))" for rs
    using that i setRx_spares [OF that(2) dn] by (intro next') (simp_all add: setRx_sel)
  show ?thesis
  proof (cases ev)
    case (StartRequest command body waitWindow)
    obtain c s where c: "requestStart command body waitWindow ?s = (c, s)" by fastforce
    show ?thesis using assms(2) by (intro add [of False, OF _ requestStart_spares [OF c]]) (simp add: StartRequest sysStep_def c)
  next
    case (StartOneWay command body)
    obtain c s where c: "oneWayStart command body ?s = (c, s)" by fastforce
    show ?thesis using assms(2) by (intro add [of False, OF _ oneWayStart_spares [OF c]]) (simp add: StartOneWay sysStep_def c)
  next
    case (StartDeferred request response)
    obtain c s where c: "respondStart request response ?s = (c, s)" by fastforce
    show ?thesis using assms(2) by (intro add [of False, OF _ respondStart_spares [OF c]]) (simp add: StartDeferred sysStep_def c)
  next
    case StartProbe
    let ?s' = "?s\<lparr>se_probes := se_probes ?s - 1\<rparr>"
    obtain c s where c: "requestStart CommandEnquireLink (Val EmptyB) False ?s' = (c, s)" by fastforce
    have "spares x ?s ?s'" by (simp add: spares_def)
    then have "spares x ?s s \<and> \<not> refers x c" using requestStart_spares [OF c] spares_trans by blast
    moreover have "sy' = addCaller True (c, s) sy"
      using assms(2) unfolding StartProbe sysStep_def Let_def event.case c by (simp split: if_splits)
    ultimately show ?thesis by (intro add [of True c s])
  next
    case (Abandon request)
    have "spares x ?s (snd (AbandonDeferredResponse request ?s))"
      by (auto simp: AbandonDeferredResponse_def spares_def split: option.split bool.split)
    then show ?thesis using assms(2) by (intro session) (auto simp: Abandon sysStep_def)
  next
    case CloseSession
    then show ?thesis using assms(2) spares_terminate [OF dn] by (intro session) (auto simp: sysStep_def)
  next
    case (Wake j w)
    obtain probe c where pc: "sy_callers sy ! j = (probe, c)" by fastforce
    have "j \<noteq> i" using stranded_waits(2) [OF assms(1), of w] assms(2) Wake by auto
    obtain c' s' where w: "j < length (sy_callers sy)" "wakeCaller c w ?s = Some (c', s')"
      "sy' = sy\<lparr>sy_session := (if probe then probeReturned c' s' else s'), sy_callers := (sy_callers sy)[j := (probe, c')]\<rparr>"
      using assms(2) pc by (auto simp: Wake sysStep_def split: if_splits)
    have "\<not> refers x c" using cl pc nth_mem [OF w(1)] by (auto simp: clear_def)
    note sp = wakeCaller_spares [OF w(2) m this]
    have "spares x s' (probeReturned c' s')" using sp dn by (intro probeReturned_spares) (simp add: spares_def)
    then have "spares x ?s (sy_session sy')" using sp spares_trans by (auto simp: w(3))
    moreover have "\<not> refers x (snd pc') \<or> pc' \<in> set (sy_callers sy)" if "pc' \<in> set (sy_callers sy')" for pc'
      using that sp set_update_subset_insert [of "sy_callers sy" j "(probe, c')"] by (auto simp: w(3))
    ultimately show ?thesis using i \<open>j \<noteq> i\<close> by (intro next') (simp_all add: w(3))
  next
    case (Frame frame now)
    have "\<not> answers x (Frame frame now) sy" using assms(4) Frame by simp
    note p = processFrame_spares [OF dn this]
    show ?thesis using assms(2) by (intro rx [OF _ p received_carries [OF received_processFrame]]) (auto simp: Frame sysStep_def split: if_splits)
  next
    case (HandlerReturns outcome)
    then obtain pdu where h: "sy' = setRx (handlerReturned pdu outcome ?s) sy" using assms(2) by (auto simp: sysStep_def split: rxOutcome.splits)
    have "spares x ?s (snd (handlerReturned pdu outcome ?s))" by (simp add: handlerReturned_def answerRequest_spares)
    then show ?thesis by (rule rx [OF h _ received_carries [OF received_handlerReturned]])
  next
    case (RxWake w)
    obtain item cont rx' s where q: "sy_rx sy = RxQueue item cont" "rxResume item cont w ?s = Some (rx', s)" "sy' = setRx (rx', s) sy"
      using assms(2) by (auto simp: RxWake sysStep_def split: rxOutcome.splits)
    have "\<not> carries x [item]" using cl by (simp add: clear_def q(1))
    from rxResume_spares [OF q(2) this] have "spares x ?s (snd (rx', s))" by simp
    moreover have "\<not> carries x (rxItem (fst (rx', s)))" by (cases rule: rxResume_forms [OF q(2)]) simp_all
    ultimately show ?thesis by (rule rx [OF q(3)])
  next
    case (ReadEnd err)
    then show ?thesis using assms(2) by (intro rx [of "(RxError err, ?s)"]) (auto simp: sysStep_def split: if_splits)
  next
    case (Transmit now result)
    then obtain p' s' where t: "txStep now result (sy_tx sy) ?s = Some (p', s')" "sy' = sy\<lparr>sy_session := s', sy_tx := p'\<rparr>"
      using assms(2) by (auto simp: sysStep_def)
    show ?thesis using txStep_spares [OF t(1) dn, of x] i by (intro next') (simp_all add: t(2))
  next
    case (Expire now)
    have "session_inv (slots (sy_callers sy)) {} ?s" using inv by (simp add: sys_inv_def)
    from expireRound_spares [OF this dn u] show ?thesis using assms(2) by (intro session) (auto simp: Expire sysStep_def)
  qed
qed

lemma stranded_run: "\<lbrakk>stranded i x r sy; sysRun evs sy = Some sy'; unansweredRun x evs sy\<rbrakk> \<Longrightarrow> stranded i x r sy'"
proof (induction evs arbitrary: sy)
  case (Cons ev evs)
  obtain sy1 where s: "sysStep ev sy = Some sy1" "distinct (map ti_sequence (outstanding sy1))" "sysRun evs sy1 = Some sy'"
    using Cons.prems(2) by (auto split: option.splits if_splits)
  have a: "\<not> answers x ev sy" "unansweredRun x evs sy1" using Cons.prems(3) s(1) by simp_all
  show ?case by (rule Cons.IH [OF stranded_step [OF Cons.prems(1) s(1,2) a(1)] s(3) a(2)])
qed simp

text \<open>What a successful insertion leaves behind.\<close>

lemma requestInsert_queued:
  assumes "requestInsert command body s = (CQueue item r, s')"
  shows "insertRequest (ti_sequence item) (newRequest command body) (se_table s) = Inr (se_table s')" "r = length (pt_requests (se_table s))"
    "ti_kind item = txRequest" "se_tx s' = se_tx s" "se_done s' = se_done s"
proof -
  let ?q = "newRequest command body"
  obtain result sq where l: "insertLoop (nat (cf_MaxPending (se_config s) + 1)) (se_seq s) ?q (se_table s) = (result, sq)" by fastforce
  obtain sequence t where t: "result = Inr (sequence, t)" using assms(1) l by (cases result) (auto simp: requestInsert_def Let_def)
  note i = insertLoop_ok [OF l [unfolded t]]
  have *: "s' = s\<lparr>se_seq := sq, se_table := t\<rparr>" "r = length (pt_requests (se_table s))" "ti_sequence item = sequence" "ti_kind item = txRequest"
    using assms(1) l t by (auto simp: requestInsert_def Let_def requestItem_def split: sum.splits)
  show "insertRequest (ti_sequence item) ?q (se_table s) = Inr (se_table s')" "r = length (pt_requests (se_table s))"
    "ti_kind item = txRequest" "se_tx s' = se_tx s" "se_done s' = se_done s" using i * by simp_all
qed

text \<open>C24: A request that passes the state machine before the session ends and is put into the table after that is lost:
  once its caller has seen the end of the session it waits without end. Whatever happens later (other callers, further closes,
  expired deadlines, written frames), unless a frame arrives that is a response with the sequence number of the
  request, which was never sent, the caller still waits, no result is there, and neither the end of its context nor
  that of the session wakes it. (No other call in progress carries the same sequence number.)\<close>

theorem lost_request_waits_forever:
  assumes "sys_reachable sy" "se_done (sy_session sy)" "i < length (sy_callers sy)" "sy_callers sy ! i = (probe, CBegun command body)"
    and "requestInsert command body (sy_session sy) = (CQueue item r, s')"
    and "\<forall>j < length (sy_callers sy). j \<noteq> i \<longrightarrow> \<not> refers (ti_sequence item) (snd (sy_callers sy ! j))"
    and "sysRun (Wake i Ready # Wake i SessDone # evs) sy = Some sy'"
    and "unansweredRun (ti_sequence item) (Wake i Ready # Wake i SessDone # evs) sy"
  shows "snd (sy_callers sy' ! i) = CWait r \<and> map_of (pt_m (se_table (sy_session sy'))) (ti_sequence item) = Some r \<and>
     pr_done (pt_requests (se_table (sy_session sy')) ! r) = [] \<and> (\<forall>wakeup. sysStep (Wake i wakeup) sy' = None)"
proof -
  let ?s = "sy_session sy" and ?x = "ti_sequence item" and ?q = "newRequest command body"
  note inserted = requestInsert_queued [OF assms(5)]
  let ?sy1 = "sy\<lparr>sy_session := s', sy_callers := (sy_callers sy)[i := (probe, CQueue item r)]\<rparr>"
  let ?sy2 = "sy\<lparr>sy_session := s', sy_callers := (sy_callers sy)[i := (probe, CWait r)]\<rparr>"
  have s1: "sysStep (Wake i Ready) sy = Some ?sy1"
    using assms(3-5) by (simp add: sysStep_def wakeCaller_def probeReturned_def)
  have s2: "sysStep (Wake i SessDone) ?sy1 = Some ?sy2"
    using assms(2,3) inserted(5) by (simp add: sysStep_def wakeCaller_def requestQueue_def probeReturned_def)
  have run: "distinct (map ti_sequence (outstanding ?sy1))" "distinct (map ti_sequence (outstanding ?sy2))" "sysRun evs ?sy2 = Some sy'"
    using assms(7) s1 s2 by (simp_all split: if_splits)
  have quiet: "unansweredRun ?x evs ?sy2" using assms(8) s1 s2 by simp
  have inv: "sys_inv sy" using sys_inv_reachable [OF assms(1)] .
  have inv2: "sys_inv ?sy2" using sys_inv_step [OF conjunct1 [OF sys_inv_step [OF inv s1 run(1)]] s2 run(2)] by simp
  have range: "y < length (pt_requests (se_table ?s))" if "map_of (pt_m (se_table ?s)) z = Some y" for y z
    using inv table_inv_range that unfolding sys_inv_def session_inv_def by blast
  note t = insertRequest_tame [OF inserted(1) _ range]
  have "?x \<in> set (requestSequences (concat (map (callerItem \<circ> snd) ((sy_callers sy)[i := (probe, CQueue item r)]))))"
    using assms(3) inserted(3) by (auto simp: requestSequences_def set_update_memI intro!: image_eqI [of _ _ item] bexI [of _ "(probe, CQueue item r)"])
  then have "\<not> carries ?x (se_tx s' @ txItems (sy_tx sy) @ rxItem (sy_rx sy))"
    using run(1) unfolding sequences_outstanding carries_sequences by auto
  moreover have "\<not> refers ?x (snd pc)" if pc: "pc \<in> set ((sy_callers sy)[i := (probe, CWait r)])" for pc
  proof -
    obtain j where "j < length (sy_callers sy)" "pc = (sy_callers sy)[i := (probe, CWait r)] ! j" using pc by (auto simp: in_set_conv_nth)
    then show ?thesis using assms(3,6) by (cases "j = i") simp_all
  qed
  ultimately have "clear ?x ?sy2" by (simp add: clear_def)
  then have "stranded i ?x r ?sy2"
    using inv2 assms(2,3) t inserted by (simp add: stranded_def)
  from stranded_run [OF this run(3) quiet] show ?thesis
    using stranded_waits [of i ?x r sy'] by (auto simp: stranded_def)
qed

theorem lost_request_waits_forever_witness:
  "\<exists>(sy :: unit System) sy' item s'. sys_reachable sy \<and> se_done (sy_session sy) \<and> sy_callers sy = [(False, CBegun CommandBindTransceiver exampleBind)] \<and>
     requestInsert CommandBindTransceiver exampleBind (sy_session sy) = (CQueue item 0, s') \<and>
     sysRun [Wake 0 Ready, Wake 0 SessDone, CloseSession] sy = Some sy' \<and> snd (sy_callers sy' ! 0) = CWait 0 \<and>
     (\<forall>wakeup. sysStep (Wake 0 wakeup) sy' = None)"
proof (rule exampleBegun)
  fix sy0 :: "unit System" assume sy0: "sys_reachable sy0" "\<not> se_done (sy_session sy0)" "sy_callers sy0 = [(False, CBegun CommandBindTransceiver exampleBind)]"
    "pt_m (se_table (sy_session sy0)) = []" "pt_requests (se_table (sy_session sy0)) = []" "pt_max (se_table (sy_session sy0)) = 4"
    "se_seq (sy_session sy0) = 0" "cf_MaxPending (se_config (sy_session sy0)) = 4"
    "cf_Registry (se_config (sy_session sy0)) = Some (smpp34Registry RegistryCompatible)" "se_tx (sy_session sy0) = []" "sy_rx sy0 = RxOk" "sy_tx sy0 = TxIdle"
  let ?s = "terminate ErrSessionClosed (sy_session sy0)"
  let ?sy = "sy0\<lparr>sy_session := ?s\<rparr>"
  have r: "sys_reachable ?sy" by (rule reachable_close [OF sy0(1)])
  have d: "se_done ?s" "se_tx ?s = []" using sy0(2,10) by (simp_all add: terminate_def Let_def)
  obtain item s' where i: "requestInsert CommandBindTransceiver exampleBind ?s = (CQueue item 0, s')" "se_tx s' = se_tx ?s" "se_done s' = se_done ?s"
    by (rule example_insert [of ?s]) (simp_all add: terminate_def Let_def failAll_def sy0)
  let ?sy' = "?sy\<lparr>sy_session := s', sy_callers := [(False, CWait 0)]\<rparr>"
  have run: "sysRun [Wake 0 Ready, Wake 0 SessDone, CloseSession] ?sy = Some ?sy'"
    using i d sy0(3,11,12) by (simp add: sysStep_def wakeCaller_def requestQueue_def outstanding_def terminate_def)
  have "unansweredRun (ti_sequence item) [Wake 0 Ready, Wake 0 SessDone, CloseSession] ?sy" by (simp split: option.split)
  note w = lost_request_waits_forever [where i = 0 and probe = False and r = 0, OF r _ _ _ _ _ run this]
  have "snd (sy_callers ?sy' ! 0) = CWait 0 \<and> (\<forall>wakeup. sysStep (Wake 0 wakeup) ?sy' = None)"
    using w [of CommandBindTransceiver exampleBind s'] d i(1) sy0(3) by simp
  moreover have "se_done (sy_session ?sy)" "sy_callers ?sy = [(False, CBegun CommandBindTransceiver exampleBind)]"
    "requestInsert CommandBindTransceiver exampleBind (sy_session ?sy) = (CQueue item 0, s')" using d i(1) sy0(3) by simp_all
  ultimately show ?thesis using r run by blast
qed

end
