(* ===== verification/SessionProperties.thy ===== *)
theory SessionProperties
  imports RunProperties
begin

text \<open>
  What a new session looks like, how inbound requests are answered, and what a round of the transmitting goroutine writes.
\<close>

section \<open>New sessions\<close>

lemma normalizeConfig_form:
  assumes "normalizeConfig config = Inr c"
  obtains d where "c = normalizeQueues (normalizeTimeouts (normalizeBounds d))"
  using assms by (auto simp: normalizeConfig_def Let_def bindE_eq_Inr split: if_splits)


text \<open>C26: A new session is well-formed whatever the configuration was: its window, its table of pending requests, its
  queue, its batches and its read buffer have positive bounds, the table has room for the whole window, none of the six
  timeouts is negative, and the state machine is open.\<close>

theorem new_session_well_formed:
  assumes "New config now = Inr s"
  shows "let c = se_config s in 0 < cf_WindowSize c \<and> cf_WindowSize c \<le> cf_MaxPending c \<and> 0 < cf_MaxDeferredResponses c \<and>
     0 < cf_TXQueueSize c \<and> 0 < cf_TXBatchItems c \<and> 0 < cf_TXBatchBytes c \<and> 0 < cf_ReadBufferSize c \<and>
     0 \<le> cf_ResponseTimeout c \<and> 0 \<le> cf_SessionInitTimeout c \<and> 0 \<le> cf_EnquireLinkInterval c \<and> 0 \<le> cf_EnquireLinkTimeout c \<and>
     0 \<le> cf_InactivityTimeout c \<and> 0 \<le> cf_WriteTimeout c \<and>
     rw_size (pt_window (se_table s)) = nat (cf_WindowSize c) \<and> pt_max (se_table s) = cf_MaxPending c \<and>
     sm_state (se_machine s) = StateOpen \<and> \<not> se_done s"
proof -
  obtain c where c: "normalizeConfig config = Inr c" using assms(1) by (auto simp: New_def bindE_eq_Inr)
  obtain f where f: "NewFramer (cf_MaxPDUSize c) = Inr f" using assms(1) c by (cases "NewFramer (cf_MaxPDUSize c)") (auto simp: New_def bindE_eq_Inr)
  obtain machine0 where m: "NewStateMachine (cf_Role c) = Inr machine0" using assms(1) c f by (auto simp: New_def bindE_eq_Inr)
  obtain e machine where o: "openMachine machine0 = (e, machine)" by fastforce
  obtain s0 where n: "openMachine machine0 = (None, machine)" "s = scheduleLivenessDeadlines now s0" "se_machine s0 = machine" "se_config s0 = c"
    "se_table s0 = newPendingTable (cf_MaxPending c) (nat (cf_WindowSize c))" "se_done s0 = False"
    using assms(1) c f m o by (cases e) (auto simp: New_def bindE_eq_Inr)
  obtain t where t: "s = s0\<lparr>se_table := (se_table s0)\<lparr>pt_deadlines := t\<rparr>\<rparr>" using scheduleLiveness_form n(2) by metis
  have st: "sm_state machine = StateOpen" using n(1) by (auto simp: openMachine_def split: if_splits)
  obtain d where d: "c = normalizeQueues (normalizeTimeouts (normalizeBounds d))" using normalizeConfig_form [OF c] by blast
  have "0 \<le> cf_ResponseTimeout c" "0 \<le> cf_SessionInitTimeout c" "0 \<le> cf_EnquireLinkInterval c" "0 \<le> cf_EnquireLinkTimeout c"
    "0 \<le> cf_InactivityTimeout c" "0 \<le> cf_WriteTimeout c"
    unfolding d by (simp_all add: normalizeQueues_def normalizeTimeouts_def defaultDuration_def Let_def)
  moreover have "0 < cf_WindowSize c" "cf_WindowSize c \<le> cf_MaxPending c" "0 < cf_MaxDeferredResponses c"
    using normalizeBounds_ok(1-3) [of d] by (simp_all add: d normalizeQueues_ok normalizeTimeouts_ok)
  moreover have "0 < cf_TXQueueSize c" "0 < cf_TXBatchItems c" "0 < cf_TXBatchBytes c" unfolding d by (rule normalizeQueues_ok)+
  moreover have "0 < cf_ReadBufferSize c" unfolding d by (simp add: normalizeQueues_def Let_def)
  ultimately show ?thesis using st n(3-6) by (simp add: t newPendingTable_def newRequestWindow_def Let_def)
qed

theorem new_session_well_formed_witness:
  "\<exists>s. New exampleConfig 0 = Inr s \<and> 0 < cf_WindowSize (se_config s) \<and> 0 \<le> cf_InactivityTimeout (se_config s) \<and> sm_state (se_machine s) = StateOpen"
proof (rule exampleNew)
  fix s assume "New exampleConfig 0 = Inr s"
  then show ?thesis using new_session_well_formed [of exampleConfig 0 s] by (simp add: Let_def)
qed

section \<open>Answers to inbound requests\<close>



















section \<open>A round of the transmitting goroutine\<close>






lemma active_tx [simp]: "txItemActive (s\<lparr>se_tx := queue\<rparr>) = txItemActive s"
  by (rule ext) (simp add: txItemActive_def)









end
