(* ===== verification/Encoding.thy ===== *)
theory Encoding
  imports Protocol
begin

text \<open>
  The text encodings (\<^verbatim>\<open>encoding/gsm7.go\<close>, \<^verbatim>\<open>encoding/unicode.go\<close>). A Go string is the sequence of its
  code points, as ranging over it gives them; \<^verbatim>\<open>utf8.ValidString\<close> tells whether all of them are Unicode
  scalar values. Of the package \<^verbatim>\<open>unicode/utf16\<close> the functions \<^verbatim>\<open>Encode\<close> and \<^verbatim>\<open>Decode\<close> are written out.
\<close>

unbundle bit_operations_syntax

section \<open>Strings\<close>

type_synonym rune = int
type_synonym gostring = "rune list"

definition isSurrogate :: "rune \<Rightarrow> bool" where
  "isSurrogate r \<longleftrightarrow> 0xD800 \<le> r \<and> r \<le> 0xDFFF"

definition scalarValue :: "rune \<Rightarrow> bool" where
  "scalarValue r \<longleftrightarrow> 0 \<le> r \<and> r \<le> 0x10FFFF \<and> \<not> isSurrogate r"

definition ValidString :: "gostring \<Rightarrow> bool" where
  "ValidString text \<longleftrightarrow> list_all scalarValue text"

definition ErrUnrepresentableRune :: goerr where
  "ErrUnrepresentableRune = Sentinel ''smpp encoding: rune is not representable''"

definition ErrInvalidGSM7 :: goerr where
  "ErrInvalidGSM7 = Sentinel ''smpp encoding: invalid GSM 7-bit data''"

definition ErrInvalidUnicode :: goerr where
  "ErrInvalidUnicode = Sentinel ''smpp encoding: invalid Unicode data''"

section \<open>The GSM 03.38 alphabet\<close>

abbreviation (input) gsmEscape :: byte where "gsmEscape \<equiv> 0x1b"

definition gsmDefault :: "rune list" where
  "gsmDefault = [
     64, 163, 36, 165, 232, 233, 249, 236, 242, 199, 10, 216, 248, 13, 197, 229,
     916, 95, 934, 915, 923, 937, 928, 936, 931, 920, 926, 0, 198, 230, 223, 201,
     32, 33, 34, 35, 164, 37, 38, 39, 40, 41, 42, 43, 44, 45, 46, 47,
     48, 49, 50, 51, 52, 53, 54, 55, 56, 57, 58, 59, 60, 61, 62, 63,
     161, 65, 66, 67, 68, 69, 70, 71, 72, 73, 74, 75, 76, 77, 78, 79,
     80, 81, 82, 83, 84, 85, 86, 87, 88, 89, 90, 196, 214, 209, 220, 167,
     191, 97, 98, 99, 100, 101, 102, 103, 104, 105, 106, 107, 108, 109, 110, 111,
     112, 113, 114, 115, 116, 117, 118, 119, 120, 121, 122, 228, 246, 241, 252, 224]"

definition gsmExtensionTable :: "(byte \<times> rune) list" where
  "gsmExtensionTable = [(10, 12), (20, 94), (40, 123), (41, 125), (47, 92), (60, 91), (61, 126), (62, 93), (64, 124), (101, 8364)]"

definition gsmExtension :: "byte \<rightharpoonup> rune" where
  "gsmExtension = map_of gsmExtensionTable"

text \<open>The reverse tables the initialisation builds; a later entry for the same rune would win.\<close>

definition gsmDefaultReverse :: "rune \<rightharpoonup> byte" where
  "gsmDefaultReverse = map_of (rev (map (\<lambda>(i, r). (r, of_nat i))
     (filter (\<lambda>(i, r). \<not> (i = unat gsmEscape \<or> r = 0)) (enumerate 0 gsmDefault))))"

definition gsmExtensionReverse :: "rune \<rightharpoonup> byte" where
  "gsmExtensionReverse = map_of (map (\<lambda>(code, r). (r, code)) gsmExtensionTable)"

fun encodeRunes :: "gostring \<Rightarrow> goerr + bytes" where
  "encodeRunes [] = Inr []"
| "encodeRunes (r # rs) =
     (case gsmDefaultReverse r of
        Some code \<Rightarrow> bindE (encodeRunes rs) (\<lambda>out. Inr (code # out))
      | None \<Rightarrow>
         (case gsmExtensionReverse r of
            Some code \<Rightarrow> bindE (encodeRunes rs) (\<lambda>out. Inr (gsmEscape # code # out))
          | None \<Rightarrow> Inl (Wrapped ''%U'' ErrUnrepresentableRune)))"

definition EncodeGSM7 :: "gostring \<Rightarrow> goerr + bytes" where
  "EncodeGSM7 text = (if \<not> ValidString text then Inl ErrInvalidUnicode else encodeRunes text)"

fun DecodeGSM7 :: "bytes \<Rightarrow> goerr + gostring" where
  "DecodeGSM7 [] = Inr []"
| "DecodeGSM7 (code # rest) =
     (if code > 0x7f then Inl (Wrapped ''septet 0x%02x'' ErrInvalidGSM7)
      else if code = gsmEscape then
        (case rest of
           [] \<Rightarrow> Inl (Wrapped ''trailing escape'' ErrInvalidGSM7)
         | c # rest \<Rightarrow>
            (case gsmExtension c of
               None \<Rightarrow> Inl (Wrapped ''extension 0x%02x'' ErrInvalidGSM7)
             | Some r \<Rightarrow> bindE (DecodeGSM7 rest) (\<lambda>rs. Inr (r # rs))))
      else
        let r = gsmDefault ! unat code in
        if r = 0 then Inl (Wrapped ''reserved septet 0x%02x'' ErrInvalidGSM7)
        else bindE (DecodeGSM7 rest) (\<lambda>rs. Inr (r # rs)))"

definition GSM7SeptetCount :: "gostring \<Rightarrow> goerr + nat" where
  "GSM7SeptetCount text = bindE (EncodeGSM7 text) (\<lambda>septets. Inr (length septets))"

definition CanEncodeGSM7 :: "gostring \<Rightarrow> bool" where
  "CanEncodeGSM7 text \<longleftrightarrow> \<not> isl (GSM7SeptetCount text)"

section \<open>Packing septets\<close>

text \<open>The inner loop writes the bits of one septet at \<open>bitPos\<close>, the outer one all septets.\<close>

definition packBit :: "byte \<Rightarrow> nat \<Rightarrow> nat \<Rightarrow> bytes \<Rightarrow> bytes" where
  "packBit septet bitPos b out =
     (if septet AND push_bit b 1 \<noteq> 0
      then let pos = bitPos + b in out[pos div 8 := out ! (pos div 8) OR push_bit (pos mod 8) 1]
      else out)"

definition packSeptet :: "byte \<Rightarrow> nat \<Rightarrow> bytes \<Rightarrow> bytes" where
  "packSeptet septet bitPos out = fold (packBit septet bitPos) [0..<7] out"

fun packLoop :: "bytes \<Rightarrow> nat \<Rightarrow> bytes \<Rightarrow> goerr + bytes" where
  "packLoop [] bitPos out = Inr out"
| "packLoop (septet # septets) bitPos out =
     (if septet > 0x7f then Inl (Wrapped ''septet 0x%02x'' ErrInvalidGSM7)
      else packLoop septets (bitPos + 7) (packSeptet septet bitPos out))"

definition PackSeptetsWithFill :: "bytes \<Rightarrow> byte \<Rightarrow> goerr + bytes" where
  "PackSeptetsWithFill septets fillBits =
     (if fillBits > 6 then Inl (Wrapped ''fill bits %d'' ErrInvalidGSM7)
      else if septets = [] then Inr (if fillBits = 0 then [] else [0])
      else
        let bits = unat fillBits + length septets * 7 in
        packLoop septets (unat fillBits) (replicate ((bits + 7) div 8) 0))"

definition PackSeptets :: "bytes \<Rightarrow> goerr + bytes" where
  "PackSeptets septets = PackSeptetsWithFill septets 0"

definition unpackSeptet :: "bytes \<Rightarrow> nat \<Rightarrow> byte" where
  "unpackSeptet data bitPos =
     fold (\<lambda>b septet. let pos = bitPos + b in
       if data ! (pos div 8) AND push_bit (pos mod 8) 1 \<noteq> 0 then septet OR push_bit b 1 else septet) [0..<7] 0"

text \<open>
  The number of bits is computed in 64 bits and can wrap around for a huge count; the check then passes, and the
  allocation or the first read behind the end of the data panics.
\<close>

definition UnpackSeptets :: "bytes \<Rightarrow> int \<Rightarrow> byte \<Rightarrow> (goerr, bytes) outcome" where
  "UnpackSeptets data n fillBits =
     (if n < 0 \<or> fillBits > 6 then Raises (Wrapped ''count=%d fill=%d'' ErrInvalidGSM7)
      else
        let requiredBits = sint (word_of_int (int (unat fillBits) + n * 7) :: 64 word) in
        if requiredBits > int (length data) * 8 then Raises (Wrapped ''need %d bits, have %d'' ErrInvalidGSM7)
        else if int (unat fillBits) + n * 7 > int (length data) * 8 then Panics None
        else Returns (map (\<lambda>i. unpackSeptet data (unat fillBits + 7 * i)) [0..<nat n]))"

section \<open>UCS-2 and UTF-16\<close>

fun ucs2Units :: "gostring \<Rightarrow> goerr + u16 list" where
  "ucs2Units [] = Inr []"
| "ucs2Units (r # rs) =
     (if r > 0xffff \<or> (0xd800 \<le> r \<and> r \<le> 0xdfff) then Inl (Wrapped ''in UCS-2: %U'' ErrUnrepresentableRune)
      else bindE (ucs2Units rs) (\<lambda>us. Inr (word_of_int r # us)))"

definition unitBytes :: "u16 list \<Rightarrow> bytes" where
  "unitBytes us = concat (map be16 us)"

fun bytesUnits :: "bytes \<Rightarrow> u16 list" where
  "bytesUnits (a # b # rest) = Uint16 [a, b] # bytesUnits rest"
| "bytesUnits _ = []"

definition EncodeUCS2 :: "gostring \<Rightarrow> goerr + bytes" where
  "EncodeUCS2 text =
     (if \<not> ValidString text then Inl ErrInvalidUnicode
      else bindE (ucs2Units text) (\<lambda>us. Inr (unitBytes us)))"

fun ucs2Runes :: "u16 list \<Rightarrow> goerr + gostring" where
  "ucs2Runes [] = Inr []"
| "ucs2Runes (u # us) =
     (if 0xd800 \<le> u \<and> u \<le> 0xdfff then Inl (Wrapped ''surrogate 0x%04x in strict UCS-2'' ErrInvalidUnicode)
      else bindE (ucs2Runes us) (\<lambda>rs. Inr (uint u # rs)))"

definition DecodeUCS2 :: "bytes \<Rightarrow> goerr + gostring" where
  "DecodeUCS2 data =
     (if length data mod 2 \<noteq> 0 then Inl (Wrapped ''odd UCS-2 length %d'' ErrInvalidUnicode)
      else ucs2Runes (bytesUnits data))"

text \<open>\<^verbatim>\<open>utf16.Encode\<close> and \<^verbatim>\<open>utf16.Decode\<close>.\<close>

fun utf16Encode :: "gostring \<Rightarrow> u16 list" where
  "utf16Encode [] = []"
| "utf16Encode (r # rs) =
     (if 0 \<le> r \<and> r < 0xd800 \<or> 0xe000 \<le> r \<and> r < 0x10000 then word_of_int r # utf16Encode rs
      else if 0x10000 \<le> r \<and> r \<le> 0x10ffff then
        word_of_int (0xd800 + (r - 0x10000) div 0x400 mod 0x400) #
        word_of_int (0xdc00 + (r - 0x10000) mod 0x400) # utf16Encode rs
      else 0xfffd # utf16Encode rs)"

definition highSurrogate :: "u16 \<Rightarrow> bool" where
  "highSurrogate u \<longleftrightarrow> 0xd800 \<le> u \<and> u \<le> 0xdbff"

definition lowSurrogate :: "u16 \<Rightarrow> bool" where
  "lowSurrogate u \<longleftrightarrow> 0xdc00 \<le> u \<and> u \<le> 0xdfff"

definition decodePair :: "u16 \<Rightarrow> u16 \<Rightarrow> rune" where
  "decodePair u v = (uint u - 0xd800) * 0x400 + (uint v - 0xdc00) + 0x10000"

fun utf16Decode :: "u16 list \<Rightarrow> gostring" where
  "utf16Decode [] = []"
| "utf16Decode (u # us) =
     (if \<not> highSurrogate u \<and> \<not> lowSurrogate u then uint u # utf16Decode us
      else case us of
        v # vs \<Rightarrow>
          if highSurrogate u \<and> lowSurrogate v then decodePair u v # utf16Decode vs
          else 0xfffd # utf16Decode us
      | [] \<Rightarrow> 0xfffd # utf16Decode us)"

definition EncodeUTF16BE :: "gostring \<Rightarrow> goerr + bytes" where
  "EncodeUTF16BE text =
     (if \<not> ValidString text then Inl ErrInvalidUnicode else Inr (unitBytes (utf16Encode text)))"

text \<open>The loop that refuses unpaired surrogates.\<close>

fun checkSurrogates :: "u16 list \<Rightarrow> goerr option" where
  "checkSurrogates [] = None"
| "checkSurrogates (u # us) =
     (if highSurrogate u then
        (case us of
           [] \<Rightarrow> Some (Wrapped ''unpaired high surrogate 0x%04x'' ErrInvalidUnicode)
         | v # vs \<Rightarrow>
            if v < 0xdc00 \<or> v > 0xdfff then Some (Wrapped ''unpaired high surrogate 0x%04x'' ErrInvalidUnicode)
            else checkSurrogates vs)
      else if lowSurrogate u then Some (Wrapped ''unpaired low surrogate 0x%04x'' ErrInvalidUnicode)
      else checkSurrogates us)"

definition DecodeUTF16BE :: "bytes \<Rightarrow> goerr + gostring" where
  "DecodeUTF16BE data =
     (if length data mod 2 \<noteq> 0 then Inl (Wrapped ''odd UTF-16BE length %d'' ErrInvalidUnicode)
      else let units = bytesUnits data in
        case checkSurrogates units of Some err \<Rightarrow> Inl err | None \<Rightarrow> Inr (utf16Decode units))"

definition UTF16CodeUnitCount :: "gostring \<Rightarrow> goerr + nat" where
  "UTF16CodeUnitCount text =
     (if \<not> ValidString text then Inl ErrInvalidUnicode else Inr (length (utf16Encode text)))"

section \<open>Selecting an encoding\<close>

datatype Kind = KindUnknown | KindGSM7 | KindUCS2 | KindUTF16BE | KindBinary

record SelectedText =
  st_Kind  :: Kind
  st_Data  :: bytes
  st_Units :: nat

definition SelectText :: "gostring \<Rightarrow> bool \<Rightarrow> goerr + SelectedText" where
  "SelectText text allowSurrogates =
     (case EncodeGSM7 text of
        Inr septets \<Rightarrow> Inr \<lparr>st_Kind = KindGSM7, st_Data = septets, st_Units = length septets\<rparr>
      | Inl _ \<Rightarrow>
     (case EncodeUCS2 text of
        Inr ucs2 \<Rightarrow> Inr \<lparr>st_Kind = KindUCS2, st_Data = ucs2, st_Units = length ucs2 div 2\<rparr>
      | Inl _ \<Rightarrow>
        if \<not> allowSurrogates then Inl (Wrapped ''text requires UTF-16 surrogate pairs'' ErrUnrepresentableRune)
        else bindE (EncodeUTF16BE text) (\<lambda>utf16be.
          Inr \<lparr>st_Kind = KindUTF16BE, st_Data = utf16be, st_Units = length utf16be div 2\<rparr>)))"

definition CloneBinary :: "bytes \<Rightarrow> SelectedText" where
  "CloneBinary data = \<lparr>st_Kind = KindBinary, st_Data = data, st_Units = length data\<rparr>"

section \<open>The GSM alphabet is a bijection\<close>

lemma gsmDefault_facts:
  "length gsmDefault = 128" "distinct gsmDefault" "list_all (\<lambda>r. 0 \<le> r \<and> r < 0xD800) gsmDefault"
  by (simp_all add: gsmDefault_def)

lemma gsmExtension_facts:
  "distinct (map fst gsmExtensionTable)" "distinct (map snd gsmExtensionTable)"
  "list_all (\<lambda>(c, r). c \<noteq> gsmEscape \<and> r \<notin> set gsmDefault \<and> scalarValue r) gsmExtensionTable"
  by (simp_all add: gsmExtensionTable_def gsmDefault_def scalarValue_def isSurrogate_def)

lemma gsmDefaultReverse_Some:
  "gsmDefaultReverse r = Some c \<longleftrightarrow> r \<noteq> 0 \<and> (\<exists>i < 128. i \<noteq> 27 \<and> gsmDefault ! i = r \<and> c = of_nat i)"
proof -
  let ?es = "filter (\<lambda>(i, r). \<not> (i = unat gsmEscape \<or> r = 0)) (enumerate 0 gsmDefault)"
  let ?xs = "rev (map (\<lambda>(i, r). (r, of_nat i :: byte)) ?es)"
  have "distinct (map snd ?es)"
    by (intro distinct_map_filter) (simp add: gsmDefault_facts)
  then have "distinct (map fst ?xs)" by (simp add: comp_def case_prod_beta' rev_map [symmetric])
  then have "gsmDefaultReverse r = Some c \<longleftrightarrow> (r, c) \<in> set ?xs"
    unfolding gsmDefaultReverse_def by (rule map_of_eq_Some_iff)
  also have "\<dots> \<longleftrightarrow> r \<noteq> 0 \<and> (\<exists>i < 128. i \<noteq> 27 \<and> gsmDefault ! i = r \<and> c = of_nat i)"
    by (auto simp: in_set_enumerate_eq gsmDefault_facts image_iff)
  finally show ?thesis .
qed

lemma gsmDefaultReverse_None: "r \<notin> set gsmDefault \<Longrightarrow> gsmDefaultReverse r = None"
proof (rule ccontr)
  assume "r \<notin> set gsmDefault" "gsmDefaultReverse r \<noteq> None"
  then obtain i where "i < 128" "gsmDefault ! i = r" by (auto simp: gsmDefaultReverse_Some)
  then have "r \<in> set gsmDefault" using gsmDefault_facts(1) nth_mem by metis
  with \<open>r \<notin> set gsmDefault\<close> show False by simp
qed

lemma gsmExtension_Some: "gsmExtension c = Some r \<longleftrightarrow> (c, r) \<in> set gsmExtensionTable"
  unfolding gsmExtension_def using gsmExtension_facts(1) by (rule map_of_eq_Some_iff)

lemma gsmExtensionReverse_Some: "gsmExtensionReverse r = Some c \<longleftrightarrow> gsmExtension c = Some r"
proof -
  have "distinct (map fst (map (\<lambda>(code, r). (r, code)) gsmExtensionTable))"
    using gsmExtension_facts(2) by (simp add: comp_def case_prod_beta')
  then have "gsmExtensionReverse r = Some c \<longleftrightarrow> (r, c) \<in> set (map (\<lambda>(code, r). (r, code)) gsmExtensionTable)"
    unfolding gsmExtensionReverse_def by (rule map_of_eq_Some_iff)
  then show ?thesis by (force simp: gsmExtension_Some)
qed

lemma gsmExtension_rune:
  "gsmExtension c = Some r \<Longrightarrow> c \<noteq> gsmEscape \<and> gsmDefaultReverse r = None \<and> scalarValue r"
  using gsmExtension_facts(3) by (auto simp: gsmExtension_Some list_all_iff intro: gsmDefaultReverse_None)

lemma gsmDefault_code:
  "gsmDefaultReverse r = Some c \<longleftrightarrow> \<not> c > 0x7f \<and> c \<noteq> gsmEscape \<and> gsmDefault ! unat c = r \<and> r \<noteq> 0"
proof
  assume "gsmDefaultReverse r = Some c"
  then obtain i where i: "r \<noteq> 0" "i < 128" "i \<noteq> 27" "gsmDefault ! i = r" "c = of_nat i"
    by (auto simp: gsmDefaultReverse_Some)
  then have "unat c = i" by (simp add: unat_of_nat)
  with i show "\<not> c > 0x7f \<and> c \<noteq> gsmEscape \<and> gsmDefault ! unat c = r \<and> r \<noteq> 0"
    by (auto simp: word_less_nat_alt)
next
  assume *: "\<not> c > 0x7f \<and> c \<noteq> gsmEscape \<and> gsmDefault ! unat c = r \<and> r \<noteq> 0"
  then have "unat c < 128" by (simp add: word_less_nat_alt)
  moreover have "unat c \<noteq> 27" using * by (auto simp: word_unat_eq_iff)
  ultimately show "gsmDefaultReverse r = Some c" using * by (auto simp: gsmDefaultReverse_Some intro!: exI [of _ "unat c"])
qed

lemma gsmDefault_scalar: "\<lbrakk>\<not> (c :: byte) > 0x7f; gsmDefault ! unat c \<noteq> 0\<rbrakk> \<Longrightarrow> scalarValue (gsmDefault ! unat c)"
proof -
  assume "\<not> c > (0x7f :: byte)"
  then have "unat c < length gsmDefault" by (simp add: word_less_nat_alt gsmDefault_facts)
  then show ?thesis using gsmDefault_facts(3) by (auto simp: list_all_iff scalarValue_def isSurrogate_def dest!: nth_mem)
qed

lemma encode_decode_runes: "encodeRunes t = Inr s \<Longrightarrow> DecodeGSM7 s = Inr t"
proof (induction t arbitrary: s)
  case (Cons r rs)
  show ?case
  proof (cases "gsmDefaultReverse r")
    case (Some c)
    then obtain u where "encodeRunes rs = Inr u" "s = c # u" using Cons.prems by (auto simp: bindE_eq_Inr)
    with Some Cons.IH show ?thesis by (auto simp: gsmDefault_code Let_def)
  next
    case None
    then obtain c u where "gsmExtensionReverse r = Some c" "encodeRunes rs = Inr u" "s = gsmEscape # c # u"
      using Cons.prems by (auto simp: bindE_eq_Inr split: option.splits)
    with Cons.IH show ?thesis by (simp add: gsmExtensionReverse_Some)
  qed
qed simp

lemma decode_encode_runes: "DecodeGSM7 s = Inr t \<Longrightarrow> encodeRunes t = Inr s \<and> ValidString t"
proof (induction s arbitrary: t rule: DecodeGSM7.induct)
  case (2 code rest)
  show ?case
  proof (cases "code = gsmEscape")
    case True
    then obtain c rest' r rs where *: "rest = c # rest'" "gsmExtension c = Some r" "DecodeGSM7 rest' = Inr rs" "t = r # rs"
      using "2.prems" by (auto simp: bindE_eq_Inr split: list.splits option.splits)
    then have "encodeRunes rs = Inr rest' \<and> ValidString rs"
      using "2.IH"(1) [of c rest' r rs] True by simp
    then show ?thesis
      using * True gsmExtension_rune [of c r] gsmExtensionReverse_Some [of r c] by (simp add: ValidString_def)
  next
    case False
    then obtain rs where *: "\<not> code > 0x7f" "gsmDefault ! unat code \<noteq> 0" "DecodeGSM7 rest = Inr rs"
      "t = gsmDefault ! unat code # rs"
      using "2.prems" by (auto simp: bindE_eq_Inr Let_def split: if_splits)
    then have "encodeRunes rs = Inr rest \<and> ValidString rs" using "2.IH"(2) False by simp
    moreover have "gsmDefaultReverse (gsmDefault ! unat code) = Some code" using * False by (simp add: gsmDefault_code)
    ultimately show ?thesis using * gsmDefault_scalar [of code] by (simp add: ValidString_def)
  qed
qed (simp add: ValidString_def)

lemma EncodeGSM7_iff: "EncodeGSM7 t = Inr s \<longleftrightarrow> DecodeGSM7 s = Inr t"
proof
  assume "EncodeGSM7 t = Inr s"
  then show "DecodeGSM7 s = Inr t" by (intro encode_decode_runes) (simp add: EncodeGSM7_def split: if_splits)
next
  assume "DecodeGSM7 s = Inr t"
  then show "EncodeGSM7 t = Inr s" using decode_encode_runes [of s t] by (simp add: EncodeGSM7_def)
qed

section \<open>Packing and unpacking\<close>

definition bitAt :: "bytes \<Rightarrow> nat \<Rightarrow> bool" where
  "bitAt data p \<longleftrightarrow> bit (data ! (p div 8)) (p mod 8)"

lemma and_exp: "((x :: byte) AND 2 ^ n = 0) = (\<not> bit x n)"
  by (rule and_exp_eq_0_iff_not_bit)

lemma length_packBit [simp]: "length (packBit septet bitPos b out) = length out"
  by (simp add: packBit_def Let_def)

lemma bitAt_packBit:
  assumes "bitPos + b < 8 * length out" "p < 8 * length out"
  shows "bitAt (packBit septet bitPos b out) p \<longleftrightarrow> bitAt out p \<or> (bit septet b \<and> p = bitPos + b)"
proof -
  let ?q = "bitPos + b"
  have len: "?q div 8 < length out" "p div 8 < length out" using assms by auto
  have eq: "p = ?q \<longleftrightarrow> p div 8 = ?q div 8 \<and> p mod 8 = ?q mod 8" by (metis div_mult_mod_eq)
  show ?thesis
  proof (cases "bit septet b")
    case True
    then have "packBit septet bitPos b out = out[?q div 8 := out ! (?q div 8) OR 2 ^ (?q mod 8)]"
      by (simp add: packBit_def and_exp Let_def)
    then have "bitAt (packBit septet bitPos b out) p \<longleftrightarrow>
        bitAt out p \<or> (p div 8 = ?q div 8 \<and> p mod 8 = ?q mod 8)"
      using len by (auto simp: bitAt_def nth_list_update bit_or_iff bit_exp_iff)
    with True eq show ?thesis by simp
  qed (simp add: packBit_def and_exp)
qed

lemma bitAt_packBits:
  assumes "\<And>b. b \<in> set bs \<Longrightarrow> bitPos + b < 8 * length out" "p < 8 * length out"
  shows "length (fold (packBit septet bitPos) bs out) = length out \<and>
    (bitAt (fold (packBit septet bitPos) bs out) p \<longleftrightarrow> bitAt out p \<or> (\<exists>b \<in> set bs. bit septet b \<and> p = bitPos + b))"
  using assms
proof (induction bs arbitrary: out)
  case (Cons b bs)
  then show ?case using bitAt_packBit [of bitPos b out p septet] Cons.IH [of "packBit septet bitPos b out"] by auto
qed simp

lemma packSeptet_bits:
  assumes "bitPos + 7 \<le> 8 * length out" "p < 8 * length out"
  shows "length (packSeptet septet bitPos out) = length out"
    "bitAt (packSeptet septet bitPos out) p \<longleftrightarrow> bitAt out p \<or> (\<exists>b < 7. bit septet b \<and> p = bitPos + b)"
proof -
  have "bitPos + b < 8 * length out" if "b \<in> set [0..<7]" for b using that assms by simp
  from bitAt_packBits [of "[0..<7]", OF this assms(2)]
  show "length (packSeptet septet bitPos out) = length out"
    "bitAt (packSeptet septet bitPos out) p \<longleftrightarrow> bitAt out p \<or> (\<exists>b < 7. bit septet b \<and> p = bitPos + b)"
    unfolding packSeptet_def by auto
qed

lemma packLoop_bits:
  "\<lbrakk>packLoop septets bitPos out = Inr out'; bitPos + 7 * length septets \<le> 8 * length out; p < 8 * length out\<rbrakk> \<Longrightarrow>
     length out' = length out \<and> list_all (\<lambda>s. \<not> s > 0x7f) septets \<and>
     (bitAt out' p \<longleftrightarrow> bitAt out p \<or> (\<exists>k < length septets. \<exists>b < 7. bit (septets ! k) b \<and> p = bitPos + 7 * k + b))"
proof (induction septets arbitrary: bitPos out)
  case (Cons s ss)
  let ?o = "packSeptet s bitPos out"
  have s: "\<not> s > 0x7f" "packLoop ss (bitPos + 7) ?o = Inr out'" using Cons.prems(1) by (auto split: if_splits)
  have fit: "bitPos + 7 \<le> 8 * length out" using Cons.prems(2) by simp
  note o = packSeptet_bits [OF fit Cons.prems(3), of s]
  have ih: "length out' = length ?o \<and> list_all (\<lambda>s. \<not> s > 0x7f) ss \<and>
      (bitAt out' p \<longleftrightarrow> bitAt ?o p \<or> (\<exists>k < length ss. \<exists>b < 7. bit (ss ! k) b \<and> p = bitPos + 7 + 7 * k + b))"
    using Cons.IH [OF s(2)] Cons.prems(2,3) o(1) by simp
  have "(\<exists>k < Suc (length ss). \<exists>b < 7. bit ((s # ss) ! k) b \<and> p = bitPos + 7 * k + b) \<longleftrightarrow>
      (\<exists>b < 7. bit s b \<and> p = bitPos + b) \<or> (\<exists>k < length ss. \<exists>b < 7. bit (ss ! k) b \<and> p = bitPos + 7 + 7 * k + b)"
    by (simp add: Ex_less_Suc2 algebra_simps)
  with s(1) ih o show ?case by auto
qed simp

lemma unpackSeptet_fold:
  "bit (fold (\<lambda>b septet. let pos = bitPos + b in
       if data ! (pos div 8) AND push_bit (pos mod 8) 1 \<noteq> 0 then septet OR push_bit b 1 else septet) bs acc) n \<longleftrightarrow>
     bit (acc :: byte) n \<or> (n < 8 \<and> n \<in> set bs \<and> bitAt data (bitPos + n))"
proof (induction bs arbitrary: acc)
  case (Cons b bs)
  then show ?case
    by (auto simp: Let_def and_exp bitAt_def bit_or_iff bit_exp_iff)
qed simp

lemma bit_unpackSeptet: "bit (unpackSeptet data bitPos) n \<longleftrightarrow> n < 7 \<and> bitAt data (bitPos + n)"
  unfolding unpackSeptet_def unpackSeptet_fold by auto

lemma septet_bit: "\<lbrakk>\<not> (s :: byte) > 0x7f; bit s n\<rbrakk> \<Longrightarrow> n < 7"
proof (rule ccontr)
  assume s: "\<not> s > 0x7f" "bit s n" "\<not> n < 7"
  then have "n = 7" using bit_imp_le_length [of s n] by simp
  then have "bit (unat s) 7" using s(2) by (simp add: bit_unsigned_iff)
  then have "odd (unat s div 128)" by (simp add: bit_iff_odd)
  then have "unat s \<ge> 128" by (cases "unat s < 128") auto
  then show False using s(1) by (simp add: word_less_nat_alt)
qed

lemma zero_bits: "p < 8 * n \<Longrightarrow> \<not> bitAt (replicate n 0) p"
  by (simp add: bitAt_def less_mult_imp_div_less mult.commute)

lemma septet_position: "\<lbrakk>f + 7 * k + b = f + 7 * j + n; (b :: nat) < 7; n < 7\<rbrakk> \<Longrightarrow> k = j \<and> b = n"
  by arith

lemma requiredBits_le: "0 \<le> n \<Longrightarrow> sint (word_of_int n :: 64 word) \<le> n"
  using signed_take_bit_int_less_eq_self_iff [of 63 n] by (simp add: sint_uint unsigned_of_int signed_take_bit_take_bit min_def)

lemma UnpackSeptets_room:
  assumes "0 \<le> n" "\<not> fillBits > 6" "int (unat fillBits) + n * 7 \<le> int (length data) * 8"
  shows "UnpackSeptets data n fillBits = Returns (map (\<lambda>i. unpackSeptet data (unat fillBits + 7 * i)) [0..<nat n])"
proof -
  have "\<not> sint (word_of_int (int (unat fillBits) + n * 7) :: 64 word) > int (length data) * 8"
    using requiredBits_le [of "int (unat fillBits) + n * 7"] assms(1,3) by linarith
  then show ?thesis using assms unfolding UnpackSeptets_def Let_def by (simp only: if_False not_less) auto
qed

lemma PackSeptets_unpack:
  assumes "PackSeptetsWithFill septets fill = Inr out"
  shows "length out = (unat fill + 7 * length septets + 7) div 8 \<and>
    list_all (\<lambda>s. \<not> s > 0x7f) septets \<and> UnpackSeptets out (int (length septets)) fill = Returns septets"
proof (cases "septets = []")
  case True
  have pos: "fill \<noteq> 0 \<Longrightarrow> unat fill \<ge> 1" by (simp add: Suc_le_eq unat_gt_0)
  have fill: "\<not> fill > 6" "out = (if fill = 0 then [] else [0])"
    using True assms by (auto simp: PackSeptetsWithFill_def split: if_splits)
  then have "unat fill \<le> 6" by (simp add: word_le_nat_alt not_less)
  then have "fill \<noteq> 0 \<Longrightarrow> (unat fill + 7) div 8 = 1" using pos by (simp add: div_eq_dividend_iff div_nat_eqI)
  moreover have "int (unat fill) \<le> 6" using \<open>unat fill \<le> 6\<close> by (simp only: of_nat_le_iff [of _ 6, where ?'a = int, simplified])
  ultimately show ?thesis using True fill UnpackSeptets_room [of 0 fill out] by simp
next
  case False
  let ?f = "unat fill" and ?n = "(unat fill + length septets * 7 + 7) div 8"
  have fill: "\<not> fill > 6" and loop: "packLoop septets ?f (replicate ?n 0) = Inr out"
    using assms False by (auto simp: PackSeptetsWithFill_def Let_def split: if_splits)
  have room: "?f + 7 * length septets \<le> 8 * length (replicate ?n (0 :: byte))" by simp
  have n: "0 < 8 * length (replicate ?n (0 :: byte))" using False by (cases septets) simp_all
  have len: "length out = ?n" and sept: "list_all (\<lambda>s. \<not> s > 0x7f) septets"
    using packLoop_bits [OF loop room n] by simp_all
  have bits: "bitAt out (?f + 7 * j + i) = bit (septets ! j) i" if j: "j < length septets" and i: "i < 7" for i j
  proof -
    have p: "?f + 7 * j + i < 8 * length (replicate ?n (0 :: byte))" using j i room by simp
    have "(\<exists>k < length septets. \<exists>b < 7. bit (septets ! k) b \<and> ?f + 7 * j + i = ?f + 7 * k + b) \<longleftrightarrow> bit (septets ! j) i"
    proof
      assume "\<exists>k < length septets. \<exists>b < 7. bit (septets ! k) b \<and> ?f + 7 * j + i = ?f + 7 * k + b"
      then obtain k b where k: "bit (septets ! k) b" "?f + 7 * j + i = ?f + 7 * k + b" "b < 7" by blast
      then show "bit (septets ! j) i" using septet_position [OF k(2) i k(3)] by simp
    next
      assume "bit (septets ! j) i"
      then show "\<exists>k < length septets. \<exists>b < 7. bit (septets ! k) b \<and> ?f + 7 * j + i = ?f + 7 * k + b"
        using i j by (intro exI [of _ j] exI [of _ i] conjI) simp_all
    qed
    then show ?thesis using packLoop_bits [OF loop room p] zero_bits [of "?f + 7 * j + i" ?n] p by simp
  qed
  have "unpackSeptet out (?f + 7 * j) = septets ! j" if j: "j < length septets" for j
  proof (rule bit_word_eqI)
    fix i
    have "\<not> septets ! j > 0x7f" using sept j by (simp add: list_all_length)
    then show "bit (unpackSeptet out (?f + 7 * j)) i = bit (septets ! j) i"
      using bits [OF j, of i] septet_bit [of "septets ! j" i] by (auto simp: bit_unpackSeptet)
  qed
  then have "map (\<lambda>i. unpackSeptet out (?f + 7 * i)) [0..<length septets] = septets"
    by (intro nth_equalityI) simp_all
  moreover have "?f + length septets * 7 \<le> length out * 8" using len room by (simp only: length_replicate mult.commute)
  then have "int ?f + int (length septets) * 7 \<le> int (length out) * 8" by linarith
  ultimately show ?thesis using fill len sept UnpackSeptets_room [of "int (length septets)" fill out] by (simp add: mult.commute)
qed

section \<open>Unicode round trips\<close>

lemma unitBytes_simps [simp]: "unitBytes [] = []" "unitBytes (u # us) = be16 u @ unitBytes us"
  by (simp_all add: unitBytes_def)

lemma bytesUnits_be16 [simp]: "bytesUnits (be16 u @ d) = u # bytesUnits d"
  using Uint16_be16 [of u "[]"] by (simp add: be16_def)

lemma bytesUnits_unitBytes [simp]: "bytesUnits (unitBytes us) = us"
  by (induction us) simp_all

lemma length_unitBytes [simp]: "length (unitBytes us) = 2 * length us"
  by (induction us) simp_all

lemma unitBytes_bytesUnits: "even (length d) \<Longrightarrow> unitBytes (bytesUnits d) = d"
  by (induction d rule: bytesUnits.induct) simp_all

lemma unit_scalar:
  "r \<in> {0..0xffff} \<Longrightarrow> uint (word_of_int r :: u16) = r"
  "uint (u :: u16) \<in> {0..0xffff}"
  using unsigned_less [of u, where ?'a = int] by (simp_all add: uint_word_of_int_eq take_bit_int_eq_self)

lemma unit_range: "0xd800 \<le> (u :: u16) \<and> u \<le> 0xdfff \<longleftrightarrow> 0xd800 \<le> uint u \<and> uint u \<le> 0xdfff"
  by (simp add: word_le_def)

lemma ucs2Runes_iff: "ucs2Runes us = Inr t \<longleftrightarrow> ValidString t \<and> ucs2Units t = Inr us"
proof (induction us arbitrary: t)
  case Nil
  show ?case by (cases t) (auto simp: ValidString_def bindE_eq_Inr)
next
  case (Cons u us)
  show ?case
  proof (cases t)
    case Nil
    then show ?thesis by (auto simp: unit_range bindE_eq_Inr)
  next
    case [simp]: (Cons r rs)
    have "\<not> (0xd800 \<le> uint u \<and> uint u \<le> 0xdfff) \<and> uint u = r \<longleftrightarrow>
        scalarValue r \<and> \<not> (r > 0xffff \<or> (0xd800 \<le> r \<and> r \<le> 0xdfff)) \<and> word_of_int r = u"
      using unit_scalar(1) [of r] unit_scalar(2) [of u] by (auto simp: scalarValue_def isSurrogate_def)
    then show ?thesis using Cons.IH [of rs] by (auto simp: unit_range ValidString_def bindE_eq_Inr)
  qed
qed

lemma EncodeUCS2_iff: "EncodeUCS2 t = Inr d \<longleftrightarrow> DecodeUCS2 d = Inr t"
proof
  assume "EncodeUCS2 t = Inr d"
  then show "DecodeUCS2 d = Inr t" by (auto simp: EncodeUCS2_def DecodeUCS2_def ucs2Runes_iff bindE_eq_Inr split: if_splits)
next
  assume "DecodeUCS2 d = Inr t"
  then have "even (length d)" "ValidString t" "ucs2Units t = Inr (bytesUnits d)"
    by (auto simp: DecodeUCS2_def ucs2Runes_iff even_iff_mod_2_eq_zero split: if_splits)
  then show "EncodeUCS2 t = Inr d" by (simp add: EncodeUCS2_def unitBytes_bytesUnits)
qed

lemma surrogate_int:
  "highSurrogate u \<longleftrightarrow> 0xd800 \<le> uint u \<and> uint u \<le> 0xdbff"
  "lowSurrogate u \<longleftrightarrow> 0xdc00 \<le> uint u \<and> uint u \<le> 0xdfff"
  by (simp_all add: highSurrogate_def lowSurrogate_def word_le_def)

lemma lowSurrogate_range: "v < 0xdc00 \<or> v > 0xdfff \<longleftrightarrow> \<not> lowSurrogate v"
  by (auto simp: lowSurrogate_def not_less)

lemma pair_of_surrogates:
  assumes "highSurrogate u" "lowSurrogate v"
  shows "0x10000 \<le> decodePair u v" "decodePair u v \<le> 0x10ffff"
    "word_of_int (0xd800 + (decodePair u v - 0x10000) div 0x400 mod 0x400) = u"
    "word_of_int (0xdc00 + (decodePair u v - 0x10000) mod 0x400) = v"
proof -
  define a b where "a = uint u - 0xd800" and "b = uint v - 0xdc00"
  have ab: "0 \<le> a" "a < 0x400" "0 \<le> b" "b < 0x400" using assms by (simp_all add: surrogate_int a_def b_def)
  have r: "decodePair u v = a * 0x400 + b + 0x10000" by (simp add: decodePair_def a_def b_def)
  show "0x10000 \<le> decodePair u v" "decodePair u v \<le> 0x10ffff" using ab by (simp_all add: r)
  have "(decodePair u v - 0x10000) div 0x400 mod 0x400 = a" "(decodePair u v - 0x10000) mod 0x400 = b"
    using ab unfolding r by simp_all
  then show "word_of_int (0xd800 + (decodePair u v - 0x10000) div 0x400 mod 0x400) = u"
    "word_of_int (0xdc00 + (decodePair u v - 0x10000) mod 0x400) = v"
    by (simp_all add: a_def b_def)
qed

lemma surrogates_of_pair:
  assumes "0x10000 \<le> r" "r \<le> 0x10ffff"
    and u: "u = word_of_int (0xd800 + (r - 0x10000) div 0x400 mod 0x400)"
    and v: "v = word_of_int (0xdc00 + (r - 0x10000) mod 0x400)"
  shows "highSurrogate u" "\<not> lowSurrogate u" "lowSurrogate v" "decodePair u v = r"
proof -
  define x where "x = r - 0x10000"
  have x: "0 \<le> x" "x div 0x400 < 0x400" "0 \<le> x div 0x400" "0 \<le> x mod 0x400" "x mod 0x400 < 0x400"
    using assms(1,2) by (simp_all add: x_def)
  then have uv: "uint u = 0xd800 + x div 0x400" "uint v = 0xdc00 + x mod 0x400"
    unfolding u v x_def [symmetric] by (subst unit_scalar(1); simp)+
  show "highSurrogate u" "\<not> lowSurrogate u" "lowSurrogate v" using x by (simp_all add: surrogate_int uv)
  have "x div 0x400 * 0x400 + x mod 0x400 = x" by (rule div_mult_mod_eq)
  then show "decodePair u v = r" by (simp add: decodePair_def uv x_def)
qed

lemma bmp_unit:
  assumes "0 \<le> r \<and> r < 0xd800 \<or> 0xe000 \<le> r \<and> r < 0x10000"
  shows "\<not> highSurrogate (word_of_int r)" "\<not> lowSurrogate (word_of_int r)" "uint (word_of_int r :: u16) = r"
  using assms unit_scalar(1) [of r] by (auto simp: surrogate_int)

lemma utf16_decode_encode:
  "ValidString t \<Longrightarrow> checkSurrogates (utf16Encode t) = None \<and> utf16Decode (utf16Encode t) = t"
proof (induction t)
  case (Cons r rs)
  then have r: "scalarValue r" and ih: "checkSurrogates (utf16Encode rs) = None" "utf16Decode (utf16Encode rs) = rs"
    by (auto simp: ValidString_def)
  consider (bmp) "0 \<le> r \<and> r < 0xd800 \<or> 0xe000 \<le> r \<and> r < 0x10000" | (pair) "0x10000 \<le> r" "r \<le> 0x10ffff"
    using r by (fastforce simp: scalarValue_def isSurrogate_def)
  then show ?case
  proof cases
    case bmp
    then show ?thesis using bmp_unit [OF bmp] ih by auto
  next
    case pair
    define u v :: u16 where u: "u = word_of_int (0xd800 + (r - 0x10000) div 0x400 mod 0x400)"
      and v: "v = word_of_int (0xdc00 + (r - 0x10000) mod 0x400)"
    have "utf16Encode (r # rs) = u # v # utf16Encode rs" using pair unfolding u v by simp
    then show ?thesis using surrogates_of_pair [OF pair u v] ih by (simp add: lowSurrogate_range)
  qed
qed simp

lemma utf16_encode_decode:
  "checkSurrogates us = None \<Longrightarrow> ValidString (utf16Decode us) \<and> utf16Encode (utf16Decode us) = us"
proof (induction us rule: checkSurrogates.induct)
  case 1
  show ?case by (simp add: ValidString_def)
next
  case (2 u us)
  show ?case
  proof (cases "highSurrogate u")
    case True
    then obtain v vs where us: "us = v # vs" "lowSurrogate v" "checkSurrogates vs = None"
      using "2.prems" by (auto simp: lowSurrogate_def not_less split: list.splits if_splits)
    have ih: "ValidString (utf16Decode vs)" "utf16Encode (utf16Decode vs) = vs"
      using "2.IH"(1) [OF True us(1)] us(2,3) by (auto simp: lowSurrogate_def not_less)
    note p = pair_of_surrogates [OF True us(2)]
    have d: "utf16Decode (u # us) = decodePair u v # utf16Decode vs" using True us(1,2) by simp
    have "\<not> (0 \<le> decodePair u v \<and> decodePair u v < 0xd800 \<or> 0xe000 \<le> decodePair u v \<and> decodePair u v < 0x10000)"
      using p(1) by simp
    then have "utf16Encode (utf16Decode (u # us)) = u # us"
      unfolding d utf16Encode.simps using p ih us(1) by (simp only: if_False if_True simp_thms)
    moreover have "ValidString (utf16Decode (u # us))"
      unfolding d using p(1,2) ih(1) by (simp add: ValidString_def scalarValue_def isSurrogate_def)
    ultimately show ?thesis by blast
  next
    case False
    then have low: "\<not> lowSurrogate u" and c: "checkSurrogates us = None" using "2.prems" by (auto split: if_splits)
    have ih: "ValidString (utf16Decode us)" "utf16Encode (utf16Decode us) = us"
      using "2.IH"(2) [OF False low c] by simp_all
    have "0 \<le> uint u \<and> uint u < 0xd800 \<or> 0xe000 \<le> uint u \<and> uint u < 0x10000"
      using False low unit_scalar(2) [of u] by (auto simp: surrogate_int)
    then show ?thesis using False low ih
      by (auto simp: ValidString_def scalarValue_def isSurrogate_def)
  qed
qed

lemma EncodeUTF16BE_iff: "EncodeUTF16BE t = Inr d \<longleftrightarrow> DecodeUTF16BE d = Inr t"
proof
  assume "EncodeUTF16BE t = Inr d"
  then have "ValidString t" "d = unitBytes (utf16Encode t)" by (auto simp: EncodeUTF16BE_def split: if_splits)
  then show "DecodeUTF16BE d = Inr t" using utf16_decode_encode [of t] by (simp add: DecodeUTF16BE_def)
next
  assume "DecodeUTF16BE d = Inr t"
  then have "even (length d)" "checkSurrogates (bytesUnits d) = None" "t = utf16Decode (bytesUnits d)"
    by (auto simp: DecodeUTF16BE_def even_iff_mod_2_eq_zero Let_def split: if_splits option.splits)
  then show "EncodeUTF16BE t = Inr d"
    using utf16_encode_decode [of "bytesUnits d"] by (simp add: EncodeUTF16BE_def unitBytes_bytesUnits)
qed

lemma PackSeptetsWithFill_success:
  "(\<exists>out. PackSeptetsWithFill septets fill = Inr out) \<longleftrightarrow> fill \<le> 6 \<and> (\<forall>s \<in> set septets. s \<le> 0x7f)"
proof -
  have loop: "(\<exists>out'. packLoop ss p out = Inr out') \<longleftrightarrow> (\<forall>s \<in> set ss. s \<le> 0x7f)" for ss p out
    by (induction ss p out rule: packLoop.induct) (auto simp: not_less)
  show ?thesis by (auto simp: PackSeptetsWithFill_def Let_def loop not_less)
qed

lemma ucs2_fails_supplementary: "\<lbrakk>EncodeUCS2 t = Inl e; ValidString t\<rbrakk> \<Longrightarrow> \<exists>r \<in> set t. r > 0xffff"
proof -
  have "\<lbrakk>ucs2Units t = Inl e; ValidString t\<rbrakk> \<Longrightarrow> \<exists>r \<in> set t. r > 0xffff" for t e
    by (induction t arbitrary: e)
      (auto simp: ValidString_def scalarValue_def isSurrogate_def bindE_eq_Inl split: if_splits)
  then show "\<lbrakk>EncodeUCS2 t = Inl e; ValidString t\<rbrakk> \<Longrightarrow> \<exists>r \<in> set t. r > 0xffff"
    by (auto simp: EncodeUCS2_def bindE_eq_Inl split: if_splits)
qed

section \<open>The encodings and their decoders\<close>

text \<open>
  C33: On each of the three alphabets the encoder and the decoder are inverse to each other: a text is encoded to
  some data exactly if the data decodes to the text, so encoding is injective, every encoded text is read back
  unchanged, and every accepted data is the encoding of what it decodes to.
\<close>

theorem text_encodings_inverse:
  "(EncodeGSM7 t = Inr d \<longleftrightarrow> DecodeGSM7 d = Inr t) \<and>
   (EncodeUCS2 t = Inr d \<longleftrightarrow> DecodeUCS2 d = Inr t) \<and>
   (EncodeUTF16BE t = Inr d \<longleftrightarrow> DecodeUTF16BE d = Inr t)"
  using EncodeGSM7_iff EncodeUCS2_iff EncodeUTF16BE_iff by blast

text \<open>
  C34: Packing septets into octets behind the fill bits loses nothing: it succeeds exactly for at most six fill
  bits and septets below 128, takes the smallest number of octets that holds all the bits, and unpacking the same
  number of septets gives them back.
\<close>

theorem packed_septets_unpack:
  "((\<exists>out. PackSeptetsWithFill septets fill = Inr out) \<longleftrightarrow> fill \<le> 6 \<and> (\<forall>s \<in> set septets. s \<le> 0x7f)) \<and>
   (PackSeptetsWithFill septets fill = Inr out \<longrightarrow>
      length out = (unat fill + 7 * length septets + 7) div 8 \<and>
      UnpackSeptets out (int (length septets)) fill = Returns septets)"
  using PackSeptets_unpack PackSeptetsWithFill_success by blast

theorem packed_septets_unpack_witness:
  "PackSeptetsWithFill [0x31, 0x32, 0x33] 1 = Inr [0x62, 0xb2, 0x19] \<and>
   UnpackSeptets [0x62, 0xb2, 0x19] 3 1 = Returns [0x31, 0x32, 0x33]"
proof -
  have "PackSeptetsWithFill [0x31, 0x32, 0x33] 1 = Inr [0x62, 0xb2, 0x19]" by code_simp
  then show ?thesis using packed_septets_unpack [of "[0x31, 0x32, 0x33]" 1 "[0x62, 0xb2, 0x19]"] by simp
qed

text \<open>
  C35: The data chosen for a text decodes to the text under the chosen alphabet; the 7-bit alphabet is chosen
  whenever it has all characters, UCS-2 when the text has no supplementary characters, and UTF-16 only when
  surrogates are allowed; with them every valid text gets an encoding.
\<close>

theorem selected_text_decodes:
  "(SelectText t surrogates = Inr sel \<longrightarrow>
     (case st_Kind sel of
        KindGSM7 \<Rightarrow> DecodeGSM7 (st_Data sel) = Inr t \<and> st_Units sel = length (st_Data sel)
      | KindUCS2 \<Rightarrow> \<not> CanEncodeGSM7 t \<and> DecodeUCS2 (st_Data sel) = Inr t \<and> 2 * st_Units sel = length (st_Data sel)
      | KindUTF16BE \<Rightarrow> surrogates \<and> \<not> CanEncodeGSM7 t \<and> (\<exists>r \<in> set t. r > 0xffff) \<and>
          DecodeUTF16BE (st_Data sel) = Inr t \<and> 2 * st_Units sel = length (st_Data sel)
      | _ \<Rightarrow> False)) \<and>
   ((\<exists>sel. SelectText t True = Inr sel) \<longleftrightarrow> ValidString t)"
proof -
  have gsm: "CanEncodeGSM7 t \<longleftrightarrow> (\<exists>s. EncodeGSM7 t = Inr s)"
    by (cases "EncodeGSM7 t") (simp_all add: CanEncodeGSM7_def GSM7SeptetCount_def)
  have ucs2: "EncodeUCS2 t = Inl e \<Longrightarrow> ValidString t \<Longrightarrow> \<exists>r \<in> set t. r > 0xffff" for e
    using ucs2_fails_supplementary by blast
  have valid: "EncodeGSM7 t = Inr s \<Longrightarrow> ValidString t" "EncodeUCS2 t = Inr s \<Longrightarrow> ValidString t"
    "(\<exists>d. EncodeUTF16BE t = Inr d) \<longleftrightarrow> ValidString t" for s
    by (auto simp: EncodeGSM7_def EncodeUCS2_def EncodeUTF16BE_def split: if_splits)
  have even: "EncodeUCS2 t = Inr d \<Longrightarrow> even (length d)" "EncodeUTF16BE t = Inr d \<Longrightarrow> even (length d)" for d
    by (auto simp: EncodeUCS2_iff DecodeUCS2_def EncodeUTF16BE_iff DecodeUTF16BE_def split: if_splits)
  show ?thesis
  proof (cases "EncodeGSM7 t")
    case (Inr s)
    then show ?thesis using valid(1) by (auto simp: SelectText_def EncodeGSM7_iff [symmetric])
  next
    case g: (Inl e)
    then have cannot: "\<not> CanEncodeGSM7 t" by (simp add: gsm)
    show ?thesis
    proof (cases "EncodeUCS2 t")
      case (Inr d)
      then show ?thesis using g cannot valid(2) even(1) by (auto simp: SelectText_def EncodeUCS2_iff [symmetric])
    next
      case (Inl e')
      show ?thesis using g cannot Inl valid(3) even(2) ucs2 [OF Inl]
        by (auto simp: SelectText_def EncodeUTF16BE_iff [symmetric] bindE_eq_Inr split: if_splits)
    qed
  qed
qed

theorem selected_text_decodes_witness:
  "SelectText [72, 0x20ac] False = Inr \<lparr>st_Kind = KindGSM7, st_Data = [72, 0x1b, 0x65], st_Units = 3\<rparr> \<and>
   DecodeGSM7 [72, 0x1b, 0x65] = Inr [72, 0x20ac]"
proof -
  have "SelectText [72, 0x20ac] False = Inr \<lparr>st_Kind = KindGSM7, st_Data = [72, 0x1b, 0x65], st_Units = 3\<rparr>"
    by code_simp
  then show ?thesis
    using selected_text_decodes [of "[72, 0x20ac]" False "\<lparr>st_Kind = KindGSM7, st_Data = [72, 0x1b, 0x65], st_Units = 3\<rparr>"]
    by simp
qed

end
