(* ===== verification/Message.thy ===== *)
theory Message
  imports Encoding
begin

text \<open>
  Messages and their segmentation (\<^verbatim>\<open>message/message.go\<close>, \<^verbatim>\<open>message/udh16_unpacked.go\<close>): encoding of a text,
  splitting into parts, the two concatenation headers, the SAR parameters, and reassembly. \<^verbatim>\<open>clone\<close> copies a
  slice and is the identity on values. The sizes of the parts are positive constants in every call of the split
  functions; for 0, where \<^verbatim>\<open>splitBytes\<close> does not return, the model gives no parts.
\<close>

unbundle bit_operations_syntax

section \<open>Encoded text and segments\<close>

abbreviation (input) ESMClassUDHI :: byte where "ESMClassUDHI \<equiv> 0x40"
abbreviation (input) GSM7SingleSeptets :: nat where "GSM7SingleSeptets \<equiv> 160"
abbreviation (input) GSM7MultipartSeptets :: nat where "GSM7MultipartSeptets \<equiv> 153"
abbreviation (input) UCS2SingleUnits :: nat where "UCS2SingleUnits \<equiv> 70"
abbreviation (input) UCS2MultipartUnits :: nat where "UCS2MultipartUnits \<equiv> 67"
abbreviation (input) BinarySingleOctets :: nat where "BinarySingleOctets \<equiv> 140"
abbreviation (input) BinaryMultipartOctets :: nat where "BinaryMultipartOctets \<equiv> 134"
abbreviation (input) gsm7Multipart16Septets :: nat where "gsm7Multipart16Septets \<equiv> 152"
abbreviation (input) ucs2Multipart16Units :: nat where "ucs2Multipart16Units \<equiv> 66"
abbreviation (input) binaryMultipart16Bytes :: nat where "binaryMultipart16Bytes \<equiv> 133"

definition ErrInvalidSegments :: goerr where
  "ErrInvalidSegments = Sentinel ''smpp message: invalid multipart segments''"

definition ErrInvalidUDH :: goerr where
  "ErrInvalidUDH = Sentinel ''smpp message: invalid user data header''"

definition ErrInvalidSAR :: goerr where
  "ErrInvalidSAR = Sentinel ''smpp message: invalid SAR parameters''"

record EncodedText =
  et_Kind       :: Kind
  et_DataCoding :: DataCoding
  et_Data       :: bytes
  et_Units      :: nat

definition EncodeText :: "gostring \<Rightarrow> bool \<Rightarrow> goerr + EncodedText" where
  "EncodeText text allowSurrogates =
     bindE (SelectText text allowSurrogates) (\<lambda>selected.
       let coding = (if st_Kind selected = KindGSM7 then DataCodingSMSCDefault else DataCodingUCS2) in
       Inr \<lparr>et_Kind = st_Kind selected, et_DataCoding = coding, et_Data = st_Data selected, et_Units = st_Units selected\<rparr>)"

record Segment =
  seg_Reference  :: u16
  seg_Total      :: byte
  seg_Sequence   :: byte
  seg_Kind       :: Kind
  seg_DataCoding :: DataCoding
  seg_Units      :: nat
  seg_Data       :: bytes
  seg_UDH        :: bytes
  seg_UserData   :: bytes
  seg_Optional   :: "OptionalParameter list"

section \<open>Splitting\<close>

function splitGSM7 :: "bytes \<Rightarrow> nat \<Rightarrow> bytes list" where
  "splitGSM7 data limit =
     (if data = [] \<or> limit < 2 then []
      else
        let n = min (length data) limit;
            n = (if n < length data \<and> data ! (n - 1) = 0x1b then n - 1 else n) in
        take n data # splitGSM7 (drop n data) limit)"
  by pat_completeness auto
termination by (relation "measure (\<lambda>(data, _). length data)") (auto simp: Let_def min_def split: if_splits)

function splitBytes :: "bytes \<Rightarrow> nat \<Rightarrow> bytes list" where
  "splitBytes data limit =
     (if data = [] \<or> limit = 0 then []
      else let n = min (length data) limit in take n data # splitBytes (drop n data) limit)"
  by pat_completeness auto
termination by (relation "measure (\<lambda>(data, _). length data)") (auto simp: min_def)

declare splitGSM7.simps [simp del] splitBytes.simps [simp del]

definition splitFixedUnits :: "bytes \<Rightarrow> nat \<Rightarrow> nat \<Rightarrow> bytes list" where
  "splitFixedUnits data unitSize maxUnits = splitBytes data (unitSize * maxUnits)"

text \<open>
  The loop of \<^verbatim>\<open>splitUTF16\<close>: the parts closed so far, the octets of the open part (\<^verbatim>\<open>data[start:off]\<close>) and its
  number of code units; \<open>putUnits\<close> is the end of the loop body, which opens a new part when the
  character does not fit.
\<close>

definition putUnits :: "nat \<Rightarrow> nat \<Rightarrow> bytes \<Rightarrow> bytes list \<times> bytes \<times> nat \<Rightarrow> goerr + bytes list \<times> bytes \<times> nat" where
  "putUnits maxUnits width octs st =
     (let (parts, cur, units) = st;
          (parts, cur, units) = (if units > 0 \<and> units + width > maxUnits then (parts @ [cur], [], 0) else (parts, cur, units)) in
      if width > maxUnits then Inl ErrInvalidSegments
      else Inr (parts, cur @ octs, units + width))"

fun splitUTF16Loop :: "nat \<Rightarrow> bytes \<Rightarrow> bytes list \<times> bytes \<times> nat \<Rightarrow> goerr + bytes list" where
  "splitUTF16Loop maxUnits (a # b # rest) st =
     (let u = Uint16 [a, b] in
      if u \<ge> 0xd800 \<and> u \<le> 0xdbff then
        (case rest of
           c # d # rest' \<Rightarrow>
             (let low = Uint16 [c, d] in
              if low < 0xdc00 \<or> low > 0xdfff then Inl ErrInvalidSegments
              else bindE (putUnits maxUnits 2 [a, b, c, d] st) (splitUTF16Loop maxUnits rest'))
         | _ \<Rightarrow> Inl ErrInvalidSegments)
      else if u \<ge> 0xdc00 \<and> u \<le> 0xdfff then Inl ErrInvalidSegments
      else bindE (putUnits maxUnits 1 [a, b] st) (splitUTF16Loop maxUnits rest))"
| "splitUTF16Loop maxUnits _ (parts, cur, units) = Inr (parts @ [cur])"

definition splitUTF16 :: "bytes \<Rightarrow> nat \<Rightarrow> goerr + bytes list" where
  "splitUTF16 data maxUnits =
     (if data = [] then Inr []
      else if length data mod 2 \<noteq> 0 then Inl ErrInvalidSegments
      else splitUTF16Loop maxUnits data ([], [], 0))"

section \<open>Concatenation headers\<close>

definition GSM7UDHFillBits :: "int \<Rightarrow> byte" where
  "GSM7UDHFillBits headerOctets =
     (if headerOctets \<le> 0 then 0
      else let m = (headerOctets * 8) mod 7 in if m = 0 then 0 else word_of_int (7 - m))"

definition BuildConcatUDH8 :: "byte \<Rightarrow> byte \<Rightarrow> byte \<Rightarrow> bytes" where
  "BuildConcatUDH8 reference tot sequence = [0x05, 0x00, 0x03, reference, tot, sequence]"

definition BuildConcatUDH16 :: "u16 \<Rightarrow> byte \<Rightarrow> byte \<Rightarrow> bytes" where
  "BuildConcatUDH16 reference tot sequence =
     [0x06, 0x08, 0x04, ucast (drop_bit 8 reference), ucast reference, tot, sequence]"

text \<open>The loop over the information elements, from offset \<open>off\<close> of the user data.\<close>

function parseIEs :: "bytes \<Rightarrow> nat \<Rightarrow> nat \<Rightarrow> goerr + u16 \<times> byte \<times> byte \<times> nat" where
  "parseIEs userData headerLen off =
     (if off + 2 \<le> headerLen then
        let iei = userData ! off;
            len = unat (userData ! (off + 1));
            off = off + 2 in
        if off + len > headerLen then Inl ErrInvalidUDH
        else
          let v = go_slice userData off (off + len) in
          if iei = 0x00 then
            if len \<noteq> 3 then Inl ErrInvalidUDH else Inr (ucast (v ! 0), v ! 1, v ! 2, headerLen)
          else if iei = 0x08 then
            if len \<noteq> 4 then Inl ErrInvalidUDH else Inr (Uint16 (take 2 v), v ! 2, v ! 3, headerLen)
          else parseIEs userData headerLen (off + len)
      else Inl (Wrapped ''concatenation IE missing'' ErrInvalidUDH))"
  by pat_completeness auto
termination by (relation "measure (\<lambda>(_, headerLen, off). headerLen - off)") auto

declare parseIEs.simps [simp del]

definition ParseConcatUDH :: "bytes \<Rightarrow> goerr + u16 \<times> byte \<times> byte \<times> nat" where
  "ParseConcatUDH userData =
     (if length userData < 1 then Inl ErrInvalidUDH
      else
        let headerLen = unat (userData ! 0) + 1 in
        if headerLen > length userData \<or> headerLen < 6
        then Inl (Wrapped ''declared header length %d'' ErrInvalidUDH)
        else parseIEs userData headerLen 1)"

section \<open>Segments with a concatenation header\<close>

text \<open>The loop over the chunks; \<open>i\<close> is the index of the next one.\<close>

fun udhSegments :: "Kind \<Rightarrow> DataCoding \<Rightarrow> byte \<Rightarrow> byte \<Rightarrow> nat \<Rightarrow> bytes list \<Rightarrow> goerr + Segment list" where
  "udhSegments kind coding reference tot i [] = Inr []"
| "udhSegments kind coding reference tot i (chunk # chunks) =
     (let sq = of_nat (i + 1);
          udh = BuildConcatUDH8 reference tot sq in
      bindE (if kind = KindGSM7 then
               bindE (PackSeptetsWithFill chunk (GSM7UDHFillBits (int (length udh)))) (\<lambda>packed. Inr (udh @ packed, length chunk))
             else Inr (udh @ chunk, if kind = KindUCS2 \<or> kind = KindUTF16BE then length chunk div 2 else length chunk))
        (\<lambda>(userData, units).
           bindE (udhSegments kind coding reference tot (i + 1) chunks) (\<lambda>segments.
             Inr (\<lparr>seg_Reference = ucast reference, seg_Total = tot, seg_Sequence = sq, seg_Kind = kind,
                   seg_DataCoding = coding, seg_Units = units, seg_Data = chunk, seg_UDH = udh,
                   seg_UserData = userData, seg_Optional = []\<rparr> # segments))))"

definition makeUDHSegments :: "bytes list \<Rightarrow> Kind \<Rightarrow> DataCoding \<Rightarrow> byte \<Rightarrow> goerr + Segment list" where
  "makeUDHSegments chunks kind coding reference =
     (if length chunks = 0 \<or> length chunks > 255 then Inl (Wrapped ''part count %d'' ErrInvalidSegments)
      else udhSegments kind coding reference (of_nat (length chunks)) 0 chunks)"

text \<open>A message that is not split.\<close>

definition singleSegment :: "Kind \<Rightarrow> DataCoding \<Rightarrow> nat \<Rightarrow> bytes \<Rightarrow> bytes \<Rightarrow> Segment" where
  "singleSegment kind coding units data userData =
     \<lparr>seg_Reference = 0, seg_Total = 1, seg_Sequence = 1, seg_Kind = kind, seg_DataCoding = coding, seg_Units = units,
      seg_Data = data, seg_UDH = [], seg_UserData = userData, seg_Optional = []\<rparr>"

definition SegmentTextUDH :: "gostring \<Rightarrow> bool \<Rightarrow> byte \<Rightarrow> goerr + Segment list" where
  "SegmentTextUDH text allowSurrogates reference =
     bindE (EncodeText text allowSurrogates) (\<lambda>encoded.
       case et_Kind encoded of
         KindGSM7 \<Rightarrow>
           if et_Units encoded \<le> GSM7SingleSeptets then
             bindE (PackSeptets (et_Data encoded)) (\<lambda>packed.
               Inr [singleSegment (et_Kind encoded) (et_DataCoding encoded) (et_Units encoded) (et_Data encoded) packed])
           else
             makeUDHSegments (splitGSM7 (et_Data encoded) GSM7MultipartSeptets) (et_Kind encoded) (et_DataCoding encoded) reference
       | KindUCS2 \<Rightarrow>
           if et_Units encoded \<le> UCS2SingleUnits then
             Inr [singleSegment (et_Kind encoded) (et_DataCoding encoded) (et_Units encoded) (et_Data encoded) (et_Data encoded)]
           else
             makeUDHSegments (splitFixedUnits (et_Data encoded) 2 UCS2MultipartUnits) (et_Kind encoded) (et_DataCoding encoded) reference
       | KindUTF16BE \<Rightarrow>
           if et_Units encoded \<le> UCS2SingleUnits then
             Inr [singleSegment (et_Kind encoded) (et_DataCoding encoded) (et_Units encoded) (et_Data encoded) (et_Data encoded)]
           else
             bindE (splitUTF16 (et_Data encoded) UCS2MultipartUnits) (\<lambda>chunks.
               makeUDHSegments chunks (et_Kind encoded) (et_DataCoding encoded) reference)
       | _ \<Rightarrow> Inl (Wrapped ''unsupported text kind %s'' ErrInvalidSegments))"

definition SegmentBinaryUDH :: "bytes \<Rightarrow> byte \<Rightarrow> goerr + Segment list" where
  "SegmentBinaryUDH data reference =
     (if length data \<le> BinarySingleOctets
      then Inr [singleSegment KindBinary DataCodingOctetBinary2 (length data) data data]
      else makeUDHSegments (splitBytes data BinaryMultipartOctets) KindBinary DataCodingOctetBinary2 reference)"

definition makeUDH16UnpackedSegments :: "bytes list \<Rightarrow> Kind \<Rightarrow> DataCoding \<Rightarrow> u16 \<Rightarrow> goerr + Segment list" where
  "makeUDH16UnpackedSegments chunks kind coding reference =
     (if length chunks = 0 \<or> length chunks > 255 then Inl (Wrapped ''part count %d'' ErrInvalidSegments)
      else
        let tot = of_nat (length chunks) in
        Inr (map (\<lambda>(i, chunk).
          let sq = of_nat (i + 1);
              udh = BuildConcatUDH16 reference tot sq in
          \<lparr>seg_Reference = reference, seg_Total = tot, seg_Sequence = sq, seg_Kind = kind, seg_DataCoding = coding,
           seg_Units = (if kind = KindUCS2 \<or> kind = KindUTF16BE then length chunk div 2 else length chunk),
           seg_Data = chunk, seg_UDH = udh, seg_UserData = udh @ chunk, seg_Optional = []\<rparr>) (enumerate 0 chunks)))"

definition SegmentTextUDH16Unpacked :: "gostring \<Rightarrow> bool \<Rightarrow> u16 \<Rightarrow> goerr + Segment list" where
  "SegmentTextUDH16Unpacked text allowSurrogates reference =
     bindE (EncodeText text allowSurrogates) (\<lambda>encoded.
       bindE
        (case et_Kind encoded of
           KindGSM7 \<Rightarrow> Inr (GSM7SingleSeptets,
             if et_Units encoded > GSM7SingleSeptets then splitGSM7 (et_Data encoded) gsm7Multipart16Septets else [])
         | KindUCS2 \<Rightarrow> Inr (UCS2SingleUnits,
             if et_Units encoded > UCS2SingleUnits then splitFixedUnits (et_Data encoded) 2 ucs2Multipart16Units else [])
         | KindUTF16BE \<Rightarrow>
             if et_Units encoded > UCS2SingleUnits
             then bindE (splitUTF16 (et_Data encoded) ucs2Multipart16Units) (\<lambda>chunks. Inr (UCS2SingleUnits, chunks))
             else Inr (UCS2SingleUnits, [])
         | _ \<Rightarrow> Inl (Wrapped ''unsupported kind %s'' ErrInvalidSegments))
        (\<lambda>(limit, chunks).
           if et_Units encoded \<le> limit
           then Inr [singleSegment (et_Kind encoded) (et_DataCoding encoded) (et_Units encoded) (et_Data encoded) (et_Data encoded)]
           else makeUDH16UnpackedSegments chunks (et_Kind encoded) (et_DataCoding encoded) reference))"

definition SegmentBinaryUDH16 :: "bytes \<Rightarrow> u16 \<Rightarrow> goerr + Segment list" where
  "SegmentBinaryUDH16 data reference =
     (if length data \<le> BinarySingleOctets
      then Inr [singleSegment KindBinary DataCodingOctetBinary2 (length data) data data]
      else makeUDH16UnpackedSegments (splitBytes data binaryMultipart16Bytes) KindBinary DataCodingOctetBinary2 reference)"

section \<open>Segments with SAR parameters\<close>

definition SARTLVs :: "u16 \<Rightarrow> byte \<Rightarrow> byte \<Rightarrow> OptionalParameter list" where
  "SARTLVs reference tot sequence =
     [\<lparr>op_Tag = TLVTagSARMsgRefNum, op_Value = [ucast (drop_bit 8 reference), ucast reference]\<rparr>,
      \<lparr>op_Tag = TLVTagSARTotalSegments, op_Value = [tot]\<rparr>,
      \<lparr>op_Tag = TLVTagSARSegmentSeqnum, op_Value = [sequence]\<rparr>]"

text \<open>The loop of \<^verbatim>\<open>ParseSAR\<close>; an unset value is \<open>None\<close>, where the source keeps a zero and a flag.\<close>

fun parseSARLoop :: "OptionalParameter list \<Rightarrow> u16 option \<times> byte option \<times> byte option \<Rightarrow>
    goerr + u16 option \<times> byte option \<times> byte option" where
  "parseSARLoop [] st = Inr st"
| "parseSARLoop (p # ps) (ref, tot, sq) =
     (if op_Tag p = TLVTagSARMsgRefNum then
        if length (op_Value p) \<noteq> 2 then Inl ErrInvalidSAR else parseSARLoop ps (Some (Uint16 (op_Value p)), tot, sq)
      else if op_Tag p = TLVTagSARTotalSegments then
        if length (op_Value p) \<noteq> 1 then Inl ErrInvalidSAR else parseSARLoop ps (ref, Some (op_Value p ! 0), sq)
      else if op_Tag p = TLVTagSARSegmentSeqnum then
        if length (op_Value p) \<noteq> 1 then Inl ErrInvalidSAR else parseSARLoop ps (ref, tot, Some (op_Value p ! 0))
      else parseSARLoop ps (ref, tot, sq))"

definition ParseSAR :: "OptionalParameter list \<Rightarrow> goerr + u16 \<times> byte \<times> byte" where
  "ParseSAR ps =
     bindE (parseSARLoop ps (None, None, None)) (\<lambda>st.
       case st of
         (Some reference, Some tot, Some sq) \<Rightarrow>
           if tot = 0 \<or> sq = 0 \<or> sq > tot then Inl ErrInvalidSAR else Inr (reference, tot, sq)
       | _ \<Rightarrow> Inl ErrInvalidSAR)"

fun sarSegments :: "Kind \<Rightarrow> DataCoding \<Rightarrow> u16 \<Rightarrow> byte \<Rightarrow> nat \<Rightarrow> bytes list \<Rightarrow> goerr + Segment list" where
  "sarSegments kind coding reference tot i [] = Inr []"
| "sarSegments kind coding reference tot i (chunk # chunks) =
     (let sq = of_nat (i + 1) in
      bindE (if kind = KindGSM7 then bindE (PackSeptets chunk) (\<lambda>packed. Inr (packed, length chunk))
             else Inr (chunk, length chunk div 2))
        (\<lambda>(userData, units).
           bindE (sarSegments kind coding reference tot (i + 1) chunks) (\<lambda>segments.
             Inr (\<lparr>seg_Reference = reference, seg_Total = tot, seg_Sequence = sq, seg_Kind = kind,
                   seg_DataCoding = coding, seg_Units = units, seg_Data = chunk, seg_UDH = [],
                   seg_UserData = userData, seg_Optional = SARTLVs reference tot sq\<rparr> # segments))))"

definition SegmentTextSAR :: "gostring \<Rightarrow> bool \<Rightarrow> u16 \<Rightarrow> goerr + Segment list" where
  "SegmentTextSAR text allowSurrogates reference =
     bindE (EncodeText text allowSurrogates) (\<lambda>encoded.
       bindE
        (case et_Kind encoded of
           KindGSM7 \<Rightarrow> Inr (splitGSM7 (et_Data encoded) GSM7SingleSeptets)
         | KindUCS2 \<Rightarrow> Inr (splitFixedUnits (et_Data encoded) 2 UCS2SingleUnits)
         | KindUTF16BE \<Rightarrow> splitUTF16 (et_Data encoded) UCS2SingleUnits
         | _ \<Rightarrow> Inr [])
        (\<lambda>chunks.
           if length chunks \<le> 1 then SegmentTextUDH text allowSurrogates (ucast reference)
           else if length chunks > 255 then Inl ErrInvalidSegments
           else sarSegments (et_Kind encoded) (et_DataCoding encoded) reference (of_nat (length chunks)) 0 chunks))"

definition SegmentBinarySAR :: "bytes \<Rightarrow> u16 \<Rightarrow> goerr + Segment list" where
  "SegmentBinarySAR data reference =
     (let chunks = splitBytes data BinarySingleOctets in
      if length chunks \<le> 1 then SegmentBinaryUDH data (ucast reference)
      else if length chunks > 255 then Inl ErrInvalidSegments
      else
        let tot = of_nat (length chunks) in
        Inr (map (\<lambda>(i, chunk).
          let sq = of_nat (i + 1) in
          \<lparr>seg_Reference = reference, seg_Total = tot, seg_Sequence = sq, seg_Kind = KindBinary,
           seg_DataCoding = DataCodingOctetBinary2, seg_Units = length chunk, seg_Data = chunk, seg_UDH = [],
           seg_UserData = chunk, seg_Optional = SARTLVs reference tot sq\<rparr>) (enumerate 0 chunks)))"

section \<open>Reassembly\<close>

text \<open>
  \<^verbatim>\<open>slices.SortFunc\<close> sorts by the sequence number; equal numbers are refused right after, so their order does
  not matter. \<open>joinParts\<close> is the last loop, at index \<open>i\<close>.
\<close>

fun joinParts :: "Segment \<Rightarrow> nat \<Rightarrow> Segment list \<Rightarrow> goerr + bytes" where
  "joinParts p0 i [] = Inr []"
| "joinParts p0 i (part # parts) =
     (if seg_Reference part \<noteq> seg_Reference p0 \<or> seg_Kind part \<noteq> seg_Kind p0 \<or> seg_DataCoding part \<noteq> seg_DataCoding p0 \<or>
         seg_Total part \<noteq> seg_Total p0 \<or> seg_Sequence part \<noteq> of_nat (i + 1)
      then Inl (Wrapped ''inconsistent part %d'' ErrInvalidSegments)
      else bindE (joinParts p0 (i + 1) parts) (\<lambda>out. Inr (seg_Data part @ out)))"

definition Reassemble :: "Segment list \<Rightarrow> goerr + bytes" where
  "Reassemble segments =
     (if segments = [] then Inl ErrInvalidSegments
      else
        let parts = sort_key seg_Sequence segments in
        if \<not> distinct (map seg_Sequence parts) then Inl (Wrapped ''duplicate sequence %d'' ErrInvalidSegments)
        else if seg_Total (hd parts) = 0 then Inl (Wrapped ''total must be specified (nonzero) on every segment'' ErrInvalidSegments)
        else if unat (seg_Total (hd parts)) \<noteq> length parts then Inl (Wrapped ''have %d parts want %d'' ErrInvalidSegments)
        else joinParts (hd parts) 0 parts)"

definition DecodeTextSegments :: "Segment list \<Rightarrow> goerr + gostring" where
  "DecodeTextSegments segments =
     (if segments = [] then Inl ErrInvalidSegments
      else bindE (Reassemble segments) (\<lambda>data.
        case seg_Kind (hd segments) of
          KindGSM7 \<Rightarrow> DecodeGSM7 data
        | KindUCS2 \<Rightarrow> DecodeUCS2 data
        | KindUTF16BE \<Rightarrow> DecodeUTF16BE data
        | _ \<Rightarrow> Inl (Wrapped ''non-text kind %s'' ErrInvalidSegments)))"

section \<open>The parts of a split\<close>

text \<open>Every split of a text is at character boundaries: the parts decode one by one.\<close>

definition decodeKind :: "Kind \<Rightarrow> bytes \<Rightarrow> goerr + gostring" where
  "decodeKind kind data =
     (case kind of
        KindGSM7 \<Rightarrow> DecodeGSM7 data
      | KindUCS2 \<Rightarrow> DecodeUCS2 data
      | KindUTF16BE \<Rightarrow> DecodeUTF16BE data
      | _ \<Rightarrow> Inl (Wrapped ''non-text kind %s'' ErrInvalidSegments))"

definition textParts :: "Kind \<Rightarrow> gostring \<Rightarrow> bytes list \<Rightarrow> bool" where
  "textParts kind t chunks \<longleftrightarrow> (\<exists>ts. concat ts = t \<and> list_all2 (\<lambda>c x. decodeKind kind c = Inr x) chunks ts)"

lemma textParts_Nil [simp]: "textParts kind [] []"
  by (simp add: textParts_def)

lemma textParts_Cons:
  "\<lbrakk>decodeKind kind c = Inr x; textParts kind t chunks\<rbrakk> \<Longrightarrow> textParts kind (x @ t) (c # chunks)"
  unfolding textParts_def by (elim exE conjE, rule_tac x = "x # ts" in exI) simp

lemma textParts_one [simp]: "decodeKind kind c = Inr t \<Longrightarrow> textParts kind t [c]"
  using textParts_Cons [of kind c t "[]" "[]"] by simp

definition partsOf :: "nat \<Rightarrow> bytes \<Rightarrow> bytes list \<Rightarrow> bool" where
  "partsOf limit data chunks \<longleftrightarrow> concat chunks = data \<and> (\<forall>c \<in> set chunks. c \<noteq> [] \<and> length c \<le> limit)"

lemma partsOf_Nil [simp]: "partsOf limit data [] \<longleftrightarrow> data = []"
  by (auto simp: partsOf_def)

lemma partsOf_Cons [simp]:
  "partsOf limit data (c # chunks) \<longleftrightarrow> c \<noteq> [] \<and> length c \<le> limit \<and> (\<exists>rest. data = c @ rest \<and> partsOf limit rest chunks)"
  by (auto simp: partsOf_def)

lemma splitBytes_parts: "0 < limit \<Longrightarrow> partsOf limit data (splitBytes data limit)"
proof (induction data limit rule: splitBytes.induct)
  case (1 data limit)
  show ?case
  proof (cases "data = []")
    case True
    then show ?thesis by (subst splitBytes.simps) simp
  next
    case False
    let ?n = "min (length data) limit"
    have "partsOf limit (drop ?n data) (splitBytes (drop ?n data) limit)"
      using "1.IH" False "1.prems" by simp
    moreover have "splitBytes data limit = take ?n data # splitBytes (drop ?n data) limit"
      using False "1.prems" by (subst splitBytes.simps) (simp add: Let_def)
    moreover have "0 < ?n" using False "1.prems" by simp
    ultimately show ?thesis using False by (auto intro!: exI [of _ "drop ?n data"])
  qed
qed

lemma splitBytes_even:
  "\<lbrakk>0 < limit; even limit; even (length data)\<rbrakk> \<Longrightarrow> \<forall>c \<in> set (splitBytes data limit). even (length c)"
proof (induction data limit rule: splitBytes.induct)
  case (1 data limit)
  show ?case
  proof (cases "data = []")
    case True
    then show ?thesis by (subst splitBytes.simps) simp
  next
    case False
    let ?n = "min (length data) limit"
    have n: "even ?n" using "1.prems" by (simp add: min_def)
    then have "\<forall>c \<in> set (splitBytes (drop ?n data) limit). even (length c)"
      using "1.IH" False "1.prems" by simp
    moreover have "splitBytes data limit = take ?n data # splitBytes (drop ?n data) limit"
      using False "1.prems" by (subst splitBytes.simps) (simp add: Let_def)
    ultimately show ?thesis using n by simp
  qed
qed

lemma bytesUnits_append: "even (length xs) \<Longrightarrow> bytesUnits (xs @ ys) = bytesUnits xs @ bytesUnits ys"
  by (induction xs rule: bytesUnits.induct) simp_all

lemma bindE_return: "bindE m Inr = m"
  by (cases m) simp_all

lemma ucs2Runes_append:
  "ucs2Runes (us @ vs) = bindE (ucs2Runes us) (\<lambda>a. bindE (ucs2Runes vs) (\<lambda>b. Inr (a @ b)))"
  by (induction us) (simp_all add: bindE_assoc bindE_return)

lemma DecodeUCS2_append:
  assumes "even (length xs)" "DecodeUCS2 (xs @ ys) = Inr t"
  obtains t1 t2 where "t = t1 @ t2" "DecodeUCS2 xs = Inr t1" "DecodeUCS2 ys = Inr t2"
proof -
  have "even (length ys)" "ucs2Runes (bytesUnits xs @ bytesUnits ys) = Inr t"
    using assms by (auto simp: DecodeUCS2_def bytesUnits_append even_iff_mod_2_eq_zero [symmetric] split: if_splits)
  then show thesis using assms(1) that unfolding ucs2Runes_append DecodeUCS2_def
    by (auto simp: bindE_eq_Inr even_iff_mod_2_eq_zero [symmetric])
qed

lemma ucs2_textParts:
  "\<lbrakk>\<forall>c \<in> set chunks. even (length c); DecodeUCS2 (concat chunks) = Inr t\<rbrakk> \<Longrightarrow> textParts KindUCS2 t chunks"
proof (induction chunks arbitrary: t)
  case Nil
  then show ?case by (simp add: DecodeUCS2_def)
next
  case (Cons c chunks)
  then obtain t1 t2 where t: "t = t1 @ t2" "DecodeUCS2 c = Inr t1" "DecodeUCS2 (concat chunks) = Inr t2"
    using DecodeUCS2_append [of c "concat chunks" t] by auto
  then show ?case using Cons textParts_Cons [of KindUCS2 c t1 t2 chunks] by (simp add: decodeKind_def)
qed

lemma DecodeGSM7_append:
  "\<lbrakk>DecodeGSM7 (xs @ ys) = Inr t; xs = [] \<or> last xs \<noteq> 0x1b\<rbrakk> \<Longrightarrow>
     \<exists>t1 t2. t = t1 @ t2 \<and> DecodeGSM7 xs = Inr t1 \<and> DecodeGSM7 ys = Inr t2"
proof (induction xs arbitrary: t rule: DecodeGSM7.induct)
  case 1
  then show ?case by simp
next
  case (2 code rest)
  show ?case
  proof (cases "code = 0x1b")
    case True
    with "2.prems"(2) obtain c rest' where rest: "rest = c # rest'" by (cases rest) auto
    with True "2.prems"(1) obtain r t' where r: "gsmExtension c = Some r" "DecodeGSM7 (rest' @ ys) = Inr t'" "t = r # t'"
      by (auto simp: bindE_eq_Inr split: option.splits)
    moreover have "rest' = [] \<or> last rest' \<noteq> 0x1b" using "2.prems"(2) rest by (auto split: if_splits)
    ultimately obtain t1 t2 where "t' = t1 @ t2" "DecodeGSM7 rest' = Inr t1" "DecodeGSM7 ys = Inr t2"
      using "2.IH"(1) [of c rest' r t'] True rest by auto
    then show ?thesis using True rest r by (intro exI [of _ "r # t1"] exI [of _ t2]) simp
  next
    case False
    let ?r = "gsmDefault ! unat code"
    obtain t' where r: "\<not> code > 0x7f" "?r \<noteq> 0" "DecodeGSM7 (rest @ ys) = Inr t'" "t = ?r # t'"
      using False "2.prems"(1) by (auto simp: bindE_eq_Inr Let_def split: if_splits)
    moreover have "rest = [] \<or> last rest \<noteq> 0x1b" using "2.prems"(2) by (auto split: if_splits)
    ultimately obtain t1 t2 where "t' = t1 @ t2" "DecodeGSM7 rest = Inr t1" "DecodeGSM7 ys = Inr t2"
      using "2.IH"(2) [of ?r t'] False by auto
    then show ?thesis using False r by (intro exI [of _ "?r # t1"] exI [of _ t2]) (simp add: Let_def)
  qed
qed

lemma DecodeGSM7_no_double_escape:
  "\<lbrakk>DecodeGSM7 xs = Inr t; Suc i < length xs; xs ! i = 0x1b\<rbrakk> \<Longrightarrow> xs ! Suc i \<noteq> 0x1b"
proof (induction xs arbitrary: t i rule: DecodeGSM7.induct)
  case (2 code rest)
  show ?case
  proof (cases "code = 0x1b")
    case True
    with "2.prems"(1) obtain c rest' r t' where
      c: "rest = c # rest'" "gsmExtension c = Some r" "DecodeGSM7 rest' = Inr t'"
      by (auto simp: bindE_eq_Inr split: option.splits list.splits)
    have "c \<noteq> 0x1b" using c(2) gsmExtension_facts(3) by (auto simp: gsmExtension_Some list_all_iff)
    moreover have "Suc j < length rest' \<Longrightarrow> rest' ! j = 0x1b \<Longrightarrow> rest' ! Suc j \<noteq> 0x1b" for j
      using "2.IH"(1) [of c rest' r t' j] True c by auto
    ultimately show ?thesis using "2.prems"(2,3) True c(1) by (cases i; cases "i - 1") auto
  next
    case False
    then obtain t' where "\<not> code > 0x7f" "gsmDefault ! unat code \<noteq> 0" "DecodeGSM7 rest = Inr t'"
      using "2.prems"(1) by (auto simp: bindE_eq_Inr Let_def split: if_splits)
    then show ?thesis using "2.IH"(2) [of "gsmDefault ! unat code" t' "i - 1"] "2.prems"(2,3) False
      by (cases i) auto
  qed
qed simp

lemma splitGSM7_parts:
  "\<lbrakk>2 \<le> limit; DecodeGSM7 data = Inr t\<rbrakk> \<Longrightarrow>
     partsOf limit data (splitGSM7 data limit) \<and> textParts KindGSM7 t (splitGSM7 data limit)"
proof (induction data limit arbitrary: t rule: splitGSM7.induct)
  case (1 data limit)
  show ?case
  proof (cases "data = []")
    case True
    then have "splitGSM7 data limit = []" by (subst splitGSM7.simps) simp
    then show ?thesis using "1.prems"(2) True by simp
  next
    case False
    define m where "m = min (length data) limit"
    define n where "n = (if m < length data \<and> data ! (m - 1) = 0x1b then m - 1 else m)"
    have m: "0 < m" "m \<le> length data" "m \<le> limit" "m < length data \<Longrightarrow> 2 \<le> m"
      using False "1.prems"(1) by (auto simp: m_def)
    have n: "0 < n" "n \<le> length data" "n \<le> limit" using m by (auto simp: n_def)
    have split: "splitGSM7 data limit = take n data # splitGSM7 (drop n data) limit"
      unfolding splitGSM7.simps [of data limit] Let_def m_def [symmetric] n_def [symmetric]
      using False "1.prems"(1) by simp
    have "\<exists>t1 t2. t = t1 @ t2 \<and> DecodeGSM7 (take n data) = Inr t1 \<and> DecodeGSM7 (drop n data) = Inr t2"
    proof (cases "n = length data")
      case True
      then show ?thesis using "1.prems"(2) by simp
    next
      case False
      have "data ! (n - 1) \<noteq> 0x1b"
      proof (cases "m < length data \<and> data ! (m - 1) = 0x1b")
        case True
        then have "Suc (n - 1) = m - 1" "m - 1 < length data" using m(4) by (auto simp: n_def)
        then show ?thesis
          using DecodeGSM7_no_double_escape [OF "1.prems"(2), of "n - 1"] True by auto
      qed (use False m(2) in \<open>auto simp: n_def\<close>)
      then have "last (take n data) \<noteq> 0x1b" using n by (subst last_conv_nth) (auto simp: min_absorb2)
      then show ?thesis using DecodeGSM7_append [of "take n data" "drop n data" t] "1.prems"(2) by simp
    qed
    then obtain t1 t2 where t: "t = t1 @ t2" "DecodeGSM7 (take n data) = Inr t1" "DecodeGSM7 (drop n data) = Inr t2"
      by blast
    have ih: "partsOf limit (drop n data) (splitGSM7 (drop n data) limit)"
      "textParts KindGSM7 t2 (splitGSM7 (drop n data) limit)"
      using "1.IH" [OF _ m_def n_def "1.prems"(1) t(3)] False "1.prems"(1) by auto
    have "textParts KindGSM7 t (splitGSM7 data limit)"
      unfolding split t(1) using textParts_Cons [OF _ ih(2)] t(2) by (simp add: decodeKind_def)
    moreover have "partsOf limit data (splitGSM7 data limit)"
      unfolding split using n ih(1) False by (auto intro!: exI [of _ "drop n data"])
    ultimately show ?thesis by blast
  qed
qed

lemma utf16Encode_append [simp]: "utf16Encode (s @ t) = utf16Encode s @ utf16Encode t"
  by (induction s) simp_all

lemma unitBytes_append [simp]: "unitBytes (us @ vs) = unitBytes us @ unitBytes vs"
  by (simp add: unitBytes_def)

lemma DecodeUTF16BE_append:
  "\<lbrakk>DecodeUTF16BE d = Inr s; DecodeUTF16BE e = Inr t\<rbrakk> \<Longrightarrow> DecodeUTF16BE (d @ e) = Inr (s @ t)"
  unfolding EncodeUTF16BE_iff [symmetric] by (auto simp: EncodeUTF16BE_def ValidString_def split: if_splits)

lemma unitBytes_eq_Nil: "unitBytes us = [] \<longleftrightarrow> us = []"
  by (cases us) (simp_all add: be16_def)

definition runeUnits :: "rune \<Rightarrow> u16 list" where
  "runeUnits r = utf16Encode [r]"

lemma runeUnits_width: "length (runeUnits r) = 1 \<or> length (runeUnits r) = 2"
  by (simp add: runeUnits_def)

lemma splitUTF16Loop_unit:
  assumes "\<not> highSurrogate u" "\<not> lowSurrogate u"
  shows "splitUTF16Loop limit (be16 u @ rest) st = bindE (putUnits limit 1 (be16 u) st) (splitUTF16Loop limit rest)"
proof -
  obtain a b where ab: "be16 u = [a, b]" by (simp add: be16_def)
  then have "Uint16 [a, b] = u" using Uint16_be16 [of u "[]"] by simp
  then show ?thesis using assms unfolding ab highSurrogate_def lowSurrogate_def by auto
qed

lemma splitUTF16Loop_pair:
  assumes "highSurrogate u" "lowSurrogate v"
  shows "splitUTF16Loop limit (be16 u @ be16 v @ rest) st =
    bindE (putUnits limit 2 (be16 u @ be16 v) st) (splitUTF16Loop limit rest)"
proof -
  obtain a b c d where ab: "be16 u = [a, b]" "be16 v = [c, d]" by (simp add: be16_def)
  then have "Uint16 [a, b] = u" "Uint16 [c, d] = v" using Uint16_be16 [of u "[]"] Uint16_be16 [of v "[]"] by simp_all
  moreover have "\<not> v < 0xdc00" "\<not> v > 0xdfff" using assms(2) lowSurrogate_range [of v] by blast+
  ultimately show ?thesis using assms(1) unfolding ab highSurrogate_def by simp
qed

lemma splitUTF16Loop_rune:
  assumes "scalarValue r"
  shows "splitUTF16Loop limit (unitBytes (runeUnits r) @ rest) st =
    bindE (putUnits limit (length (runeUnits r)) (unitBytes (runeUnits r)) st) (splitUTF16Loop limit rest)"
proof -
  consider (bmp) "0 \<le> r \<and> r < 0xd800 \<or> 0xe000 \<le> r \<and> r < 0x10000" | (pair) "0x10000 \<le> r" "r \<le> 0x10ffff"
    using assms by (fastforce simp: scalarValue_def isSurrogate_def)
  then show ?thesis
  proof cases
    case bmp
    then show ?thesis using splitUTF16Loop_unit [OF bmp_unit(1,2) [OF bmp]] by (auto simp: runeUnits_def)
  next
    case pair
    define u v :: u16 where u: "u = word_of_int (0xd800 + (r - 0x10000) div 0x400 mod 0x400)"
      and v: "v = word_of_int (0xdc00 + (r - 0x10000) mod 0x400)"
    have "runeUnits r = [u, v]" using pair unfolding u v runeUnits_def by simp
    then show ?thesis using splitUTF16Loop_pair [of u v] surrogates_of_pair [OF pair u v] by (simp add: numeral_2_eq_2)
  qed
qed

lemma DecodeUTF16BE_rune: "scalarValue r \<Longrightarrow> DecodeUTF16BE (unitBytes (runeUnits r)) = Inr [r]"
  unfolding EncodeUTF16BE_iff [symmetric] by (simp add: EncodeUTF16BE_def ValidString_def runeUnits_def)

lemma splitUTF16Loop_parts:
  assumes "2 \<le> limit"
  shows "\<lbrakk>ValidString t; length cur = 2 * units; units \<le> limit; DecodeUTF16BE cur = Inr tc; data = unitBytes (utf16Encode t)\<rbrakk> \<Longrightarrow>
    \<exists>chunks. splitUTF16Loop limit data (parts, cur, units) = Inr (parts @ chunks) \<and> concat chunks = cur @ data \<and>
      (cur @ data \<noteq> [] \<longrightarrow> [] \<notin> set chunks) \<and> (\<forall>c \<in> set chunks. length c \<le> 2 * limit) \<and>
      textParts KindUTF16BE (tc @ t) chunks"
proof (induction t arbitrary: cur units tc parts data)
  case Nil
  then show ?case by (intro exI [of _ "[cur]"]) (auto simp: decodeKind_def)
next
  case (Cons r rs)
  let ?w = "length (runeUnits r)" and ?o = "unitBytes (runeUnits r)" and ?rest = "unitBytes (utf16Encode rs)"
  have r: "scalarValue r" "ValidString rs" using Cons.prems(1) by (simp_all add: ValidString_def)
  have data: "data = ?o @ ?rest" using utf16Encode_append [of "[r]" rs] Cons.prems(5) by (simp add: runeUnits_def)
  have w: "?w \<le> limit" "0 < ?w" "?o \<noteq> []" using runeUnits_width [of r] assms by (auto simp: unitBytes_eq_Nil)
  have loop: "splitUTF16Loop limit data st = bindE (putUnits limit ?w ?o st) (splitUTF16Loop limit ?rest)" for st
    unfolding data by (rule splitUTF16Loop_rune [OF r(1)])
  note o = DecodeUTF16BE_rune [OF r(1)]
  show ?case
  proof (cases "units > 0 \<and> units + ?w > limit")
    case True
    then have put: "putUnits limit ?w ?o (parts, cur, units) = Inr (parts @ [cur], ?o, ?w)"
      using w by (simp add: putUnits_def)
    obtain chunks where c: "splitUTF16Loop limit ?rest (parts @ [cur], ?o, ?w) = Inr ((parts @ [cur]) @ chunks)"
      "concat chunks = ?o @ ?rest" "[] \<notin> set chunks" "\<forall>c \<in> set chunks. length c \<le> 2 * limit"
      "textParts KindUTF16BE ([r] @ rs) chunks"
      using Cons.IH [OF r(2) _ w(1) o refl, of "parts @ [cur]"] w by auto
    have "textParts KindUTF16BE (tc @ r # rs) (cur # chunks)"
      using textParts_Cons [of KindUTF16BE cur tc _ chunks] c(5) Cons.prems(4) by (simp add: decodeKind_def)
    then show ?thesis using True c Cons.prems(2,3) loop put data by (intro exI [of _ "cur # chunks"]) auto
  next
    case False
    then have put: "putUnits limit ?w ?o (parts, cur, units) = Inr (parts, cur @ ?o, units + ?w)"
      using w by (simp add: putUnits_def)
    have dec: "DecodeUTF16BE (cur @ ?o) = Inr (tc @ [r])" using DecodeUTF16BE_append [OF Cons.prems(4) o] .
    have len: "length (cur @ ?o) = 2 * (units + ?w)" using Cons.prems(2) by simp
    have le: "units + ?w \<le> limit" using False w by auto
    obtain chunks where c: "splitUTF16Loop limit ?rest (parts, cur @ ?o, units + ?w) = Inr (parts @ chunks)"
      "concat chunks = (cur @ ?o) @ ?rest" "[] \<notin> set chunks" "\<forall>c \<in> set chunks. length c \<le> 2 * limit"
      "textParts KindUTF16BE ((tc @ [r]) @ rs) chunks"
      using Cons.IH [OF r(2) len le dec refl, of parts] w by auto
    then show ?thesis using loop put data by (intro exI [of _ chunks]) auto
  qed
qed

lemma splitUTF16_parts:
  assumes "2 \<le> limit" "DecodeUTF16BE data = Inr t"
  obtains chunks where "splitUTF16 data limit = Inr chunks" "partsOf (2 * limit) data chunks" "textParts KindUTF16BE t chunks"
proof (cases "data = []")
  case True
  then show thesis using that [of "[]"] assms(2) by (simp add: splitUTF16_def DecodeUTF16BE_def)
next
  case False
  have t: "ValidString t" "data = unitBytes (utf16Encode t)"
    using assms(2) unfolding EncodeUTF16BE_iff [symmetric] by (auto simp: EncodeUTF16BE_def split: if_splits)
  have "DecodeUTF16BE [] = Inr []" by (simp add: DecodeUTF16BE_def)
  then obtain chunks where c: "splitUTF16Loop limit data ([], [], 0) = Inr chunks" "concat chunks = data" "[] \<notin> set chunks"
    "\<forall>c \<in> set chunks. length c \<le> 2 * limit" "textParts KindUTF16BE t chunks"
    using splitUTF16Loop_parts [OF assms(1) t(1), of "[]" 0 "[]" data "[]"] t(2) False by auto
  have "length data mod 2 = 0" using t(2) by simp
  then show thesis using that [of chunks] c False by (auto simp: splitUTF16_def partsOf_def)
qed

section \<open>Reassembly\<close>

text \<open>The segments of one message in order, numbered from 1, with their data.\<close>

definition series :: "Segment list \<Rightarrow> bool" where
  "series segs \<longleftrightarrow> segs \<noteq> [] \<and> length segs \<le> 255 \<and>
     (\<forall>i < length segs. seg_Reference (segs ! i) = seg_Reference (hd segs) \<and> seg_Kind (segs ! i) = seg_Kind (hd segs) \<and>
        seg_DataCoding (segs ! i) = seg_DataCoding (hd segs) \<and>
        seg_Total (segs ! i) = of_nat (length segs) \<and> seg_Sequence (segs ! i) = of_nat (i + 1))"

lemma joinParts_iff:
  "joinParts p0 i segs = Inr d \<longleftrightarrow> d = concat (map seg_Data segs) \<and>
     (\<forall>j < length segs. seg_Reference (segs ! j) = seg_Reference p0 \<and> seg_Kind (segs ! j) = seg_Kind p0 \<and>
        seg_DataCoding (segs ! j) = seg_DataCoding p0 \<and> seg_Total (segs ! j) = seg_Total p0 \<and>
        seg_Sequence (segs ! j) = of_nat (i + j + 1))"
proof (induction segs arbitrary: i d)
  case (Cons part parts)
  show ?case unfolding joinParts.simps length_Cons All_less_Suc2 nth_Cons_0 nth_Cons_Suc
    by (auto simp: bindE_eq_Inr Cons.IH)
qed auto

lemma of_nat_byte_less: "\<lbrakk>i < 256; j < 256\<rbrakk> \<Longrightarrow> (of_nat i :: byte) < of_nat j \<longleftrightarrow> i < j"
  by (simp add: word_less_nat_alt unat_of_nat)

lemma of_nat_byte_eq: "\<lbrakk>i < 256; j < 256\<rbrakk> \<Longrightarrow> (of_nat i :: byte) = of_nat j \<longleftrightarrow> i = j"
  using of_nat_byte_less [of i j] of_nat_byte_less [of j i] by (metis less_irrefl linorder_neqE)

lemma series_sequence:
  assumes "series segs"
  shows "distinct (map seg_Sequence segs)" "sorted (map seg_Sequence segs)"
proof -
  have "map seg_Sequence segs = map (\<lambda>i. of_nat (i + 1)) [0..<length segs]" and "length segs \<le> 255"
    using assms by (auto simp: series_def intro!: nth_equalityI)
  then show "distinct (map seg_Sequence segs)" "sorted (map seg_Sequence segs)"
    by (auto simp: distinct_map inj_on_def of_nat_byte_eq sorted_iff_nth_mono less_imp_le le_less of_nat_byte_less
        simp del: of_nat_add of_nat_Suc of_nat_add)
qed

lemma sort_series:
  assumes "series segs" "mset parts = mset segs"
  shows "sort_key seg_Sequence parts = segs"
  using assms series_sequence [OF assms(1)] mset_eq_setD [OF assms(2)]
  by (intro sort_key_inj_key_eq) (auto simp: distinct_map)

text \<open>Reassembly succeeds exactly on the permutations of complete series.\<close>

lemma Reassemble_iff:
  "Reassemble parts = Inr d \<longleftrightarrow> (\<exists>segs. mset parts = mset segs \<and> series segs \<and> d = concat (map seg_Data segs))"
proof
  assume r: "Reassemble parts = Inr d"
  let ?segs = "sort_key seg_Sequence parts"
  have ne: "parts \<noteq> []" and tot: "unat (seg_Total (hd ?segs)) = length ?segs" "seg_Total (hd ?segs) \<noteq> 0"
    and join: "joinParts (hd ?segs) 0 ?segs = Inr d"
    using r by (auto simp: Reassemble_def Let_def split: if_splits)
  have "length ?segs \<le> 255" unfolding tot(1) [symmetric]
    using unsigned_less [of "seg_Total (hd ?segs)", where ?'a = nat] by simp
  moreover have "seg_Total (hd ?segs) = of_nat (length ?segs)" unfolding tot(1) [symmetric] by simp
  moreover have "?segs \<noteq> []" using ne by (metis length_sort length_0_conv)
  ultimately have "series ?segs" using join unfolding series_def joinParts_iff by auto
  then show "\<exists>segs. mset parts = mset segs \<and> series segs \<and> d = concat (map seg_Data segs)"
    using join unfolding joinParts_iff by (intro exI [of _ ?segs]) simp
next
  assume "\<exists>segs. mset parts = mset segs \<and> series segs \<and> d = concat (map seg_Data segs)"
  then obtain segs where s: "mset parts = mset segs" "series segs" "d = concat (map seg_Data segs)" by blast
  have len: "0 < length segs" "length segs \<le> 255" using s(2) by (auto simp: series_def)
  have hd: "seg_Total (hd segs) = of_nat (length segs)" using s(2) by (auto simp: series_def hd_conv_nth)
  then have u: "unat (seg_Total (hd segs)) = length segs" using len by (simp add: unat_of_nat)
  then have "seg_Total (hd segs) \<noteq> 0" using len by auto
  moreover have "joinParts (hd segs) 0 segs = Inr d"
    unfolding joinParts_iff using s(2,3) hd by (auto simp: series_def)
  moreover have "parts \<noteq> []" using s(1) len by auto
  ultimately show "Reassemble parts = Inr d"
    unfolding Reassemble_def Let_def sort_series [OF s(2,1)] using series_sequence(1) [OF s(2)] u by simp
qed

lemma DecodeTextSegments_series:
  assumes "series segs" "mset parts = mset segs"
  shows "DecodeTextSegments parts = decodeKind (seg_Kind (hd segs)) (concat (map seg_Data segs))"
proof -
  have "Reassemble parts = Inr (concat (map seg_Data segs))" using assms by (auto simp: Reassemble_iff)
  moreover have "parts \<noteq> []" using assms by (auto simp: series_def)
  moreover have "hd parts \<in> set segs" using mset_eq_setD [OF assms(2)] \<open>parts \<noteq> []\<close> hd_in_set by metis
  then have "seg_Kind (hd parts) = seg_Kind (hd segs)" using assms(1) by (auto simp: series_def in_set_conv_nth)
  ultimately show ?thesis by (simp add: DecodeTextSegments_def decodeKind_def)
qed

section \<open>What is in a segment\<close>

lemma EncodeText_forms:
  assumes "EncodeText t allow = Inr e"
  obtains (gsm7) "et_Kind e = KindGSM7" "DecodeGSM7 (et_Data e) = Inr t" "et_Units e = length (et_Data e)"
  | (ucs2) "et_Kind e = KindUCS2" "DecodeUCS2 (et_Data e) = Inr t" "2 * et_Units e = length (et_Data e)"
  | (utf16) "et_Kind e = KindUTF16BE" "DecodeUTF16BE (et_Data e) = Inr t" "2 * et_Units e = length (et_Data e)"
proof -
  have even: "DecodeUCS2 d = Inr t \<Longrightarrow> even (length d)" "DecodeUTF16BE d = Inr t \<Longrightarrow> even (length d)" for d
    by (auto simp: DecodeUCS2_def DecodeUTF16BE_def split: if_splits)
  from assms obtain sel where s: "SelectText t allow = Inr sel" "et_Kind e = st_Kind sel" "et_Data e = st_Data sel"
    "et_Units e = st_Units sel" by (auto simp: EncodeText_def bindE_eq_Inr Let_def)
  show thesis
  proof (cases "EncodeGSM7 t")
    case (Inr d)
    then have "DecodeGSM7 d = Inr t" by (simp add: EncodeGSM7_iff)
    then show ?thesis using s Inr gsm7 by (auto simp: SelectText_def)
  next
    case g: (Inl err)
    show ?thesis
    proof (cases "EncodeUCS2 t")
      case (Inr d)
      then have "DecodeUCS2 d = Inr t" by (simp add: EncodeUCS2_iff)
      then show ?thesis using s g Inr ucs2 even(1) [of d] by (auto simp: SelectText_def)
    next
      case (Inl err')
      then obtain d where d: "EncodeUTF16BE t = Inr d" "sel = \<lparr>st_Kind = KindUTF16BE, st_Data = d, st_Units = length d div 2\<rparr>"
        using s(1) g by (auto simp: SelectText_def bindE_eq_Inr split: if_splits)
      then show ?thesis using s utf16 even(2) [of d] by (auto simp: EncodeUTF16BE_iff)
    qed
  qed
qed

text \<open>What a receiver reads from the user data of a segment, behind the header.\<close>

definition segmentContent :: "Segment \<Rightarrow> goerr + bytes" where
  "segmentContent seg =
     (let h = length (seg_UDH seg) in
      if seg_Kind seg = KindGSM7 then
        (case UnpackSeptets (drop h (seg_UserData seg)) (int (seg_Units seg)) (GSM7UDHFillBits (int h)) of
           Returns data \<Rightarrow> Inr data | Raises err \<Rightarrow> Inl err | Panics v \<Rightarrow> Inl ErrInvalidGSM7)
      else Inr (drop h (seg_UserData seg)))"

definition udhSegment :: "Kind \<Rightarrow> DataCoding \<Rightarrow> byte \<Rightarrow> byte \<Rightarrow> nat \<Rightarrow> bytes \<Rightarrow> bytes \<Rightarrow> Segment" where
  "udhSegment kind coding reference tot i chunk payload =
     \<lparr>seg_Reference = ucast reference, seg_Total = tot, seg_Sequence = of_nat (i + 1), seg_Kind = kind,
      seg_DataCoding = coding, seg_Units = (if kind = KindUCS2 \<or> kind = KindUTF16BE then length chunk div 2 else length chunk),
      seg_Data = chunk, seg_UDH = BuildConcatUDH8 reference tot (of_nat (i + 1)),
      seg_UserData = BuildConcatUDH8 reference tot (of_nat (i + 1)) @ payload, seg_Optional = []\<rparr>"

lemma fill_bits [simp]: "GSM7UDHFillBits 0 = 0" "GSM7UDHFillBits 6 = 1"
  by (simp_all add: GSM7UDHFillBits_def)

lemma length_UDH [simp]: "length (BuildConcatUDH8 r t s) = 6" "length (BuildConcatUDH16 r' t s) = 7"
  by (simp_all add: BuildConcatUDH8_def BuildConcatUDH16_def)

lemma udhSegments_forms:
  "udhSegments kind coding reference tot i chunks = Inr segs \<Longrightarrow>
     length segs = length chunks \<and>
     (\<forall>j < length chunks. \<exists>payload. segs ! j = udhSegment kind coding reference tot (i + j) (chunks ! j) payload \<and>
        (if kind = KindGSM7 then PackSeptetsWithFill (chunks ! j) 1 = Inr payload else payload = chunks ! j))"
proof (induction chunks arbitrary: i segs)
  case (Cons c cs)
  then obtain payload rest where p: "segs = udhSegment kind coding reference tot i c payload # rest"
    "if kind = KindGSM7 then PackSeptetsWithFill c 1 = Inr payload else payload = c"
    and rest: "udhSegments kind coding reference tot (i + 1) cs = Inr rest"
    by (auto simp: bindE_eq_Inr Let_def udhSegment_def split: if_splits)
  show ?case unfolding length_Cons All_less_Suc2 nth_Cons_0 nth_Cons_Suc
    using Cons.IH [OF rest] p by auto
qed simp

lemma ParseConcatUDH8 [simp]:
  "ParseConcatUDH (BuildConcatUDH8 r t s @ d) = Inr (ucast r, t, s, 6)"
  by (simp add: ParseConcatUDH_def BuildConcatUDH8_def parseIEs.simps [of _ 6 "Suc 0"] go_slice_def)

lemma ParseConcatUDH16 [simp]:
  "ParseConcatUDH (BuildConcatUDH16 r t s @ d) = Inr (r, t, s, 7)"
  using Uint16_be16 [of r "[]"]
  by (simp add: ParseConcatUDH_def BuildConcatUDH16_def parseIEs.simps [of _ 7 "Suc 0"] go_slice_def be16_def)

lemma unpack_packed:
  assumes "PackSeptetsWithFill c f = Inr payload"
  shows "UnpackSeptets payload (int (length c)) f = Returns c" "length payload = (unat f + 7 * length c + 7) div 8"
  using PackSeptets_unpack [OF assms] by simp_all

lemma udhSegment_content:
  assumes "seg = udhSegment kind coding reference tot i chunk payload"
    "if kind = KindGSM7 then PackSeptetsWithFill chunk 1 = Inr payload else payload = chunk"
  shows "segmentContent seg = Inr chunk" "ParseConcatUDH (seg_UserData seg) = Inr (ucast reference, tot, of_nat (i + 1), 6)"
    "length (seg_UserData seg) = 6 + (if kind = KindGSM7 then (8 + 7 * length chunk) div 8 else length chunk)"
  using assms unpack_packed [of chunk 1 payload] unfolding assms(1) udhSegment_def segmentContent_def
  by (auto simp: Let_def split: if_splits simp del: of_nat_add of_nat_Suc)

lemma makeUDHSegments_forms:
  assumes "makeUDHSegments chunks kind coding reference = Inr segs"
  shows "series segs" "map seg_Data segs = chunks" "\<forall>seg \<in> set segs. seg_Kind seg = kind \<and> segmentContent seg = Inr (seg_Data seg) \<and>
    ParseConcatUDH (seg_UserData seg) = Inr (seg_Reference seg, seg_Total seg, seg_Sequence seg, length (seg_UDH seg)) \<and>
    length (seg_UserData seg) = 6 + (if kind = KindGSM7 then (8 + 7 * length (seg_Data seg)) div 8 else length (seg_Data seg))"
proof -
  have n: "chunks \<noteq> []" "length chunks \<le> 255" and u: "udhSegments kind coding reference (of_nat (length chunks)) 0 chunks = Inr segs"
    using assms by (auto simp: makeUDHSegments_def split: if_splits)
  have len: "length segs = length chunks" and segs: "\<And>j. j < length chunks \<Longrightarrow>
      \<exists>payload. segs ! j = udhSegment kind coding reference (of_nat (length chunks)) j (chunks ! j) payload \<and>
        (if kind = KindGSM7 then PackSeptetsWithFill (chunks ! j) 1 = Inr payload else payload = chunks ! j)"
    using udhSegments_forms [OF u] by auto
  have "segs \<noteq> []" using n len by auto
  then show "series segs" using segs [of 0] n len unfolding series_def hd_conv_nth [OF \<open>segs \<noteq> []\<close>]
    by (auto dest!: segs simp: udhSegment_def)
  show "map seg_Data segs = chunks" using len by (auto intro!: nth_equalityI dest!: segs simp: udhSegment_def)
  show "\<forall>seg \<in> set segs. seg_Kind seg = kind \<and> segmentContent seg = Inr (seg_Data seg) \<and>
    ParseConcatUDH (seg_UserData seg) = Inr (seg_Reference seg, seg_Total seg, seg_Sequence seg, length (seg_UDH seg)) \<and>
    length (seg_UserData seg) = 6 + (if kind = KindGSM7 then (8 + 7 * length (seg_Data seg)) div 8 else length (seg_Data seg))"
  proof
    fix seg
    assume "seg \<in> set segs"
    then obtain j payload where j: "seg = udhSegment kind coding reference (of_nat (length chunks)) j (chunks ! j) payload"
      "if kind = KindGSM7 then PackSeptetsWithFill (chunks ! j) 1 = Inr payload else payload = chunks ! j"
      using segs unfolding in_set_conv_nth len by blast
    show "seg_Kind seg = kind \<and> segmentContent seg = Inr (seg_Data seg) \<and>
      ParseConcatUDH (seg_UserData seg) = Inr (seg_Reference seg, seg_Total seg, seg_Sequence seg, length (seg_UDH seg)) \<and>
      length (seg_UserData seg) = 6 + (if kind = KindGSM7 then (8 + 7 * length (seg_Data seg)) div 8 else length (seg_Data seg))"
      using udhSegment_content [OF j] j(1) by (simp add: udhSegment_def)
  qed
qed

lemma makeUDH16UnpackedSegments_forms:
  assumes "makeUDH16UnpackedSegments chunks kind coding reference = Inr segs"
  shows "series segs" "map seg_Data segs = chunks" "\<forall>seg \<in> set segs. seg_Kind seg = kind \<and>
    seg_UserData seg = seg_UDH seg @ seg_Data seg \<and> length (seg_UDH seg) = 7 \<and>
    ParseConcatUDH (seg_UserData seg) = Inr (seg_Reference seg, seg_Total seg, seg_Sequence seg, length (seg_UDH seg))"
proof -
  have n: "chunks \<noteq> []" "length chunks \<le> 255"
    using assms by (auto simp: makeUDH16UnpackedSegments_def split: if_splits)
  have len: "length segs = length chunks" and segs: "\<And>j. j < length chunks \<Longrightarrow> segs ! j =
      \<lparr>seg_Reference = reference, seg_Total = of_nat (length chunks), seg_Sequence = of_nat (j + 1), seg_Kind = kind,
       seg_DataCoding = coding,
       seg_Units = (if kind = KindUCS2 \<or> kind = KindUTF16BE then length (chunks ! j) div 2 else length (chunks ! j)),
       seg_Data = chunks ! j, seg_UDH = BuildConcatUDH16 reference (of_nat (length chunks)) (of_nat (j + 1)),
       seg_UserData = BuildConcatUDH16 reference (of_nat (length chunks)) (of_nat (j + 1)) @ chunks ! j, seg_Optional = []\<rparr>"
    using assms by (auto simp: makeUDH16UnpackedSegments_def Let_def nth_enumerate_eq split: if_splits)
  have "segs \<noteq> []" using n len by auto
  then show "series segs" using segs [of 0] n len segs unfolding series_def hd_conv_nth [OF \<open>segs \<noteq> []\<close>] by auto
  show "map seg_Data segs = chunks" using len by (auto intro!: nth_equalityI simp: segs)
  show "\<forall>seg \<in> set segs. seg_Kind seg = kind \<and>
    seg_UserData seg = seg_UDH seg @ seg_Data seg \<and> length (seg_UDH seg) = 7 \<and>
    ParseConcatUDH (seg_UserData seg) = Inr (seg_Reference seg, seg_Total seg, seg_Sequence seg, length (seg_UDH seg))"
    using len by (auto simp: in_set_conv_nth segs)
qed

lemma ParseSAR_SARTLVs:
  "ParseSAR (SARTLVs r t s) = (if t = 0 \<or> s = 0 \<or> s > t then Inl ErrInvalidSAR else Inr (r, t, s))"
  using Uint16_be16 [of r "[]"] by (simp add: ParseSAR_def SARTLVs_def be16_def)

definition sarSegment :: "Kind \<Rightarrow> DataCoding \<Rightarrow> u16 \<Rightarrow> byte \<Rightarrow> nat \<Rightarrow> bytes \<Rightarrow> bytes \<Rightarrow> nat \<Rightarrow> Segment" where
  "sarSegment kind coding reference tot i chunk payload units =
     \<lparr>seg_Reference = reference, seg_Total = tot, seg_Sequence = of_nat (i + 1), seg_Kind = kind,
      seg_DataCoding = coding, seg_Units = units, seg_Data = chunk, seg_UDH = [],
      seg_UserData = payload, seg_Optional = SARTLVs reference tot (of_nat (i + 1))\<rparr>"

lemma sarSegments_forms:
  "sarSegments kind coding reference tot i chunks = Inr segs \<Longrightarrow>
     length segs = length chunks \<and>
     (\<forall>j < length chunks. \<exists>payload units. segs ! j = sarSegment kind coding reference tot (i + j) (chunks ! j) payload units \<and>
        (if kind = KindGSM7 then PackSeptets (chunks ! j) = Inr payload \<and> units = length (chunks ! j)
         else payload = chunks ! j \<and> units = length (chunks ! j) div 2))"
proof (induction chunks arbitrary: i segs)
  case (Cons c cs)
  then obtain payload units rest where p: "segs = sarSegment kind coding reference tot i c payload units # rest"
    "if kind = KindGSM7 then PackSeptets c = Inr payload \<and> units = length c else payload = c \<and> units = length c div 2"
    and rest: "sarSegments kind coding reference tot (i + 1) cs = Inr rest"
    by (auto simp: bindE_eq_Inr Let_def sarSegment_def split: if_splits)
  show ?case unfolding length_Cons All_less_Suc2 nth_Cons_0 nth_Cons_Suc
    using Cons.IH [OF rest] p by (cases "kind = KindGSM7") auto
qed simp

definition sarOk :: "Segment \<Rightarrow> bool" where
  "sarOk seg \<longleftrightarrow> ParseSAR (seg_Optional seg) = Inr (seg_Reference seg, seg_Total seg, seg_Sequence seg)"

lemma sarOk_numbered:
  assumes "i < n" "n \<le> 255" "seg_Optional seg = SARTLVs (seg_Reference seg) (seg_Total seg) (seg_Sequence seg)"
    "seg_Total seg = of_nat n" "seg_Sequence seg = of_nat (i + 1)"
  shows "sarOk seg"
proof -
  have "unat (seg_Sequence seg) = i + 1" "unat (seg_Total seg) = n"
    using assms(1,2) unfolding assms(4,5) by (simp_all only: unat_of_nat) simp_all
  then have "seg_Sequence seg \<noteq> 0" "seg_Total seg \<noteq> 0" "\<not> seg_Sequence seg > seg_Total seg"
    using assms(1) by (auto simp: word_less_nat_alt)
  then show ?thesis unfolding sarOk_def assms(3) ParseSAR_SARTLVs by simp
qed

lemma sarSegments_ok:
  assumes u: "sarSegments kind coding reference (of_nat (length chunks)) 0 chunks = Inr segs" "chunks \<noteq> []" "length chunks \<le> 255"
  shows "series segs" "map seg_Data segs = chunks" "\<forall>seg \<in> set segs. seg_Kind seg = kind \<and> sarOk seg \<and>
    segmentContent seg = Inr (seg_Data seg) \<and>
    length (seg_UserData seg) = (if kind = KindGSM7 then (7 + 7 * length (seg_Data seg)) div 8 else length (seg_Data seg))"
proof -
  have len: "length segs = length chunks" and segs: "\<And>j. j < length chunks \<Longrightarrow>
      \<exists>payload units. segs ! j = sarSegment kind coding reference (of_nat (length chunks)) j (chunks ! j) payload units \<and>
        (if kind = KindGSM7 then PackSeptets (chunks ! j) = Inr payload \<and> units = length (chunks ! j)
         else payload = chunks ! j \<and> units = length (chunks ! j) div 2)"
    using sarSegments_forms [OF u(1)] by auto
  have "segs \<noteq> []" using u len by auto
  then show "series segs" using segs [of 0] u len unfolding series_def hd_conv_nth [OF \<open>segs \<noteq> []\<close>]
    by (auto dest!: segs simp: sarSegment_def)
  show "map seg_Data segs = chunks" using len by (auto intro!: nth_equalityI dest!: segs simp: sarSegment_def)
  show "\<forall>seg \<in> set segs. seg_Kind seg = kind \<and> sarOk seg \<and> segmentContent seg = Inr (seg_Data seg) \<and>
    length (seg_UserData seg) = (if kind = KindGSM7 then (7 + 7 * length (seg_Data seg)) div 8 else length (seg_Data seg))"
  proof
    fix seg
    assume "seg \<in> set segs"
    then obtain j payload units where j: "j < length chunks"
      "seg = sarSegment kind coding reference (of_nat (length chunks)) j (chunks ! j) payload units"
      "if kind = KindGSM7 then PackSeptets (chunks ! j) = Inr payload \<and> units = length (chunks ! j)
         else payload = chunks ! j \<and> units = length (chunks ! j) div 2"
      using segs unfolding in_set_conv_nth len by blast
    have "sarOk seg" using sarOk_numbered [OF j(1) u(3)] j(2) by (simp add: sarSegment_def)
    then show "seg_Kind seg = kind \<and> sarOk seg \<and> segmentContent seg = Inr (seg_Data seg) \<and>
      length (seg_UserData seg) = (if kind = KindGSM7 then (7 + 7 * length (seg_Data seg)) div 8 else length (seg_Data seg))"
      using j(2,3) unpack_packed [of "chunks ! j" 0 payload] unfolding PackSeptets_def
      by (auto simp: sarSegment_def segmentContent_def add.commute split: if_splits)
  qed
qed

lemma singleSegment_ok:
  assumes "kind = KindGSM7 \<Longrightarrow> units = length data \<and> PackSeptets data = Inr userData" "kind \<noteq> KindGSM7 \<Longrightarrow> userData = data"
  shows "series [singleSegment kind coding units data userData]"
    "segmentContent (singleSegment kind coding units data userData) = Inr data"
  using assms unpack_packed [of data 0 userData]
  by (auto simp: series_def singleSegment_def segmentContent_def PackSeptets_def)

section \<open>Segmentation of a text\<close>

text \<open>
  What the three functions that segment a text have in common: the segments are a series, their data are parts of
  the text at character boundaries, and the user data of each of them fits into \<open>limit\<close> octets.
\<close>

definition segmentation :: "gostring \<Rightarrow> nat \<Rightarrow> Segment list \<Rightarrow> bool" where
  "segmentation t limit segs \<longleftrightarrow> series segs \<and>
     decodeKind (seg_Kind (hd segs)) (concat (map seg_Data segs)) = Inr t \<and>
     textParts (seg_Kind (hd segs)) t (map seg_Data segs) \<and>
     (\<forall>seg \<in> set segs. seg_Kind seg = seg_Kind (hd segs) \<and> length (seg_UserData seg) \<le> limit)"

lemma singleSegment_Data: "seg_Data (singleSegment kind coding units data userData) = data"
  by (simp add: singleSegment_def)

lemma segmentation_single:
  assumes "decodeKind kind data = Inr t" "length userData \<le> limit"
  shows "segmentation t limit [singleSegment kind coding units data userData]"
  using assms by (auto simp: segmentation_def series_def singleSegment_def)

lemma segmentation_parts:
  assumes "series segs" "map seg_Data segs = chunks" "\<forall>seg \<in> set segs. seg_Kind seg = kind \<and> length (seg_UserData seg) \<le> limit"
    "partsOf n data chunks" "decodeKind kind data = Inr t" "textParts kind t chunks"
  shows "segmentation t limit segs"
proof -
  have "seg_Kind (hd segs) = kind" using assms(1,3) by (simp add: series_def)
  then show ?thesis using assms by (simp add: segmentation_def partsOf_def)
qed

lemma splitFixedUnits_parts:
  assumes "0 < n" "DecodeUCS2 data = Inr t"
  shows "partsOf (2 * n) data (splitFixedUnits data 2 n)" "textParts KindUCS2 t (splitFixedUnits data 2 n)"
proof -
  show p: "partsOf (2 * n) data (splitFixedUnits data 2 n)"
    using assms(1) splitBytes_parts [of "2 * n" data] by (simp add: splitFixedUnits_def)
  have "even (length data)" using assms(2) by (auto simp: DecodeUCS2_def split: if_splits)
  then have "\<forall>c \<in> set (splitFixedUnits data 2 n). even (length c)"
    using splitBytes_even [of "2 * n" data] assms(1) by (simp add: splitFixedUnits_def)
  then show "textParts KindUCS2 t (splitFixedUnits data 2 n)"
    using ucs2_textParts p assms(2) by (simp add: partsOf_def)
qed

lemma partsOf_length: "\<lbrakk>partsOf n data chunks; map seg_Data segs = chunks; seg \<in> set segs\<rbrakk> \<Longrightarrow> length (seg_Data seg) \<le> n"
  by (auto simp: partsOf_def)

lemma PackSeptets_length: "PackSeptets data = Inr packed \<Longrightarrow> length packed = (7 * length data + 7) div 8"
  using unpack_packed(2) [of data 0 packed] by (simp add: PackSeptets_def)

definition udhOk :: "Segment \<Rightarrow> bool" where
  "udhOk seg \<longleftrightarrow> ParseConcatUDH (seg_UserData seg) = Inr (seg_Reference seg, seg_Total seg, seg_Sequence seg, length (seg_UDH seg))"

text \<open>The split of an encoded text that all three functions make, with their limits.\<close>

definition splitText :: "EncodedText \<Rightarrow> nat \<Rightarrow> nat \<Rightarrow> goerr + bytes list" where
  "splitText e septets units =
     (case et_Kind e of
        KindGSM7 \<Rightarrow> Inr (splitGSM7 (et_Data e) septets)
      | KindUCS2 \<Rightarrow> Inr (splitFixedUnits (et_Data e) 2 units)
      | _ \<Rightarrow> splitUTF16 (et_Data e) units)"

definition partLimit :: "EncodedText \<Rightarrow> nat \<Rightarrow> nat \<Rightarrow> nat" where
  "partLimit e septets units = (if et_Kind e = KindGSM7 then septets else 2 * units)"

lemma EncodeText_ok:
  assumes "EncodeText t allow = Inr e"
  shows "decodeKind (et_Kind e) (et_Data e) = Inr t" "length (et_Data e) = partLimit e (et_Units e) (et_Units e)"
    "et_Kind e = KindGSM7 \<or> et_Kind e = KindUCS2 \<or> et_Kind e = KindUTF16BE"
  using assms by (cases rule: EncodeText_forms; simp add: decodeKind_def partLimit_def)+

lemma splitText_parts:
  assumes "EncodeText t allow = Inr e" "2 \<le> septets" "2 \<le> units"
  obtains chunks where "splitText e septets units = Inr chunks" "partsOf (partLimit e septets units) (et_Data e) chunks"
    "textParts (et_Kind e) t chunks"
  using assms(1)
proof (cases rule: EncodeText_forms)
  case gsm7
  then show thesis using that splitGSM7_parts [OF assms(2) gsm7(2)] by (simp add: splitText_def partLimit_def)
next
  case ucs2
  then show thesis using that splitFixedUnits_parts [of units "et_Data e" t] assms(3) by (simp add: splitText_def partLimit_def)
next
  case utf16
  obtain chunks where "splitUTF16 (et_Data e) units = Inr chunks" "partsOf (2 * units) (et_Data e) chunks"
    "textParts KindUTF16BE t chunks" using splitUTF16_parts [OF assms(3) utf16(2)] .
  then show thesis using that [of chunks] utf16(1) by (simp add: splitText_def partLimit_def)
qed

lemma SegmentTextUDH_alt:
  assumes "EncodeText t allow = Inr e"
  shows "SegmentTextUDH t allow reference =
    (if et_Units e \<le> partLimit e 160 35
     then bindE (if et_Kind e = KindGSM7 then PackSeptets (et_Data e) else Inr (et_Data e)) (\<lambda>u.
       Inr [singleSegment (et_Kind e) (et_DataCoding e) (et_Units e) (et_Data e) u])
     else bindE (splitText e 153 67) (\<lambda>chunks. makeUDHSegments chunks (et_Kind e) (et_DataCoding e) reference))"
  using EncodeText_ok(3) [OF assms] assms by (auto simp: SegmentTextUDH_def splitText_def partLimit_def)

lemma SegmentTextSAR_alt:
  assumes "EncodeText t allow = Inr e"
  shows "SegmentTextSAR t allow reference = bindE (splitText e 160 70) (\<lambda>chunks.
    if length chunks \<le> 1 then SegmentTextUDH t allow (ucast reference)
    else if length chunks > 255 then Inl ErrInvalidSegments
    else sarSegments (et_Kind e) (et_DataCoding e) reference (of_nat (length chunks)) 0 chunks)"
  using EncodeText_ok(3) [OF assms] assms by (auto simp: SegmentTextSAR_def splitText_def)

lemma SegmentTextUDH16Unpacked_alt:
  assumes "EncodeText t allow = Inr e"
  shows "SegmentTextUDH16Unpacked t allow reference =
    (if et_Units e \<le> partLimit e 160 35
     then Inr [singleSegment (et_Kind e) (et_DataCoding e) (et_Units e) (et_Data e) (et_Data e)]
     else bindE (splitText e 152 66) (\<lambda>chunks. makeUDH16UnpackedSegments chunks (et_Kind e) (et_DataCoding e) reference))"
  using EncodeText_ok(3) [OF assms] assms
  by (auto simp: SegmentTextUDH16Unpacked_def splitText_def partLimit_def bindE_assoc)

lemma SegmentTextUDH_segmentation:
  assumes "SegmentTextUDH t allow reference = Inr segs"
  shows "segmentation t 140 segs \<and> (\<forall>seg \<in> set segs. segmentContent seg = Inr (seg_Data seg)) \<and>
    (1 < length segs \<longrightarrow> (\<forall>seg \<in> set segs. udhOk seg))"
proof -
  from assms obtain e where e: "EncodeText t allow = Inr e" by (auto simp: SegmentTextUDH_def bindE_eq_Inr)
  note ok = EncodeText_ok [OF e]
  show ?thesis
  proof (cases "et_Units e \<le> partLimit e 160 35")
    case True
    then obtain u where u: "(if et_Kind e = KindGSM7 then PackSeptets (et_Data e) else Inr (et_Data e)) = Inr u"
      "segs = [singleSegment (et_Kind e) (et_DataCoding e) (et_Units e) (et_Data e) u]"
      using assms unfolding SegmentTextUDH_alt [OF e] by (auto simp: bindE_eq_Inr)
    have "length u \<le> 140" using u(1) True ok(2) PackSeptets_length by (auto simp: partLimit_def split: if_splits)
    then have "segmentation t 140 segs" unfolding u(2) by (rule segmentation_single [OF ok(1)])
    moreover have "segmentContent (hd segs) = Inr (seg_Data (hd segs))"
      unfolding u(2) list.sel singleSegment_Data
      by (rule singleSegment_ok(2)) (use u(1) ok(2) in \<open>simp_all add: partLimit_def\<close>)
    ultimately show ?thesis using u(2) by simp
  next
    case False
    obtain chunks where c: "splitText e 153 67 = Inr chunks" "partsOf (partLimit e 153 67) (et_Data e) chunks"
      "textParts (et_Kind e) t chunks" using splitText_parts [OF e, of 153 67] by auto
    then have "makeUDHSegments chunks (et_Kind e) (et_DataCoding e) reference = Inr segs"
      using assms False unfolding SegmentTextUDH_alt [OF e] by simp
    note f = makeUDHSegments_forms [OF this]
    have "length (seg_UserData seg) \<le> 140" if s: "seg \<in> set segs" for seg
      using f(3) s partsOf_length [OF c(2) f(2) s] by (auto simp: partLimit_def split: if_splits)
    then show ?thesis using segmentation_parts [OF f(1,2) _ c(2) ok(1) c(3), of 140] f(3) by (auto simp: udhOk_def)
  qed
qed

lemma SegmentTextSAR_segmentation:
  assumes "SegmentTextSAR t allow reference = Inr segs"
  shows "segmentation t 140 segs \<and> (\<forall>seg \<in> set segs. segmentContent seg = Inr (seg_Data seg)) \<and>
    (1 < length segs \<longrightarrow> (\<forall>seg \<in> set segs. sarOk seg))"
proof -
  from assms obtain e where e: "EncodeText t allow = Inr e" by (auto simp: SegmentTextSAR_def bindE_eq_Inr)
  note ok = EncodeText_ok [OF e]
  obtain chunks where c: "splitText e 160 70 = Inr chunks" "partsOf (partLimit e 160 70) (et_Data e) chunks"
    "textParts (et_Kind e) t chunks" using splitText_parts [OF e, of 160 70] by auto
  show ?thesis
  proof (cases "length chunks \<le> 1")
    case True
    have "length (et_Data e) \<le> partLimit e 160 70" using True c(2) by (cases chunks) (auto simp: partsOf_def)
    then have "et_Units e \<le> partLimit e 160 35" using ok(2) by (simp add: partLimit_def split: if_splits)
    moreover have "SegmentTextUDH t allow (ucast reference) = Inr segs" using assms True c(1) by (simp add: SegmentTextSAR_alt [OF e])
    ultimately show ?thesis using SegmentTextUDH_segmentation [of t allow "ucast reference" segs]
      by (auto simp: SegmentTextUDH_alt [OF e] bindE_eq_Inr)
  next
    case False
    then have "sarSegments (et_Kind e) (et_DataCoding e) reference (of_nat (length chunks)) 0 chunks = Inr segs"
      "chunks \<noteq> []" "length chunks \<le> 255" using assms c(1) by (auto simp: SegmentTextSAR_alt [OF e] split: if_splits)
    note f = sarSegments_ok [OF this]
    have "length (seg_UserData seg) \<le> 140" if s: "seg \<in> set segs" for seg
      using f(3) s partsOf_length [OF c(2) f(2) s] by (auto simp: partLimit_def split: if_splits)
    then show ?thesis using segmentation_parts [OF f(1,2) _ c(2) ok(1) c(3), of 140] f(3) by auto
  qed
qed

lemma SegmentTextUDH16Unpacked_segmentation:
  assumes "SegmentTextUDH16Unpacked t allow reference = Inr segs"
  shows "segmentation t 160 segs \<and> (\<forall>seg \<in> set segs. seg_UserData seg = seg_UDH seg @ seg_Data seg) \<and>
    (\<forall>seg \<in> set segs. length (seg_UserData seg) \<le> (if seg_Kind seg = KindGSM7 then 160 else 140)) \<and>
    (1 < length segs \<longrightarrow> (\<forall>seg \<in> set segs. udhOk seg))"
proof -
  from assms obtain e where e: "EncodeText t allow = Inr e" by (auto simp: SegmentTextUDH16Unpacked_def bindE_eq_Inr)
  note ok = EncodeText_ok [OF e]
  show ?thesis
  proof (cases "et_Units e \<le> partLimit e 160 35")
    case True
    then have "segs = [singleSegment (et_Kind e) (et_DataCoding e) (et_Units e) (et_Data e) (et_Data e)]" "length (et_Data e) \<le> (if et_Kind e = KindGSM7 then 160 else 140)"
      using assms ok(2) unfolding SegmentTextUDH16Unpacked_alt [OF e] by (auto simp: partLimit_def split: if_splits)
    then show ?thesis using segmentation_single [OF ok(1), of "et_Data e" 160] by (auto simp: singleSegment_def split: if_splits)
  next
    case False
    obtain chunks where c: "splitText e 152 66 = Inr chunks" "partsOf (partLimit e 152 66) (et_Data e) chunks"
      "textParts (et_Kind e) t chunks" using splitText_parts [OF e, of 152 66] by auto
    then have "makeUDH16UnpackedSegments chunks (et_Kind e) (et_DataCoding e) reference = Inr segs"
      using assms False unfolding SegmentTextUDH16Unpacked_alt [OF e] by simp
    note f = makeUDH16UnpackedSegments_forms [OF this]
    have len: "length (seg_UserData seg) \<le> (if seg_Kind seg = KindGSM7 then 160 else 140)" if s: "seg \<in> set segs" for seg
      using f(3) s partsOf_length [OF c(2) f(2) s] by (auto simp: partLimit_def split: if_splits)
    then have "length (seg_UserData seg) \<le> 160" if s: "seg \<in> set segs" for seg using s by (fastforce split: if_splits)
    then show ?thesis using segmentation_parts [OF f(1,2) _ c(2) ok(1) c(3), of 160] f(3) len by (auto simp: udhOk_def)
  qed
qed

section \<open>How many parts a text needs\<close>

lemma splitGSM7_count: "\<lbrakk>2 \<le> limit; length data \<le> k * (limit - 1)\<rbrakk> \<Longrightarrow> length (splitGSM7 data limit) \<le> k"
proof (induction data limit arbitrary: k rule: splitGSM7.induct)
  case (1 data limit)
  show ?case
  proof (cases "data = []")
    case True
    then show ?thesis by (subst splitGSM7.simps) simp
  next
    case False
    define m where "m = min (length data) limit"
    define n where "n = (if m < length data \<and> data ! (m - 1) = 0x1b then m - 1 else m)"
    have split: "splitGSM7 data limit = take n data # splitGSM7 (drop n data) limit"
      unfolding splitGSM7.simps [of data limit] Let_def m_def [symmetric] n_def [symmetric]
      using False "1.prems"(1) by simp
    obtain k' where k: "k = Suc k'" using False "1.prems"(2) by (cases k) auto
    have "length (drop n data) \<le> k' * (limit - 1)"
      using "1.prems"(2) unfolding k by (auto simp: n_def m_def min_def split: if_splits)
    then show ?thesis using "1.IH" [OF _ m_def n_def "1.prems"(1)] False "1.prems"(1) unfolding split k by auto
  qed
qed

lemma splitBytes_count: "\<lbrakk>0 < limit; length data \<le> k * limit\<rbrakk> \<Longrightarrow> length (splitBytes data limit) \<le> k"
proof (induction data limit arbitrary: k rule: splitBytes.induct)
  case (1 data limit)
  show ?case
  proof (cases "data = []")
    case True
    then show ?thesis by (subst splitBytes.simps) simp
  next
    case False
    define n where "n = min (length data) limit"
    have split: "splitBytes data limit = take n data # splitBytes (drop n data) limit"
      unfolding splitBytes.simps [of data limit] Let_def n_def [symmetric] using False "1.prems"(1) by simp
    obtain k' where k: "k = Suc k'" using False "1.prems"(2) by (cases k) auto
    have "length (drop n data) \<le> k' * limit" using "1.prems"(2) unfolding k n_def by (auto simp: min_def)
    then show ?thesis using "1.IH" [OF _ n_def "1.prems"(1)] False "1.prems"(1) unfolding split k by auto
  qed
qed

lemma splitUTF16Loop_count:
  assumes "2 \<le> limit"
  shows "\<lbrakk>ValidString t; units \<le> limit; 0 < k; units + length (utf16Encode t) \<le> k * (limit - 1);
    splitUTF16Loop limit (unitBytes (utf16Encode t)) (parts, cur, units) = Inr chunks\<rbrakk> \<Longrightarrow> length chunks \<le> length parts + k"
proof (induction t arbitrary: cur units parts k)
  case (Cons r rs)
  let ?w = "length (runeUnits r)" and ?o = "unitBytes (runeUnits r)" and ?rest = "unitBytes (utf16Encode rs)"
  have r: "scalarValue r" "ValidString rs" using Cons.prems(1) by (simp_all add: ValidString_def)
  have data: "utf16Encode (r # rs) = runeUnits r @ utf16Encode rs"
    using utf16Encode_append [of "[r]" rs] by (simp add: runeUnits_def)
  have w: "?w \<le> limit" "0 < ?w" "?w \<le> 2" using runeUnits_width [of r] assms by auto
  have loop: "bindE (putUnits limit ?w ?o (parts, cur, units)) (splitUTF16Loop limit ?rest) = Inr chunks"
    using Cons.prems(5) splitUTF16Loop_rune [OF r(1)] unfolding data by simp
  have bound: "units + (?w + length (utf16Encode rs)) \<le> k * (limit - 1)" using Cons.prems(4) unfolding data by simp
  show ?case
  proof (cases "units > 0 \<and> units + ?w > limit")
    case True
    then have next_: "splitUTF16Loop limit ?rest (parts @ [cur], ?o, ?w) = Inr chunks"
      using loop w by (simp add: putUnits_def)
    obtain k' where k: "k = Suc k'" using Cons.prems(3) by (cases k) auto
    have le: "?w + length (utf16Encode rs) \<le> k' * (limit - 1)" 
    proof -
      have "limit - 1 \<le> units" using True w(3) by arith
      moreover have "k * (limit - 1) = (limit - 1) + k' * (limit - 1)" unfolding k by simp
      ultimately show ?thesis using bound by linarith
    qed
    then have "0 < k'" using w(2) by (cases k') auto
    then show ?thesis using Cons.IH [OF r(2) w(1) _ le next_] k by simp
  next
    case False
    then have "putUnits limit ?w ?o (parts, cur, units) = Inr (parts, cur @ ?o, units + ?w)"
      using w by (simp add: putUnits_def)
    then have next_: "splitUTF16Loop limit ?rest (parts, cur @ ?o, units + ?w) = Inr chunks" using loop by simp
    moreover have "units + ?w \<le> limit" using False w by auto
    ultimately show ?thesis using Cons.IH [OF r(2) _ Cons.prems(3) _ next_] bound by simp
  qed
qed auto

lemma splitText_count:
  assumes "EncodeText t allow = Inr e" "2 \<le> septets" "2 \<le> units" "splitText e septets units = Inr chunks"
    and "et_Units e \<le> k * (if et_Kind e = KindGSM7 then septets - 1 else units - 1)"
  shows "length chunks \<le> k"
  using assms(1)
proof (cases rule: EncodeText_forms)
  case gsm7
  then show ?thesis using splitGSM7_count [OF assms(2), of "et_Data e" k] assms(4,5) by (simp add: splitText_def)
next
  case ucs2
  have "et_Units e \<le> k * units" using assms(5) ucs2(1) by (simp add: order_trans [OF _ mult_le_mono2 [OF diff_le_self]])
  then have "length (et_Data e) \<le> k * (2 * units)" using ucs2(3) by simp
  then show ?thesis using splitBytes_count [of "2 * units" "et_Data e" k] assms(3,4) ucs2(1)
    by (simp add: splitText_def splitFixedUnits_def)
next
  case utf16
  have t: "ValidString t" "et_Data e = unitBytes (utf16Encode t)"
    using utf16(2) unfolding EncodeUTF16BE_iff [symmetric] by (auto simp: EncodeUTF16BE_def split: if_splits)
  show ?thesis
  proof (cases "et_Data e = []")
    case True
    then show ?thesis using assms(4) utf16(1) by (simp add: splitText_def splitUTF16_def)
  next
    case False
    have n: "et_Units e = length (utf16Encode t)" using utf16(3) t(2) by simp
    then have "0 < et_Units e" using False t(2) by (auto simp: unitBytes_eq_Nil)
    then have "0 < k" using assms(5) by (cases k) auto
    then show ?thesis using splitUTF16Loop_count [OF assms(3) t(1), of 0 k "[]" "[]" chunks] assms(4,5) utf16(1) n t(2) False
      by (simp add: splitText_def splitUTF16_def)
  qed
qed

lemma gsm7_septets: "DecodeGSM7 d = Inr t \<Longrightarrow> \<forall>s \<in> set d. s \<le> 0x7f"
proof (induction d arbitrary: t rule: DecodeGSM7.induct)
  case (2 code rest)
  show ?case
  proof (cases "code = 0x1b")
    case True
    with "2.prems" obtain c rest' r t' where
      c: "rest = c # rest'" "gsmExtension c = Some r" "DecodeGSM7 rest' = Inr t'"
      by (auto simp: bindE_eq_Inr split: option.splits list.splits)
    have "c \<le> 0x7f" using c(2) by (auto simp: gsmExtension_Some gsmExtensionTable_def)
    moreover have "\<forall>s \<in> set rest'. s \<le> 0x7f" using "2.IH"(1) [of c rest' r t'] True c by auto
    ultimately show ?thesis using True c(1) by simp
  next
    case False
    then obtain t' where "\<not> code > 0x7f" "gsmDefault ! unat code \<noteq> 0" "DecodeGSM7 rest = Inr t'"
      using "2.prems" by (auto simp: bindE_eq_Inr Let_def split: if_splits)
    then show ?thesis using "2.IH"(2) [of "gsmDefault ! unat code" t'] False by (auto simp: not_less)
  qed
qed simp

lemma pack_text:
  assumes "DecodeGSM7 d = Inr t" "f \<le> 6"
  shows "\<exists>out. PackSeptetsWithFill d f = Inr out"
  using gsm7_septets [OF assms(1)] assms(2) by (simp add: PackSeptetsWithFill_success)

lemma udhSegments_succeeds:
  "(kind = KindGSM7 \<Longrightarrow> \<forall>c \<in> set chunks. \<exists>x. DecodeGSM7 c = Inr x) \<Longrightarrow>
     \<exists>segs. udhSegments kind coding reference tot i chunks = Inr segs"
proof (induction chunks arbitrary: i)
  case (Cons c cs)
  then obtain segs where s: "udhSegments kind coding reference tot (i + 1) cs = Inr segs" by fastforce
  have "kind = KindGSM7 \<Longrightarrow> \<exists>out. PackSeptetsWithFill c 1 = Inr out" using Cons.prems pack_text [of c _ 1] by fastforce
  then show ?case using s by (cases "kind = KindGSM7") (auto simp: Let_def)
qed simp

lemma sarSegments_succeeds:
  "(kind = KindGSM7 \<Longrightarrow> \<forall>c \<in> set chunks. \<exists>x. DecodeGSM7 c = Inr x) \<Longrightarrow>
     \<exists>segs. sarSegments kind coding reference tot i chunks = Inr segs"
proof (induction chunks arbitrary: i)
  case (Cons c cs)
  then obtain segs where s: "sarSegments kind coding reference tot (i + 1) cs = Inr segs" by fastforce
  have "kind = KindGSM7 \<Longrightarrow> \<exists>out. PackSeptets c = Inr out"
    using Cons.prems pack_text [of c _ 0] unfolding PackSeptets_def by fastforce
  then show ?case using s by (cases "kind = KindGSM7") (auto simp: Let_def)
qed simp

lemma textParts_gsm7: "textParts KindGSM7 t chunks \<Longrightarrow> \<forall>c \<in> set chunks. \<exists>x. DecodeGSM7 c = Inr x"
  by (auto simp: textParts_def decodeKind_def list_all2_conv_all_nth in_set_conv_nth)

text \<open>When segmentation succeeds, exactly, and with how many segments.\<close>

lemma single_limit: "(et_Units e \<le> partLimit e 160 35) = (et_Units e \<le> (if et_Kind e = KindGSM7 then 160 else 70))"
  by (simp add: partLimit_def)

lemma splitText_facts:
  assumes "EncodeText t allow = Inr e" "splitText e septets units = Inr chunks" "2 \<le> septets" "2 \<le> units"
  shows "chunks = [] \<longleftrightarrow> et_Units e = 0" "et_Kind e = KindGSM7 \<Longrightarrow> \<forall>c \<in> set chunks. \<exists>x. DecodeGSM7 c = Inr x"
    "length chunks \<le> 1 \<Longrightarrow> et_Units e \<le> (if et_Kind e = KindGSM7 then septets else units)"
proof -
  have c: "partsOf (partLimit e septets units) (et_Data e) chunks" "textParts (et_Kind e) t chunks"
    using splitText_parts [OF assms(1,3,4)] assms(2) by (metis sum.inject(2))+
  have "chunks = [] \<longleftrightarrow> et_Data e = []" using c(1) by (auto simp: partsOf_def)
  then show "chunks = [] \<longleftrightarrow> et_Units e = 0"
    using EncodeText_ok(2) [OF assms(1)] by (auto simp: partLimit_def split: if_splits)
  show "\<forall>c \<in> set chunks. \<exists>x. DecodeGSM7 c = Inr x" if "et_Kind e = KindGSM7" using c(2) that by (intro textParts_gsm7 [of t]) simp
  have "length chunks \<le> 1 \<Longrightarrow> length (et_Data e) \<le> partLimit e septets units"
    using c(1) by (cases chunks) (auto simp: partsOf_def)
  then show "length chunks \<le> 1 \<Longrightarrow> et_Units e \<le> (if et_Kind e = KindGSM7 then septets else units)"
    using EncodeText_ok(2) [OF assms(1)] by (simp add: partLimit_def split: if_splits)
qed

lemma SegmentTextUDH_one:
  assumes e: "EncodeText t allow = Inr e" and "et_Units e \<le> (if et_Kind e = KindGSM7 then 160 else 70)"
  shows "\<exists>segs. SegmentTextUDH t allow ref8 = Inr segs \<and> length segs = 1"
proof -
  have "et_Kind e = KindGSM7 \<Longrightarrow> \<exists>out. PackSeptets (et_Data e) = Inr out"
    using pack_text [of "et_Data e" t 0] EncodeText_ok(1) [OF e] by (simp add: decodeKind_def PackSeptets_def)
  then show ?thesis using assms(2) single_limit [of e] by (auto simp: SegmentTextUDH_alt [OF e])
qed

lemma SegmentTextUDH_exact:
  assumes e: "EncodeText t allow = Inr e" and c: "splitText e 153 67 = Inr chunks"
  shows "case SegmentTextUDH t allow ref8 of
      Inr segs \<Rightarrow> if et_Units e \<le> (if et_Kind e = KindGSM7 then 160 else 70) then length segs = 1 else length segs = length chunks \<and> length chunks \<le> 255
    | Inl err \<Rightarrow> \<not> et_Units e \<le> (if et_Kind e = KindGSM7 then 160 else 70) \<and> 255 < length chunks"
proof (cases "et_Units e \<le> (if et_Kind e = KindGSM7 then 160 else 70)")
  case True
  then show ?thesis using SegmentTextUDH_one [OF e True, of ref8] by auto
next
  case False
  note f = splitText_facts [OF e c]
  have eq: "SegmentTextUDH t allow ref8 = makeUDHSegments chunks (et_Kind e) (et_DataCoding e) ref8"
    using False c by (simp add: SegmentTextUDH_alt [OF e] single_limit)
  have ne: "chunks \<noteq> []" using f(1) False by auto
  show ?thesis
  proof (cases "length chunks \<le> 255")
    case True
    obtain segs where s: "udhSegments (et_Kind e) (et_DataCoding e) ref8 (of_nat (length chunks)) 0 chunks = Inr segs"
      using udhSegments_succeeds [of "et_Kind e" chunks "et_DataCoding e" ref8 "of_nat (length chunks)" 0] f(2) by auto
    then show ?thesis unfolding eq using True False ne udhSegments_forms [OF s] by (auto simp: makeUDHSegments_def)
  next
    case no: False
    then show ?thesis unfolding eq using False by (simp add: makeUDHSegments_def)
  qed
qed

lemma SegmentTextUDH16Unpacked_exact:
  assumes e: "EncodeText t allow = Inr e" and c: "splitText e 152 66 = Inr chunks"
  shows "case SegmentTextUDH16Unpacked t allow ref16 of
      Inr segs \<Rightarrow> if et_Units e \<le> (if et_Kind e = KindGSM7 then 160 else 70) then length segs = 1 else length segs = length chunks \<and> length chunks \<le> 255
    | Inl err \<Rightarrow> \<not> et_Units e \<le> (if et_Kind e = KindGSM7 then 160 else 70) \<and> 255 < length chunks"
proof (cases "et_Units e \<le> (if et_Kind e = KindGSM7 then 160 else 70)")
  case True
  then show ?thesis using single_limit [of e] by (simp add: SegmentTextUDH16Unpacked_alt [OF e])
next
  case False
  have eq: "SegmentTextUDH16Unpacked t allow ref16 = makeUDH16UnpackedSegments chunks (et_Kind e) (et_DataCoding e) ref16"
    using False c by (simp add: SegmentTextUDH16Unpacked_alt [OF e] single_limit)
  have "chunks \<noteq> []" using splitText_facts(1) [OF e c] False by auto
  then show ?thesis unfolding eq using False by (simp add: makeUDH16UnpackedSegments_def Let_def)
qed

lemma SegmentTextSAR_exact:
  assumes e: "EncodeText t allow = Inr e" and c: "splitText e 160 70 = Inr chunks"
  shows "case SegmentTextSAR t allow ref16 of
      Inr segs \<Rightarrow> length segs = max 1 (length chunks) \<and> length chunks \<le> 255 | Inl err \<Rightarrow> 255 < length chunks"
proof -
  note f = splitText_facts [OF e c]
  show ?thesis
  proof (cases "length chunks \<le> 1")
    case True
    have "SegmentTextSAR t allow ref16 = SegmentTextUDH t allow (ucast ref16)" using True c by (simp add: SegmentTextSAR_alt [OF e])
    then show ?thesis using SegmentTextUDH_one [OF e, of "ucast ref16"] f(3) True by auto
  next
    case False
    show ?thesis
    proof (cases "length chunks \<le> 255")
      case True
      obtain segs where s: "sarSegments (et_Kind e) (et_DataCoding e) ref16 (of_nat (length chunks)) 0 chunks = Inr segs"
        using sarSegments_succeeds [of "et_Kind e" chunks "et_DataCoding e" ref16 "of_nat (length chunks)" 0] f(2) by auto
      then show ?thesis using True False c sarSegments_forms [OF s] by (auto simp: SegmentTextSAR_alt [OF e])
    next
      case no: False
      then show ?thesis using False c by (simp add: SegmentTextSAR_alt [OF e])
    qed
  qed
qed

section \<open>Properties of segmentation\<close>

text \<open>
  C28: A text that was segmented, in any of the three ways, is decoded again from its segments, in whatever order
  they arrive.
\<close>

theorem segmented_text_decodes:
  assumes "SegmentTextUDH t allow ref8 = Inr segs \<or> SegmentTextSAR t allow ref16 = Inr segs \<or>
      SegmentTextUDH16Unpacked t allow ref16 = Inr segs"
    and "mset parts = mset segs"
  shows "DecodeTextSegments parts = Inr t"
proof -
  obtain limit where "segmentation t limit segs"
    using assms(1) SegmentTextUDH_segmentation SegmentTextSAR_segmentation SegmentTextUDH16Unpacked_segmentation by blast
  then show ?thesis using DecodeTextSegments_series [OF _ assms(2)] by (simp add: segmentation_def)
qed

theorem segmented_text_decodes_witness:
  "\<exists>a b. SegmentTextUDH16Unpacked (replicate 71 0x416) False 7 = Inr [a, b] \<and>
     DecodeTextSegments [b, a] = Inr (replicate 71 0x416)"
proof -
  have "case SegmentTextUDH16Unpacked (replicate 71 0x416) False 7 of Inr [a, b] \<Rightarrow> True | _ \<Rightarrow> False" by code_simp
  then obtain a b where ab: "SegmentTextUDH16Unpacked (replicate 71 0x416) False 7 = Inr [a, b]"
    by (auto split: sum.splits list.splits)
  then show ?thesis using segmented_text_decodes [of "replicate 71 0x416" False 0 "[a, b]" 7 "[b, a]"] by auto
qed

text \<open>
  C29: The segments of a text respect what a short message can carry: there are between 1 and 255 of them, numbered
  from 1 with the same reference and total, and no character is split between two of them. The user data of each is at most 140 octets
  in the variants with an 8-bit reference and with SAR parameters; in the variant with a 16-bit reference and unpacked septets it is at
  most 160 octets for the 7-bit alphabet, one octet for each septet, and at most 140 for the others. What a receiver
  finds behind the header is the data of the segment. When there is more than one segment, the concatenation header, or the
  SAR parameters, of each carry its reference, total and number.
\<close>

theorem segments_fit:
  "(SegmentTextUDH t allow ref8 = Inr segs \<longrightarrow> series segs \<and> textParts (seg_Kind (hd segs)) t (map seg_Data segs) \<and>
      (\<forall>seg \<in> set segs. length (seg_UserData seg) \<le> 140 \<and> segmentContent seg = Inr (seg_Data seg) \<and>
         (1 < length segs \<longrightarrow> ParseConcatUDH (seg_UserData seg) =
            Inr (seg_Reference seg, seg_Total seg, seg_Sequence seg, length (seg_UDH seg))))) \<and>
   (SegmentTextSAR t allow ref16 = Inr segs \<longrightarrow> series segs \<and> textParts (seg_Kind (hd segs)) t (map seg_Data segs) \<and>
      (\<forall>seg \<in> set segs. length (seg_UserData seg) \<le> 140 \<and> segmentContent seg = Inr (seg_Data seg) \<and>
         (1 < length segs \<longrightarrow> ParseSAR (seg_Optional seg) = Inr (seg_Reference seg, seg_Total seg, seg_Sequence seg)))) \<and>
   (SegmentTextUDH16Unpacked t allow ref16 = Inr segs \<longrightarrow> series segs \<and> textParts (seg_Kind (hd segs)) t (map seg_Data segs) \<and>
      (\<forall>seg \<in> set segs. length (seg_UserData seg) \<le> (if seg_Kind seg = KindGSM7 then 160 else 140) \<and> seg_UserData seg = seg_UDH seg @ seg_Data seg \<and>
         (1 < length segs \<longrightarrow> ParseConcatUDH (seg_UserData seg) =
            Inr (seg_Reference seg, seg_Total seg, seg_Sequence seg, length (seg_UDH seg)))))"
  using SegmentTextUDH_segmentation [of t allow ref8 segs] SegmentTextSAR_segmentation [of t allow ref16 segs]
    SegmentTextUDH16Unpacked_segmentation [of t allow ref16 segs]
  unfolding segmentation_def udhOk_def sarOk_def by blast

theorem segments_fit_witness:
  "\<exists>a b. SegmentTextUDH16Unpacked (replicate 71 0x416) False 7 = Inr [a, b] \<and> series [a, b] \<and>
     length (seg_UserData a) \<le> 160 \<and>
     ParseConcatUDH (seg_UserData b) = Inr (seg_Reference b, seg_Total b, seg_Sequence b, length (seg_UDH b))"
proof -
  have "case SegmentTextUDH16Unpacked (replicate 71 0x416) False 7 of Inr [a, b] \<Rightarrow> True | _ \<Rightarrow> False" by code_simp
  then obtain a b where ab: "SegmentTextUDH16Unpacked (replicate 71 0x416) False 7 = Inr [a, b]"
    by (auto split: sum.splits list.splits)
  then show ?thesis using segments_fit [of "replicate 71 0x416" False 0 "[a, b]" 7] by (auto split: if_splits)
qed

text \<open>
  C30: Segmentation of a text that can be encoded refuses it exactly when it has too many parts. With a concatenation header, a text of at most 160
  septets or 70 code units gives one segment; a longer one is cut into parts of at most 153 septets or 67 units
  (152 and 66 in the 16-bit variant), and segmentation succeeds if and only if there are at most 255 of them, with one segment for each.
  With SAR parameters the parts hold 160 septets or 70 units, and it succeeds if and only if there are at most 255 of
  them, again with one segment for each, and one for the empty text. In numbers, 255 parts of one unit less than a part can hold are always enough
  (one unit may be lost at a boundary to keep a character whole).
\<close>

theorem segmentation_succeeds:
  assumes "EncodeText t allow = Inr e"
  shows "\<exists>udh sar udh16. splitText e 153 67 = Inr udh \<and> splitText e 160 70 = Inr sar \<and> splitText e 152 66 = Inr udh16 \<and>
    (let single = et_Units e \<le> (if et_Kind e = KindGSM7 then 160 else 70) in
     (case SegmentTextUDH t allow ref8 of
        Inr segs \<Rightarrow> if single then length segs = 1 else length segs = length udh \<and> length udh \<le> 255
      | Inl err \<Rightarrow> \<not> single \<and> 255 < length udh) \<and>
     (case SegmentTextSAR t allow ref16 of
        Inr segs \<Rightarrow> length segs = max 1 (length sar) \<and> length sar \<le> 255
      | Inl err \<Rightarrow> 255 < length sar) \<and>
     (case SegmentTextUDH16Unpacked t allow ref16 of
        Inr segs \<Rightarrow> if single then length segs = 1 else length segs = length udh16 \<and> length udh16 \<le> 255
      | Inl err \<Rightarrow> \<not> single \<and> 255 < length udh16)) \<and>
    (et_Units e \<le> 255 * (if et_Kind e = KindGSM7 then 152 else 66) \<longrightarrow> length udh \<le> 255) \<and>
    (et_Units e \<le> 255 * (if et_Kind e = KindGSM7 then 159 else 69) \<longrightarrow> length sar \<le> 255) \<and>
    (et_Units e \<le> 255 * (if et_Kind e = KindGSM7 then 151 else 65) \<longrightarrow> length udh16 \<le> 255)"
proof -
  obtain udh where u: "splitText e 153 67 = Inr udh" using splitText_parts [OF assms, of 153 67] by auto
  obtain sar where s: "splitText e 160 70 = Inr sar" using splitText_parts [OF assms, of 160 70] by auto
  obtain udh16 where v: "splitText e 152 66 = Inr udh16" using splitText_parts [OF assms, of 152 66] by auto
  show ?thesis unfolding Let_def
    using u s v SegmentTextUDH_exact [OF assms u, of ref8] SegmentTextSAR_exact [OF assms s, of ref16]
      SegmentTextUDH16Unpacked_exact [OF assms v, of ref16]
      splitText_count [OF assms _ _ u, of 255] splitText_count [OF assms _ _ s, of 255] splitText_count [OF assms _ _ v, of 255]
    by (intro exI [of _ udh] exI [of _ sar] exI [of _ udh16] conjI) simp_all
qed

theorem segmentation_succeeds_witness:
  "\<exists>segs. SegmentTextUDH (replicate 71 0x416) False 7 = Inr segs \<and> length segs = 2"
proof -
  have "case EncodeText (replicate 71 0x416) False of
      Inr e \<Rightarrow> et_Kind e \<noteq> KindGSM7 \<and> et_Units e = 71 \<and> (case splitText e 153 67 of Inr [a, b] \<Rightarrow> True | _ \<Rightarrow> False)
    | _ \<Rightarrow> False" by code_simp
  then obtain e a b where e: "EncodeText (replicate 71 0x416) False = Inr e" "et_Kind e \<noteq> KindGSM7" "et_Units e = 71"
    "splitText e 153 67 = Inr [a, b]" by (auto split: sum.splits list.splits)
  from segmentation_succeeds [OF e(1), of 7 0] obtain udh where "splitText e 153 67 = Inr udh"
    and "case SegmentTextUDH (replicate 71 0x416) False 7 of
        Inr segs \<Rightarrow> if et_Units e \<le> (if et_Kind e = KindGSM7 then 160 else 70) then length segs = 1 else length segs = length udh \<and> length udh \<le> 255
      | Inl err \<Rightarrow> \<not> et_Units e \<le> (if et_Kind e = KindGSM7 then 160 else 70) \<and> 255 < length udh"
    unfolding Let_def by blast
  then show ?thesis using e(2-4) by (cases "SegmentTextUDH (replicate 71 0x416) False 7") auto
qed

text \<open>
  C31: Reassembly accepts exactly the complete sets of segments of one message, in any order: it succeeds if and only
  if the segments can be arranged as a series (same reference, kind and coding, total equal to their number, numbers
  1, 2, ..., at most 255), and then returns the data in that order.
\<close>

theorem reassembly_complete:
  "Reassemble parts = Inr d \<longleftrightarrow> (\<exists>segs. mset parts = mset segs \<and> series segs \<and> d = concat (map seg_Data segs))"
  by (rule Reassemble_iff)

lemma SegmentBinarySAR_forms:
  assumes "SegmentBinarySAR data reference = Inr segs" "1 < length (splitBytes data 140)"
  shows "series segs" "map seg_Data segs = splitBytes data 140" "\<forall>seg \<in> set segs. seg_UserData seg = seg_Data seg \<and> sarOk seg"
proof -
  let ?chunks = "splitBytes data 140"
  have n: "length ?chunks \<le> 255" using assms by (auto simp: SegmentBinarySAR_def Let_def split: if_splits)
  have len: "length segs = length ?chunks" and segs: "\<And>j. j < length ?chunks \<Longrightarrow> segs ! j =
      sarSegment KindBinary 4 reference (of_nat (length ?chunks)) j (?chunks ! j) (?chunks ! j) (length (?chunks ! j))"
    using assms by (auto simp: SegmentBinarySAR_def Let_def nth_enumerate_eq sarSegment_def split: if_splits)
  have "segs \<noteq> []" using len assms(2) by auto
  have "0 < length ?chunks" using assms(2) by linarith
  note first = segs [OF this]
  show "series segs" using n len \<open>segs \<noteq> []\<close> unfolding series_def hd_conv_nth [OF \<open>segs \<noteq> []\<close>]
    by (auto simp: first segs sarSegment_def)
  show "map seg_Data segs = ?chunks" using len by (auto intro!: nth_equalityI simp: segs sarSegment_def)
  show "\<forall>seg \<in> set segs. seg_UserData seg = seg_Data seg \<and> sarOk seg"
  proof
    fix seg
    assume "seg \<in> set segs"
    then obtain j where "j < length ?chunks" "seg = segs ! j" unfolding in_set_conv_nth len by blast
    then show "seg_UserData seg = seg_Data seg \<and> sarOk seg"
      using sarOk_numbered [OF _ n, of j seg] segs [of j] by (simp add: sarSegment_def)
  qed
qed

definition binarySegmentation :: "bytes \<Rightarrow> Segment list \<Rightarrow> bool" where
  "binarySegmentation data segs \<longleftrightarrow> series segs \<and> concat (map seg_Data segs) = data \<and>
     (\<forall>seg \<in> set segs. length (seg_UserData seg) \<le> 140)"

lemma binarySegmentation_single: "length data \<le> 140 \<Longrightarrow> binarySegmentation data [singleSegment KindBinary coding units data data]"
  using singleSegment_ok(1) [of KindBinary units data data coding] by (simp add: binarySegmentation_def singleSegment_def)

lemma binarySegmentation_parts:
  assumes "series segs" "map seg_Data segs = splitBytes data n" "0 < n"
    "\<And>seg. seg \<in> set segs \<Longrightarrow> length (seg_UserData seg) = k + length (seg_Data seg)" "k + n \<le> 140"
  shows "binarySegmentation data segs"
proof -
  note p = splitBytes_parts [OF assms(3), of data]
  have "length (seg_UserData seg) \<le> 140" if s: "seg \<in> set segs" for seg
    using partsOf_length [OF p assms(2) s] assms(4) [OF s] assms(5) by simp
  then show ?thesis using p assms(1,2) by (simp add: binarySegmentation_def partsOf_def)
qed

lemma SegmentBinaryUDH_segmentation: "SegmentBinaryUDH data reference = Inr segs \<Longrightarrow> binarySegmentation data segs"
proof (cases "length data \<le> 140")
  case False
  assume "SegmentBinaryUDH data reference = Inr segs"
  with False have m: "makeUDHSegments (splitBytes data 134) KindBinary 4 reference = Inr segs" by (simp add: SegmentBinaryUDH_def)
  show ?thesis using binarySegmentation_parts [OF makeUDHSegments_forms(1,2) [OF m], of 6] makeUDHSegments_forms(3) [OF m] by simp
qed (auto simp: SegmentBinaryUDH_def binarySegmentation_single)

lemma SegmentBinaryUDH16_segmentation: "SegmentBinaryUDH16 data reference = Inr segs \<Longrightarrow> binarySegmentation data segs"
proof (cases "length data \<le> 140")
  case False
  assume "SegmentBinaryUDH16 data reference = Inr segs"
  with False have m: "makeUDH16UnpackedSegments (splitBytes data 133) KindBinary 4 reference = Inr segs"
    by (simp add: SegmentBinaryUDH16_def)
  note f = makeUDH16UnpackedSegments_forms [OF m]
  have "length (seg_UserData seg) = 7 + length (seg_Data seg)" if "seg \<in> set segs" for seg
    using f(3) that by (metis length_append)
  then show ?thesis using binarySegmentation_parts [OF f(1,2), of 7] by simp
qed (auto simp: SegmentBinaryUDH16_def binarySegmentation_single)

lemma SegmentBinarySAR_segmentation: "SegmentBinarySAR data reference = Inr segs \<Longrightarrow> binarySegmentation data segs"
proof (cases "1 < length (splitBytes data 140)")
  case True
  assume "SegmentBinarySAR data reference = Inr segs"
  note f = SegmentBinarySAR_forms [OF this True]
  show ?thesis using binarySegmentation_parts [OF f(1,2), of 0] f(3) by simp
next
  case False
  assume "SegmentBinarySAR data reference = Inr segs"
  then show ?thesis using False SegmentBinaryUDH_segmentation by (auto simp: SegmentBinarySAR_def)
qed

text \<open>
  C32: A binary message that was segmented, in any of the three ways, is reassembled from its segments, in whatever order
  they arrive, and the user data of each segment fits into 140 octets.
\<close>

theorem segmented_binary_reassembles:
  assumes "SegmentBinaryUDH data ref8 = Inr segs \<or> SegmentBinarySAR data ref16 = Inr segs \<or> SegmentBinaryUDH16 data ref16 = Inr segs"
    and "mset parts = mset segs"
  shows "Reassemble parts = Inr data \<and> (\<forall>seg \<in> set parts. length (seg_UserData seg) \<le> 140)"
proof -
  have "binarySegmentation data segs"
    using assms(1) SegmentBinaryUDH_segmentation SegmentBinarySAR_segmentation SegmentBinaryUDH16_segmentation by blast
  then show ?thesis using assms(2) mset_eq_setD [OF assms(2)] by (auto simp: Reassemble_iff binarySegmentation_def)
qed

theorem segmented_binary_reassembles_witness:
  "\<exists>a b. SegmentBinaryUDH16 (replicate 141 9) 7 = Inr [a, b] \<and> Reassemble [b, a] = Inr (replicate 141 9)"
proof -
  have "case SegmentBinaryUDH16 (replicate 141 9) 7 of Inr [a, b] \<Rightarrow> True | _ \<Rightarrow> False" by code_simp
  then obtain a b where ab: "SegmentBinaryUDH16 (replicate 141 9) 7 = Inr [a, b]"
    by (auto split: sum.splits list.splits)
  then show ?thesis using segmented_binary_reassembles [of "replicate 141 9" 0 "[a, b]" 7 "[b, a]"] by auto
qed

end
