(* ===== verification/Spec2Isabelle.thy ===== *)
theory Spec2Isabelle
  imports LostRequest SessionProperties Message
begin

text \<open>
  A verification development of go-smpp, an SMPP 3.4 and 5.0 library in Go. SMPP connects applications (ESMEs) with
  message centres (SMSCs): both sides exchange PDUs over one connection, a PDU being a header of four 32-bit words
  and a body that depends on the command. This root theory collects the components.

  \<^bold>\<open>The program and its parts.\<close> Octets from the connection go through the framer (\<^verbatim>\<open>src/codec/framer.go\<close>), which cuts the
  stream into PDUs. The codec (\<^verbatim>\<open>src/codec\<close>) decodes a PDU through a registry that maps command numbers to decoders and
  encoders of bodies, and encodes what is to be sent. A session (\<^verbatim>\<open>src/session\<close>) owns the connection: its receiving goroutine
  matches responses to pending requests and answers requests through the handler of the application; its transmitting
  goroutine writes queued frames in batches; a third goroutine handles deadlines. A state machine says which
  command is allowed when, a window bounds the requests in flight. Independently of sessions, \<^verbatim>\<open>src/encoding\<close> and
  \<^verbatim>\<open>src/message\<close> turn texts into message octets, split long messages into segments and put them together again.

  \<^bold>\<open>Theories.\<close> Each theory models the files it names, in the order of the code; a function keeps its name where
  possible, fields of structs carry a short prefix.

  \<^item> \<open>Prelude\<close>: results as sums (\<open>bindE\<close>), octets, and the lemmas on lists and words all theories share.
  \<^item> \<open>Protocol\<close>: \<^verbatim>\<open>src/protocol\<close>: numbers, structs of PDUs, errors, version negotiation.
  \<^item> \<open>Wire\<close>: \<^verbatim>\<open>fields.go\<close>, \<^verbatim>\<open>header.go\<close>, \<^verbatim>\<open>tlv.go\<close>: big-endian words, the header, C strings, optional parameters. For each reader and
    writer a lemma characterises exactly which octets are read as which value.
  \<^item> \<open>Framer\<close>: the incremental framer with its buffer and its poisoned state, against the specification \<open>splitStream\<close> that
    sees the whole stream at once.
  \<^item> \<open>Body\<close>, \<open>Smpp34\<close>, \<open>Smpp34_Extra\<close>, \<open>Smpp50\<close>: the decoder and encoder of every body of SMPP 3.4 and 5.0.
  \<^item> \<open>Registry\<close>: registries, their modes, registration of vendor commands and of optional parameters.
  \<^item> \<open>PduCodec\<close>: \<^verbatim>\<open>DecodePDU\<close>, \<^verbatim>\<open>EncodePDU\<close>, error responses, recovered panics. Registered codecs of applications are parameters; a
    locale states what makes a pair of them a codec, and it is interpreted on every built-in one.
  \<^item> \<open>StateMachine\<close>: \<^verbatim>\<open>state.go\<close> and the table of rules, as transitions of a record.
  \<^item> \<open>Window\<close>: sequence numbers and the request window, with 32-bit and 64-bit counters as words. The window is modelled twice: an operation
    as one step, which is what the session uses, and every access to the channel or to a counter as one step of an actor
    (\<open>actorStep\<close>), with all interleavings of any number of actors.
  \<^item> \<open>Deadlines\<close>: the binary heap of deadlines with the index kept in each item.
  \<^item> \<open>Pending\<close>: the table of pending requests. The requests themselves live in a store, so that the table, a caller and a queued
    frame can share one; the channel of a request is the list of results sent on it.
  \<^item> \<open>Session\<close>: \<^verbatim>\<open>session.go\<close>, \<^verbatim>\<open>rx.go\<close>, \<^verbatim>\<open>tx.go\<close>, \<^verbatim>\<open>liveness.go\<close>, \<^verbatim>\<open>inbound_reply.go\<close>, \<^verbatim>\<open>negotiate.go\<close>, \<^verbatim>\<open>operations.go\<close>. A call that may block
    is cut where it blocks; the datatype \<open>caller\<close> holds where it stands and what it still needs.
    The transmitting goroutine is the datatype \<open>txPhase\<close>: taking an item, filling the batch, committing each response, the write and
    the bookkeeping for each written item are steps of \<open>txStep\<close>. A request for the handler stops at the call (\<open>RxHandler\<close>).
  \<^item> \<open>SessionRuns\<close>: all interleavings of callers, goroutines, the handler and the peer as a step function on events.
  \<^item> \<open>RunInvariant\<close>: the invariant of all runs. \<open>RunProperties\<close>: what follows from it for requests, slots, deadlines and
    responses, with a concrete run as example.
  \<^item> \<open>LostRequest\<close>: the request that is put into the table after the end of the session, followed through every continuation of the run.
  \<^item> \<open>SessionProperties\<close>: \<^verbatim>\<open>New\<close>, the answer to an inbound request, and a round of the transmitting goroutine.
  \<^item> \<open>Encoding\<close>: the GSM 7-bit alphabet with its extension table, UCS-2, UTF-16, septet packing, choice of an alphabet.
  \<^item> \<open>Message\<close>: segmentation with user data headers and SAR parameters, reassembly.

  \<^bold>\<open>What is shown.\<close> Decoding and encoding are inverse to each other for every command of the standard registries, in both
  directions, with the exact side conditions (canonical form); error responses likewise. The framer delivers the
  same frames however the stream is cut into reads, loses nothing, and stays poisoned after a fatal error. The state machine
  follows the state diagram of SMPP, and becomes bound only by a successful bind or when an unbind is withdrawn or refused. In every
  interleaving the window is not exceeded and its slots are those owned; its high-water mark, however, can exceed its
  capacity. Sequence numbers do not repeat within a whole cycle, the deadline heap fires exactly what is due. Texts survive encoding,
  packing, segmentation and reassembly; a segment has at most 140 octets, or 160 when it holds unpacked septets with a 16-bit
  header; segmentation refuses an encodable text exactly when it needs more than 255 parts. For all
  runs of a session, whatever the interleaving: every request gets exactly one result, which nobody changes; slots of the window
  are never lost; the heap holds exactly the deadlines of waiting requests; a response reaches the request with its sequence number; a
  caller whose request is settled returns; the end of the session fails what is pending. Inbound requests are answered under their
  own sequence number, and a round of the transmitting goroutine writes the first active items of the queue in order. One exception is proved
  too: the caller of a request put into the table after the session has ended, once it has seen that end, waits forever unless the peer
  answers what was never sent. A successful response with an omitted body is proved to be written as a frame that the decoder refuses.

  \<^bold>\<open>Bounds and fuel.\<close> Loops over octets are structural recursions or functions with a termination proof. The framer's
  loop and the loop that empties the heap take fuel that is the number of octets, respectively of items; the lemmas about
  them start from enough fuel. The loop that looks for a free sequence number has the bound of the source.
  Counters and numbers on the wire are words of their width; lengths of slices are natural numbers.

  \<^bold>\<open>Parameters.\<close> Codecs of vendor commands, what a handler of the application returns, the outcome of a write and the time are
  parameters. A handler or codec may return, fail or panic. What the handler returns is a parameter of the event of its return, so it may
  depend on anything that happened, and the other goroutines move while it runs. A vendor encoder is taken to return at least the octets it was
  given, as the built-in ones do. A step of a run takes a frame as the framer delivers it.

  \<^bold>\<open>Abstractions.\<close> Some sequences of critical sections are one step of a run although another goroutine could move between
  them in the code. Completing a request (deleting it from the table, \<^verbatim>\<open>finish\<close> with the cancelled deadline and the returned
  slot, the send on its channel) is one step, so between the steps of a run a request is either pending with its slot or settled without it; so
  is marking a written request dispatched, scheduling its deadline and attaching it (\<open>armDeadline\<close>). Handling one response, one round of
  expired deadlines, and one inbound request up to its wait for the queue or the call of the handler are
  one step each. The acquire and release of a slot are one step there, so the equation for \<open>inUse\<close> in a
  run holds between steps; what happens inside them is the subject of the interleaved model in \<open>Window\<close>. The end of the session
  (\<^verbatim>\<open>terminate\<close>, guarded by a once) is one step. The order in which Go ranges over a map is the order of insertion. A sequence number is taken
  not to be given out again while a frame that carries it is still queued or being written. Slices are values, so that the
  copying of borrowed octets (\<^verbatim>\<open>own.go\<close>) and the pool of buffers (\<^verbatim>\<open>pool.go\<close>) are the identity.

  \<^bold>\<open>Not modelled.\<close> Metrics, events, traces and logging (\<^verbatim>\<open>observability.go\<close>, \<^verbatim>\<open>flow.go\<close>) observe and do not influence a session.
  \<^verbatim>\<open>size_hint.go\<close> only reserves capacity. Delivery receipts (\<^verbatim>\<open>delivery_receipt.go\<close>) rest on Unicode field splitting and case
  folding of the Go library. The packages \<^verbatim>\<open>server\<close>, \<^verbatim>\<open>client\<close> and \<^verbatim>\<open>transport\<close> are built from network listeners, dialling,
  TLS, timers and random back-off around sessions; the programs under \<^verbatim>\<open>cmd\<close> and \<^verbatim>\<open>examples\<close> wire them to flags.
\<close>

end
